(* ===== verification/Fluxo_Prelude.thy ===== *)
theory Fluxo_Prelude
  imports Main "HOL-Library.AList" "HOL-Library.Multiset"
begin

text \<open>
  Shared ground of the development: the fact collections, the time and duration
  types, the decimal formatting of Go's \<^verbatim>\<open>strconv\<close>/\<^verbatim>\<open>fmt\<close> that the sources use to
  build identifiers, and generic lemmas on association lists, which model the Go maps
  the sources range over.
\<close>

named_theorems go_simps \<open>defining equations of the modelled Go standard-library helpers\<close>
named_theorems queue_simps \<open>defining equations of queue operations\<close>
named_theorems store_simps \<open>defining equations of store operations\<close>
named_theorems frame_simps \<open>what an operation leaves unchanged\<close>

section \<open>Time\<close>

text \<open>
  A \<^verbatim>\<open>time.Time\<close> is its offset from the Unix epoch in nanoseconds (an unbounded
  integer: Go keeps seconds and nanoseconds apart, so the instant itself does not wrap).
  The zero \<^verbatim>\<open>time.Time{}\<close> is January 1, year 1. A \<^verbatim>\<open>time.Duration\<close> is an \<^verbatim>\<open>int64\<close> of
  nanoseconds.
\<close>

type_synonym time = int
type_synonym duration = int

definition zero_time :: time where
  "zero_time = -62135596800000000000"

definition IsZero :: "time \<Rightarrow> bool" where
  "IsZero t \<longleftrightarrow> t = zero_time"

text \<open>\<^verbatim>\<open>t.UnixNano()\<close> is an \<^verbatim>\<open>int64\<close>: the value wraps outside the years 1678 to 2262.\<close>

definition UnixNano :: "time \<Rightarrow> int" where
  "UnixNano t = signed_take_bit 63 t"

definition Millisecond :: duration where "Millisecond = 1000000"
definition Second :: duration where "Second = 1000000000"

lemma UnixNano_id:
  assumes "- (2 ^ 63) \<le> t" and "t < 2 ^ 63"
  shows "UnixNano t = t"
  using assms by (simp add: UnixNano_def signed_take_bit_int_eq_self_iff)

lemma UnixNano_zero_time: "UnixNano zero_time = -6795364578871345152"
  by (simp add: UnixNano_def zero_time_def signed_take_bit_eq_take_bit_shift take_bit_eq_mod)

lemma zero_time_neg [simp]: "zero_time < 0"
  by (simp add: zero_time_def)

lemma not_IsZero_pos [simp]: "0 \<le> t \<Longrightarrow> \<not> IsZero t"
  by (simp add: IsZero_def zero_time_def)

section \<open>Decimal numbers\<close>

definition digit :: "nat \<Rightarrow> char" where
  "digit d = char_of (48 + d)"

fun show_nat :: "nat \<Rightarrow> string" where
  "show_nat n = (if n < 10 then [digit n] else show_nat (n div 10) @ [digit (n mod 10)])"

declare show_nat.simps [simp del]

definition digit_value :: "char \<Rightarrow> nat" where
  "digit_value c = of_char c - 48"

definition is_digit :: "char \<Rightarrow> bool" where
  "is_digit c \<longleftrightarrow> 48 \<le> (of_char c :: nat) \<and> (of_char c :: nat) \<le> 57"

definition read_nat :: "string \<Rightarrow> nat" where
  "read_nat s = foldl (\<lambda>a c. 10 * a + digit_value c) 0 s"

text \<open>
  \<^verbatim>\<open>strconv.FormatInt(i, 10)\<close> (also \<^verbatim>\<open>fmt.Sprintf("%d", i)\<close>) and
  \<^verbatim>\<open>strconv.ParseInt(s, 10, 64)\<close>: an optional sign and a non-empty run of digits, within
  the 64-bit range.
\<close>

definition FormatInt :: "int \<Rightarrow> string" where
  "FormatInt i = (if i < 0 then CHR ''-'' # show_nat (nat (- i)) else show_nat (nat i))"

definition ParseInt :: "string \<Rightarrow> int option" where
  "ParseInt s =
     (let (neg, ds) = (case s of [] \<Rightarrow> (False, []) | c # cs \<Rightarrow>
            if c = CHR ''-'' then (True, cs) else if c = CHR ''+'' then (False, cs) else (False, s));
          v = (if neg then - int (read_nat ds) else int (read_nat ds))
      in if ds = [] \<or> \<not> list_all is_digit ds then None
         else if - (2 ^ 63) \<le> v \<and> v < 2 ^ 63 then Some v else None)"

lemma of_char_digit: "d < 10 \<Longrightarrow> (of_char (digit d) :: nat) = 48 + d"
  by (simp add: digit_def)

lemma digit_value_digit [simp]: "d < 10 \<Longrightarrow> digit_value (digit d) = d"
  by (simp add: digit_value_def of_char_digit)

lemma is_digit_digit [simp]: "d < 10 \<Longrightarrow> is_digit (digit d)"
  by (simp add: is_digit_def of_char_digit)

lemma show_nat_digits: "list_all is_digit (show_nat n)"
proof (induction n rule: show_nat.induct)
  case (1 n)
  then show ?case by (subst show_nat.simps) simp
qed

lemma show_nat_nonempty [simp]: "show_nat n \<noteq> []"
  by (subst show_nat.simps) simp

lemma read_show_nat [simp]: "read_nat (show_nat n) = n"
proof (induction n rule: show_nat.induct)
  case (1 n)
  show ?case
  proof (cases "n < 10")
    case True
    then show ?thesis by (subst show_nat.simps) (simp add: read_nat_def)
  next
    case False
    with 1 have "read_nat (show_nat (n div 10)) = n div 10" by simp
    with False show ?thesis
      by (subst show_nat.simps) (simp add: read_nat_def)
  qed
qed

lemma show_nat_inject [simp]: "show_nat m = show_nat n \<longleftrightarrow> m = n"
  by (metis read_show_nat)

lemma show_nat_hd_digit: "show_nat n = c # cs \<Longrightarrow> is_digit c"
  using show_nat_digits [of n] by simp

lemma minus_not_digit [simp]: "\<not> is_digit (CHR ''-'')"
  and plus_not_digit [simp]: "\<not> is_digit (CHR ''+'')"
  by (simp_all add: is_digit_def)

lemma show_nat_no_sign:
  "show_nat n \<noteq> CHR ''-'' # cs" "show_nat n \<noteq> CHR ''+'' # cs"
  using show_nat_hd_digit [of n] by fastforce+

lemma ParseInt_FormatInt_eq: "ParseInt (FormatInt i) = (if - (2 ^ 63) \<le> i \<and> i < 2 ^ 63 then Some i else None)"
proof (cases "i < 0")
  case True
  then show ?thesis by (simp add: ParseInt_def FormatInt_def show_nat_digits)
next
  case False
  obtain c cs where c: "show_nat (nat i) = c # cs"
    by (cases "show_nat (nat i)") auto
  then have "c \<noteq> CHR ''-''" "c \<noteq> CHR ''+''"
    using show_nat_no_sign [of "nat i"] by auto
  with False c show ?thesis
    using show_nat_digits [of "nat i"] read_show_nat [of "nat i"]
    by (simp add: ParseInt_def FormatInt_def)
qed

lemma FormatInt_nonempty [simp]: "FormatInt i \<noteq> []"
  by (simp add: FormatInt_def)

lemma FormatInt_inject [simp]: "FormatInt i = FormatInt j \<longleftrightarrow> i = j"
proof
  assume "FormatInt i = FormatInt j"
  then show "i = j"
    using show_nat_no_sign [of "nat i"] show_nat_no_sign [of "nat j"]
      show_nat_no_sign [of "nat j", symmetric]
    by (auto simp: FormatInt_def split: if_splits)
qed simp

section \<open>Association lists\<close>

text \<open>
  A Go map that the code ranges over is an association list with distinct keys; its
  order is the (unspecified) iteration order, and theorems are stated for every list.
\<close>

definition keys :: "('k \<times> 'v) list \<Rightarrow> 'k list" where
  "keys xs = map fst xs"

lemma keys_simps [simp]:
  "keys [] = []" "keys (x # xs) = fst x # keys xs" "keys (xs @ ys) = keys xs @ keys ys"
  by (simp_all add: keys_def)

lemma set_keys: "set (keys xs) = dom (map_of xs)"
  by (simp add: keys_def dom_map_of_conv_image_fst)

lemma map_of_None_keys: "map_of xs k = None \<longleftrightarrow> k \<notin> set (keys xs)"
  by (simp add: keys_def map_of_eq_None_iff)

lemma map_of_Some_keys: "map_of xs k = Some v \<Longrightarrow> k \<in> set (keys xs)"
  by (auto simp: keys_def dest: map_of_SomeD intro: rev_image_eqI)

lemma map_of_delete [simp]: "map_of (AList.delete k xs) = (map_of xs)(k := None)"
  by (simp add: AList.delete_conv')

lemma map_of_update [simp]: "map_of (AList.update k v xs) = (map_of xs)(k \<mapsto> v)"
  by (rule AList.update_conv')

lemma set_keys_delete [simp]: "set (keys (AList.delete k xs)) = set (keys xs) - {k}"
  by (auto simp: keys_def AList.delete_eq)

lemma distinct_keys_delete: "distinct (keys xs) \<Longrightarrow> distinct (keys (AList.delete k xs))"
  by (simp add: keys_def AList.distinct_delete)

lemma set_keys_update [simp]: "set (keys (AList.update k v xs)) = insert k (set (keys xs))"
  by (simp add: keys_def AList.dom_update)

lemma distinct_keys_update: "distinct (keys xs) \<Longrightarrow> distinct (keys (AList.update k v xs))"
  by (simp add: keys_def AList.distinct_update)

lemma length_delete_distinct:
  "distinct (keys xs) \<Longrightarrow> map_of xs k \<noteq> None \<Longrightarrow> Suc (length (AList.delete k xs)) = length xs"
proof (induction xs)
  case (Cons x xs)
  show ?case
  proof (cases "fst x = k")
    case True
    with Cons.prems have "k \<notin> fst ` set xs" by (auto simp: keys_def)
    with True show ?thesis by (simp add: AList.delete_eq filter_id_conv case_prod_beta image_iff)
  next
    case False
    with Cons show ?thesis by (cases x) (auto simp: AList.delete_eq)
  qed
qed simp

lemma in_keysI: "(i, v) \<in> set xs \<Longrightarrow> i \<in> set (keys xs)"
  by (force simp: keys_def)

lemma delete_inD: "e \<in> set (AList.delete k xs) \<Longrightarrow> e \<in> set xs"
  by (auto simp: AList.delete_eq)

lemma in_delete_iff: "(i, v) \<in> set (AList.delete k xs) \<longleftrightarrow> i \<noteq> k \<and> (i, v) \<in> set xs"
  by (auto simp: AList.delete_eq)

lemma in_update_iff:
  "distinct (keys xs) \<Longrightarrow>
   (i, v) \<in> set (AList.update k w xs) \<longleftrightarrow> (if i = k then v = w else (i, v) \<in> set xs)"
proof -
  assume d: "distinct (keys xs)"
  have "(i, v) \<in> set (AList.update k w xs) \<longleftrightarrow> map_of (AList.update k w xs) i = Some v"
    using distinct_keys_update [OF d, of k w] by (simp add: keys_def del: map_of_update)
  also have "\<dots> \<longleftrightarrow> (if i = k then v = w else map_of xs i = Some v)" by auto
  finally show ?thesis using d by (simp add: keys_def)
qed

lemma mset_keys_partition:
  "mset (keys (filter P xs)) + mset (keys (filter (\<lambda>x. \<not> P x) xs)) = mset (keys xs)"
  by (induction xs) auto

lemma distinct_keys_unique:
  "distinct (keys xs) \<Longrightarrow> (k, v) \<in> set xs \<Longrightarrow> (k, w) \<in> set xs \<Longrightarrow> v = w"
  by (auto simp: keys_def dest: eq_key_imp_eq_value)

lemma length_keys [simp]: "length (keys xs) = length xs"
  by (simp add: keys_def)

section \<open>Quoted strings\<close>

text \<open>
  \<^verbatim>\<open>%q\<close> (\<^verbatim>\<open>strconv.Quote\<close>), used in error texts: exact for ASCII and for well-formed
  printable UTF-8, whose bytes are copied.
\<close>

definition hex_digit :: "nat \<Rightarrow> char" where
  "hex_digit d = char_of (if d < 10 then 48 + d else 87 + d)"

definition quote_char :: "char \<Rightarrow> string" where
  "quote_char c =
     (let n = (of_char c :: nat); bs = char_of (92 :: nat) in
      if n = 34 \<or> n = 92 then [bs, c]
      else if n = 7 then [bs, CHR ''a''] else if n = 8 then [bs, CHR ''b'']
      else if n = 12 then [bs, CHR ''f''] else if n = 10 then [bs, CHR ''n'']
      else if n = 13 then [bs, CHR ''r''] else if n = 9 then [bs, CHR ''t'']
      else if n = 11 then [bs, CHR ''v'']
      else if n < 32 \<or> n = 127 then [bs, CHR ''x'', hex_digit (n div 16), hex_digit (n mod 16)]
      else [c])"

definition quote :: "string \<Rightarrow> string" where
  "quote s = char_of (34 :: nat) # concat (map quote_char s) @ [char_of (34 :: nat)]"

section \<open>Records by key\<close>

text \<open>The rows of a table, or the documents of a collection, found by their key.\<close>

definition lookup_by :: "('r \<Rightarrow> 'k) \<Rightarrow> 'r list \<Rightarrow> 'k \<Rightarrow> 'r option" where
  "lookup_by k rs = map_of (map (\<lambda>r. (k r, r)) rs)"

lemma lookup_by_simps [simp]:
  "lookup_by k [] i = None" "lookup_by k (r # rs) i = (if i = k r then Some r else lookup_by k rs i)"
  by (simp_all add: lookup_by_def)

lemma lookup_by_Some: "lookup_by k rs i = Some r \<Longrightarrow> r \<in> set rs \<and> k r = i"
  by (induction rs) (auto split: if_splits)

lemma lookup_by_None: "lookup_by k rs i = None \<longleftrightarrow> i \<notin> k ` set rs"
  by (induction rs) auto

lemma lookup_by_mem: "distinct (map k rs) \<Longrightarrow> r \<in> set rs \<Longrightarrow> lookup_by k rs (k r) = Some r"
  by (induction rs) (auto simp: image_iff)

lemma lookup_by_map: "(\<And>r. k (f r) = k r) \<Longrightarrow> lookup_by k (map f rs) i = map_option f (lookup_by k rs i)"
  by (induction rs) auto

lemma lookup_by_filter:
  "distinct (map k rs) \<Longrightarrow> lookup_by k (filter P rs) i =
    (case lookup_by k rs i of Some r \<Rightarrow> if P r then Some r else None | None \<Rightarrow> None)"
proof (induction rs)
  case (Cons r rs)
  then have "lookup_by k rs (k r) = None" by (simp add: lookup_by_None)
  with Cons show ?case by (auto split: option.splits)
qed simp

lemma lookup_by_snoc:
  "lookup_by k (rs @ [r]) i = (case lookup_by k rs i of None \<Rightarrow> if i = k r then Some r else None | Some x \<Rightarrow> Some x)"
  by (induction rs) (auto split: option.splits)

lemma lookup_by_update:
  assumes "distinct (map k rs)" "lookup_by k rs i = Some r" "k (f r) = i"
  shows "lookup_by k (map (\<lambda>x. if k x = i then f x else x) rs) j = (if j = i then Some (f r) else lookup_by k rs j)"
  using assms(1,2)
proof (induction rs)
  case (Cons x rs)
  show ?case
  proof (cases "k x = i")
    case True
    with Cons.prems have x: "x = r" and "i \<notin> k ` set rs" by auto
    then have "map (\<lambda>x. if k x = i then f x else x) rs = rs" by (intro map_idI) auto
    with True x assms(3) show ?thesis by auto
  next
    case False
    with Cons show ?thesis by auto
  qed
qed simp

text \<open>
  The first elements of a list in a total order that leaves some of them equal, and the choice of one
  of them by a number that the specification leaves open.
\<close>

definition least_by :: "('a \<Rightarrow> 'a \<Rightarrow> bool) \<Rightarrow> 'a list \<Rightarrow> 'a list" where
  "least_by R xs = filter (\<lambda>x. list_all (R x) xs) xs"

definition pick :: "('a list \<Rightarrow> nat) \<Rightarrow> 'a list \<Rightarrow> 'a" where
  "pick tie xs = xs ! (tie xs mod length xs)"

lemma pick_in: "xs \<noteq> [] \<Longrightarrow> pick tie xs \<in> set xs"
  by (simp add: pick_def)

lemma least_by_iff: "x \<in> set (least_by R xs) \<longleftrightarrow> x \<in> set xs \<and> (\<forall>y \<in> set xs. R x y)"
  by (auto simp: least_by_def list_all_iff)

lemma least_by_ne:
  assumes "\<And>x y. R x y \<or> R y x" "\<And>x y z. R x y \<Longrightarrow> R y z \<Longrightarrow> R x z" "xs \<noteq> []"
  shows "least_by R xs \<noteq> []"
proof -
  from assms(3) have "\<exists>x \<in> set xs. \<forall>y \<in> set xs. R x y"
  proof (induction xs)
    case (Cons a xs)
    show ?case
    proof (cases "xs = []")
      case True
      then show ?thesis using assms(1) by auto
    next
      case False
      with Cons.IH obtain x where x: "x \<in> set xs" "\<forall>y \<in> set xs. R x y" by blast
      have "R a a" using assms(1) by blast
      with x assms(1) [of a x] assms(2) show ?thesis by (metis set_ConsD list.set_intros)
    qed
  qed simp
  then show ?thesis by (metis least_by_iff empty_iff empty_set)
qed

end
