(* ===== verification/Api_Types.thy ===== *)
theory Api_Types
  imports Fluxo_Prelude Complex_Main
begin

text \<open>
  The data of \<^verbatim>\<open>pkg/api\<close> and \<^verbatim>\<open>internal/taskqueue/taskqueue.go\<close>: errors and how
  \<^verbatim>\<open>errors.Is\<close>/\<^verbatim>\<open>errors.As\<close> look through wrapping, the dynamic values stored in \<^verbatim>\<open>any\<close>,
  workflow instances, events, retry policies, contexts and tasks.
\<close>

section \<open>Errors\<close>

text \<open>
  \<open>ErrMsg s\<close> is \<^verbatim>\<open>errors.New(s)\<close> or a \<^verbatim>\<open>fmt.Errorf\<close> without \<^verbatim>\<open>%w\<close>; \<open>ErrWrap s e\<close> is a
  \<^verbatim>\<open>fmt.Errorf\<close> with \<^verbatim>\<open>%w\<close>: its full text and the wrapped error. The other constructors
  are the sentinel values and error types of the sources.
\<close>

datatype goerr =
    ErrMsg string
  | ErrWrap string goerr
  | ErrWorkflowNotFound
  | ErrInstanceNotFound
  | ErrWorkflowDefinitionMismatch
  | ErrWorkflowInstanceLocked
  | ContextCanceled
  | ContextDeadlineExceeded
  | waitForSignalError string bool
  | WaitForChildrenError "string list" duration
  | WaitForAnyChildError "string list" duration

fun Error :: "goerr \<Rightarrow> string" where
  "Error (ErrMsg s) = s"
| "Error (ErrWrap s e) = s"
| "Error ErrWorkflowNotFound = ''workflow not found''"
| "Error ErrInstanceNotFound = ''instance not found''"
| "Error ErrWorkflowDefinitionMismatch = ''workflow definition mismatch''"
| "Error ErrWorkflowInstanceLocked = ''workflow instance locked''"
| "Error ContextCanceled = ''context canceled''"
| "Error ContextDeadlineExceeded = ''context deadline exceeded''"
| "Error (waitForSignalError n rp) = ''waiting for signal: '' @ n"
| "Error (WaitForChildrenError ids d) = ''waiting for '' @ show_nat (length ids) @ '' child workflows''"
| "Error (WaitForAnyChildError ids d) = ''waiting for any child workflow to complete''"

text \<open>The unwrap chain that \<^verbatim>\<open>errors.Is\<close> and \<^verbatim>\<open>errors.As\<close> walk.\<close>

fun err_chain :: "goerr \<Rightarrow> goerr list" where
  "err_chain (ErrWrap s e) = ErrWrap s e # err_chain e"
| "err_chain e = [e]"

definition errors_Is :: "goerr \<Rightarrow> goerr \<Rightarrow> bool" where
  "errors_Is e target \<longleftrightarrow> target \<in> set (err_chain e)"

fun WaitForSignalMeta :: "goerr \<Rightarrow> (string \<times> bool) option" where
  "WaitForSignalMeta (waitForSignalError n rp) = Some (n, rp)"
| "WaitForSignalMeta (ErrWrap s e) = WaitForSignalMeta e"
| "WaitForSignalMeta _ = None"

definition IsWaitForSignalError :: "goerr \<Rightarrow> string option" where
  "IsWaitForSignalError e = map_option fst (WaitForSignalMeta e)"

fun AsWaitForChildren :: "goerr \<Rightarrow> bool" where
  "AsWaitForChildren (WaitForChildrenError ids d) = True"
| "AsWaitForChildren (ErrWrap s e) = AsWaitForChildren e"
| "AsWaitForChildren _ = False"

fun IsWaitForAnyChildError :: "goerr \<Rightarrow> bool" where
  "IsWaitForAnyChildError (WaitForAnyChildError ids d) = True"
| "IsWaitForAnyChildError (ErrWrap s e) = IsWaitForAnyChildError e"
| "IsWaitForAnyChildError _ = False"

definition NewWaitForSignalError :: "string \<Rightarrow> goerr" where
  "NewWaitForSignalError name = waitForSignalError name False"

definition NewWaitForAnySignalError :: "string \<Rightarrow> goerr" where
  "NewWaitForAnySignalError name = waitForSignalError name True"

text \<open>A step error that parks the workflow instead of failing it.\<close>

definition is_wait :: "goerr \<Rightarrow> bool" where
  "is_wait e \<longleftrightarrow> WaitForSignalMeta e \<noteq> None \<or> AsWaitForChildren e \<or> IsWaitForAnyChildError e"

lemma WaitForSignalMeta_chain:
  "WaitForSignalMeta e = Some (n, rp) \<longleftrightarrow> (waitForSignalError n rp) \<in> set (err_chain e)"
  by (induction e rule: WaitForSignalMeta.induct) auto

lemma is_wait_wrap [simp]: "is_wait (ErrWrap s e) = is_wait e"
  by (simp add: is_wait_def)

section \<open>Dynamic values\<close>

text \<open>
  What an \<^verbatim>\<open>any\<close> may hold: the basic types, the payload types of \<^verbatim>\<open>pkg/api\<close> (which the code
  recognises by type assertion), and \<open>VStruct t fs\<close> for a value of a user-defined type \<open>t\<close>.
\<close>

datatype anyv =
    VNil
  | VBool bool
  | VInt int
  | VString string
  | VStrings "string list"
  | VList "anyv list"
  | VStruct string "anyv list"
  | SignalPayload string anyv
  | TimeoutPayload string
  | StartWorkflowPayload anyv
  | WaitMeta string bool
  | ParallelResults "(int \<times> anyv \<times> goerr option) list"

fun type_name :: "anyv \<Rightarrow> string" where
  "type_name VNil = ''<nil>''"
| "type_name (VBool _) = ''bool''"
| "type_name (VInt _) = ''int''"
| "type_name (VString _) = ''string''"
| "type_name (VStrings _) = ''[]string''"
| "type_name (VList _) = ''[]interface {}''"
| "type_name (VStruct t _) = t"
| "type_name (SignalPayload _ _) = ''api.SignalPayload''"
| "type_name (TimeoutPayload _) = ''api.TimeoutPayload''"
| "type_name (StartWorkflowPayload _) = ''api.StartWorkflowPayload''"
| "type_name (WaitMeta _ _) = ''api.WaitMeta''"
| "type_name (ParallelResults _) = ''[]api.ParallelResult''"

section \<open>Workflow instances\<close>

datatype Status = StatusPending | StatusRunning | StatusCompleted | StatusFailed | StatusWaiting

fun status_string :: "Status \<Rightarrow> string" where
  "status_string StatusPending = ''PENDING''"
| "status_string StatusRunning = ''RUNNING''"
| "status_string StatusCompleted = ''COMPLETED''"
| "status_string StatusFailed = ''FAILED''"
| "status_string StatusWaiting = ''WAITING''"

text \<open>
  \<open>inst_StepResults = None\<close> is the nil map. \<open>inst_CurrentStep\<close> is a slice index and only
  ever written with one, so it is a natural number.
\<close>

record WorkflowInstance =
  inst_ID :: string
  inst_Name :: string
  inst_Version :: string
  inst_Fingerprint :: string
  inst_LeaseOwner :: string
  inst_LeaseExpiresAt :: time
  inst_Status :: Status
  inst_Output :: anyv
  inst_Err :: "goerr option"
  inst_Input :: anyv
  inst_CurrentStep :: nat
  inst_StepResults :: "(nat \<rightharpoonup> anyv) option"

text \<open>The zero \<^verbatim>\<open>Status\<close> \<^verbatim>\<open>""\<close> of a filter, which means no filter, is \<open>None\<close>.\<close>

record InstanceFilter =
  filter_WorkflowName :: string
  filter_Status :: "Status option"

definition cached :: "WorkflowInstance \<Rightarrow> nat \<Rightarrow> anyv option" where
  "cached inst i = (case inst_StepResults inst of None \<Rightarrow> None | Some m \<Rightarrow> m i)"

section \<open>Events\<close>

datatype EventType =
    EventWorkflowEnqueued | EventWorkflowStarted | EventWorkflowResumed | EventWorkflowWaiting
  | EventWorkflowCompleted | EventWorkflowFailed | EventSignalReceived
  | EventStepStarted | EventStepCompleted | EventStepFailed

record WorkflowEvent =
  ev_InstanceID :: string
  ev_At :: time
  ev_Type :: EventType
  ev_WorkflowName :: string
  ev_WorkflowVersion :: string
  ev_Step :: int
  ev_Detail :: string

section \<open>Retry policies\<close>

text \<open>\<^verbatim>\<open>BackoffMultiplier\<close> is a (finite) \<^verbatim>\<open>float64\<close>, represented by the rational it denotes.\<close>

record RetryPolicy =
  rp_MaxAttempts :: int
  rp_Backoff :: duration
  rp_InitialBackoff :: duration
  rp_MaxBackoff :: duration
  rp_BackoffMultiplier :: rat

section \<open>Contexts\<close>

text \<open>
  A \<^verbatim>\<open>context.Context\<close> as the sources use it: when and with which error it is done, and
  whether an engine is attached under \<^verbatim>\<open>engineContextKey\<close>.
\<close>

record ctx =
  ctx_cancel :: "(time \<times> goerr) option"
  ctx_engine :: bool

definition Background :: ctx where
  "Background = \<lparr>ctx_cancel = None, ctx_engine = False\<rparr>"

definition ctx_Err :: "ctx \<Rightarrow> time \<Rightarrow> goerr option" where
  "ctx_Err c now = (case ctx_cancel c of None \<Rightarrow> None | Some (t, e) \<Rightarrow> if t \<le> now then Some e else None)"

definition WithEngine :: "ctx \<Rightarrow> ctx" where
  "WithEngine c = c\<lparr>ctx_engine := True\<rparr>"

definition EngineFromContext :: "ctx \<Rightarrow> bool" where
  "EngineFromContext c = ctx_engine c"

lemma Background_sel [simp]: "ctx_cancel Background = None" "ctx_Err Background now = None"
  by (simp_all add: Background_def ctx_Err_def)

lemma ctx_Err_WithEngine [simp]: "ctx_Err (WithEngine c) now = ctx_Err c now"
  by (simp add: ctx_Err_def WithEngine_def)

lemma EngineFromContext_WithEngine [simp]: "EngineFromContext (WithEngine c)"
  by (simp add: EngineFromContext_def WithEngine_def)

lemma ctx_cancel_WithEngine [simp]: "ctx_cancel (WithEngine c) = ctx_cancel c"
  by (simp add: WithEngine_def)

section \<open>Tasks\<close>

datatype TaskType =
  TaskTypeStartWorkflow | TaskTypeSignal | TaskTypeResume | TaskTypeOther string

record Task =
  task_ID :: string
  task_Type :: TaskType
  task_WorkflowName :: string
  task_InstanceID :: string
  task_SignalName :: string
  task_Payload :: anyv
  task_EnqueuedAt :: time
  task_NotBefore :: time
  task_Attempts :: int

text \<open>The zero \<^verbatim>\<open>Task{}\<close>, over which the task literals of the sources set fields.\<close>

definition zero_Task :: Task where
  "zero_Task = \<lparr>task_ID = '''', task_Type = TaskTypeOther '''', task_WorkflowName = '''',
     task_InstanceID = '''', task_SignalName = '''', task_Payload = VNil,
     task_EnqueuedAt = zero_time, task_NotBefore = zero_time, task_Attempts = 0\<rparr>"

text \<open>Eligible for delivery: no \<^verbatim>\<open>NotBefore\<close>, or one that has passed.\<close>

definition runnable :: "time \<Rightarrow> Task \<Rightarrow> bool" where
  "runnable now t \<longleftrightarrow> IsZero (task_NotBefore t) \<or> task_NotBefore t \<le> now"

end
