(* ===== verification/Task_Queue.thy ===== *)
theory Task_Queue
  imports Api_Types
begin

text \<open>
  The \<^verbatim>\<open>Queue\<close> interface of \<^verbatim>\<open>internal/taskqueue/taskqueue.go\<close> as a record of operations
  (a Go interface value), the blocking \<^verbatim>\<open>Dequeue\<close> loop all back ends share, histories of
  interleaved queue calls, and the contract \<open>task_queue\<close> a back end has to meet. The
  client theorems (a held lease excludes every other worker, no task is lost without an
  acknowledgement, an unacknowledged task is delivered again) are proved once from it.
\<close>

section \<open>The interface\<close>

text \<open>
  Every operation takes the clock reading it makes (\<^verbatim>\<open>time.Now()\<close>) and, where it looks at its
  context, the context's error at that time. \<open>q_checkTTL\<close> is the test \<^verbatim>\<open>Dequeue\<close> makes on entry and
  \<open>q_DequeuePoll\<close> is one pass of the \<^verbatim>\<open>for\<close> loop of
  \<^verbatim>\<open>Dequeue\<close>; it is atomic, being one critical section or one statement of the store.
\<close>

record 'q Queue =
  q_Enqueue :: "time \<Rightarrow> goerr option \<Rightarrow> Task \<Rightarrow> 'q \<Rightarrow> goerr option \<times> 'q"
  q_checkTTL :: "duration \<Rightarrow> goerr option"
  q_DequeuePoll :: "time \<Rightarrow> string \<Rightarrow> duration \<Rightarrow> 'q \<Rightarrow> (goerr + Task option) \<times> 'q"
  q_pollInterval :: duration
  q_RenewLease :: "time \<Rightarrow> string \<Rightarrow> string \<Rightarrow> duration \<Rightarrow> 'q \<Rightarrow> goerr option \<times> 'q"
  q_Ack :: "goerr option \<Rightarrow> string \<Rightarrow> string \<Rightarrow> 'q \<Rightarrow> goerr option \<times> 'q"
  q_Nack :: "goerr option \<Rightarrow> string \<Rightarrow> string \<Rightarrow> time \<Rightarrow> int \<Rightarrow> 'q \<Rightarrow> goerr option \<times> 'q"
  q_Len :: "'q \<Rightarrow> nat"

text \<open>
  The \<^verbatim>\<open>for\<close> loop of \<^verbatim>\<open>Dequeue\<close>: poll until a task is claimed, an error occurs or the context
  is done. While nothing is runnable the caller sleeps one poll interval (or until its
  context is done). \<open>None\<close> means that the fuel, the number of polls, is used up.
\<close>

fun Dequeue_loop :: "'q Queue \<Rightarrow> nat \<Rightarrow> ctx \<Rightarrow> string \<Rightarrow> duration \<Rightarrow> time \<Rightarrow> 'q
     \<Rightarrow> ((goerr + Task) \<times> time \<times> 'q) option" where
  "Dequeue_loop Q 0 c owner ttl now q = None"
| "Dequeue_loop Q (Suc n) c owner ttl now q =
     (case ctx_Err c now of
        Some e \<Rightarrow> Some (Inl e, now, q)
      | None \<Rightarrow>
        (case q_DequeuePoll Q now owner ttl q of
           (Inl e, q') \<Rightarrow> Some (Inl e, now, q')
         | (Inr (Some t), q') \<Rightarrow> Some (Inr t, now, q')
         | (Inr None, q') \<Rightarrow>
             (case ctx_cancel c of
                Some (d, e) \<Rightarrow>
                  if d \<le> now + q_pollInterval Q then Some (Inl e, d, q')
                  else Dequeue_loop Q n c owner ttl (now + q_pollInterval Q) q'
              | None \<Rightarrow> Dequeue_loop Q n c owner ttl (now + q_pollInterval Q) q')))"

definition Dequeue :: "'q Queue \<Rightarrow> nat \<Rightarrow> ctx \<Rightarrow> string \<Rightarrow> duration \<Rightarrow> time \<Rightarrow> 'q
     \<Rightarrow> ((goerr + Task) \<times> time \<times> 'q) option" where
  "Dequeue Q n c owner ttl now q =
     (case q_checkTTL Q ttl of
        Some e \<Rightarrow> Some (Inl e, now, q)
      | None \<Rightarrow> Dequeue_loop Q n c owner ttl now q)"

section \<open>Leases and histories\<close>

datatype lease = Free | Leased string time

text \<open>A lease that has run out (or none): the task may be claimed.\<close>

fun available :: "time \<Rightarrow> lease \<Rightarrow> bool" where
  "available now Free = True"
| "available now (Leased owner x) = (x \<le> now)"

type_synonym table = "string \<Rightarrow> (Task \<times> lease) option"

definition leased_by :: "table \<Rightarrow> string \<Rightarrow> string \<Rightarrow> bool" where
  "leased_by v i owner \<longleftrightarrow> (\<exists>t x. v i = Some (t, Leased owner x))"

text \<open>The back ends may drop a lease that has run out; nothing else happens to a task by itself.\<close>

definition lapse :: "time \<Rightarrow> (Task \<times> lease) option \<Rightarrow> (Task \<times> lease) option \<Rightarrow> bool" where
  "lapse now e e' \<longleftrightarrow> e' = e \<or>
     (\<exists>t owner x. e = Some (t, Leased owner x) \<and> x \<le> now \<and> e' = Some (t, Free))"

text \<open>What a worker gets is the stored job, up to the identifier the queue chose.\<close>

definition same_job :: "Task \<Rightarrow> Task \<Rightarrow> bool" where
  "same_job t u \<longleftrightarrow> task_Type t = task_Type u \<and> task_WorkflowName t = task_WorkflowName u \<and>
     task_InstanceID t = task_InstanceID u \<and> task_SignalName t = task_SignalName u \<and>
     task_Payload t = task_Payload u \<and> task_Attempts t = task_Attempts u"

text \<open>
  The time a task is stored with: a task without \<^verbatim>\<open>NotBefore\<close> may run from the moment it is enqueued.
  \<open>seen\<close> is the precision of the back end's clock.
\<close>

definition scheduled :: "(time \<Rightarrow> time) \<Rightarrow> time \<Rightarrow> Task \<Rightarrow> Task \<Rightarrow> bool" where
  "scheduled seen now t t' \<longleftrightarrow>
     (if IsZero (task_NotBefore t) then IsZero (task_NotBefore t') \<or> task_NotBefore t' = seen now
      else task_NotBefore t' = seen (task_NotBefore t))"

text \<open>The tasks a poll may hand out.\<close>

definition claimable :: "time \<Rightarrow> table \<Rightarrow> string set" where
  "claimable now v = {i. \<exists>t l. v i = Some (t, l) \<and> available now l \<and> runnable now t}"

lemma same_job_refl [simp]: "same_job t t"
  by (simp add: same_job_def)

lemma lapse_refl [simp]: "lapse now e e"
  by (simp add: lapse_def)

lemma lapse_None [simp]: "lapse now e None \<longleftrightarrow> e = None" "lapse now None e \<longleftrightarrow> e = None"
  by (auto simp: lapse_def)

lemma lapse_held: "lapse now (Some (t, Leased owner x)) e \<Longrightarrow> now < x \<Longrightarrow> e = Some (t, Leased owner x)"
  by (auto simp: lapse_def)

lemma lapse_task: "lapse now (Some (t, l)) e \<Longrightarrow> \<exists>l'. e = Some (t, l')"
  by (auto simp: lapse_def)

lemma lapse_available:
  "lapse now (Some (t, l)) (Some (t', l')) \<Longrightarrow> t' = t \<and> available now l' = available now l"
  by (auto simp: lapse_def)

text \<open>
  A call on a queue, by any worker, or the passing of time. Nothing is assumed about the
  order in which several workers call.
\<close>

datatype qop =
    QEnqueue Task
  | QPoll string duration
  | QRenew string string duration
  | QAck string string
  | QNack string string time int
  | QTick nat

definition qexec :: "'q Queue \<Rightarrow> qop \<Rightarrow> time \<times> 'q \<Rightarrow> Task option \<times> time \<times> 'q" where
  "qexec Q op s =
     (let (now, q) = s in
      case op of
        QEnqueue t \<Rightarrow> (None, now, snd (q_Enqueue Q now None t q))
      | QPoll owner ttl \<Rightarrow>
          (case q_DequeuePoll Q now owner ttl q of
             (Inr (Some t), q') \<Rightarrow> (Some t, now, q')
           | (_, q') \<Rightarrow> (None, now, q'))
      | QRenew i owner ttl \<Rightarrow> (None, now, snd (q_RenewLease Q now i owner ttl q))
      | QAck i owner \<Rightarrow> (None, now, snd (q_Ack Q None i owner q))
      | QNack i owner nb n \<Rightarrow> (None, now, snd (q_Nack Q None i owner nb n q))
      | QTick d \<Rightarrow> (None, now + int d, q))"

text \<open>A history: the deliveries made, in order, and the final state.\<close>

fun qrun :: "'q Queue \<Rightarrow> qop list \<Rightarrow> time \<times> 'q \<Rightarrow> (string \<times> Task) list \<times> time \<times> 'q" where
  "qrun Q [] s = ([], s)"
| "qrun Q (op # ops) s =
     (let (r, s') = qexec Q op s;
          (ds, s'') = qrun Q ops s'
      in (case (op, r) of (QPoll owner ttl, Some t) \<Rightarrow> (owner, t) # ds | _ \<Rightarrow> ds, s''))"

text \<open>
  An identifier as the queues print them: reading it as a number, as the database queues do,
  and printing the number gives it back (unlike \<^verbatim>\<open>"007"\<close>).
\<close>

definition canonical_id :: "string \<Rightarrow> bool" where
  "canonical_id i = (case ParseInt i of None \<Rightarrow> True | Some k \<Rightarrow> FormatInt k = i)"

lemma canonical_FormatInt [simp]: "canonical_id (FormatInt k)"
  by (simp add: canonical_id_def ParseInt_FormatInt_eq)

text \<open>
  The arguments of a call in a state of the queue. \<open>fresh q t\<close> says that the identifier under which \<open>t\<close> would be
  stored is not in use: \<^verbatim>\<open>Enqueue\<close> keeps an identifier the caller has set, and some back ends do not check
  it. The other conditions are those of the worker's calls: it has a name, leases last some time, and
  the times can be represented.
\<close>

fun qop_ok :: "('q \<Rightarrow> Task \<Rightarrow> bool) \<Rightarrow> (string \<Rightarrow> bool) \<Rightarrow> (time \<Rightarrow> bool) \<Rightarrow> time \<times> 'q \<Rightarrow> qop \<Rightarrow> bool" where
  "qop_ok fresh ident valid s (QEnqueue t) \<longleftrightarrow> fresh (snd s) t \<and> (IsZero (task_NotBefore t) \<or> valid (task_NotBefore t))"
| "qop_ok fresh ident valid s (QPoll owner ttl) \<longleftrightarrow> owner \<noteq> '''' \<and> 0 < ttl \<and> valid (fst s + ttl)"
| "qop_ok fresh ident valid s (QRenew i owner ttl) \<longleftrightarrow> ident i \<and> owner \<noteq> '''' \<and> 0 < ttl \<and> valid (fst s + ttl)"
| "qop_ok fresh ident valid s (QAck i owner) \<longleftrightarrow> ident i \<and> owner \<noteq> ''''"
| "qop_ok fresh ident valid s (QNack i owner nb n) \<longleftrightarrow> ident i \<and> owner \<noteq> '''' \<and> valid nb"
| "qop_ok fresh ident valid s (QTick d) \<longleftrightarrow> valid (fst s + int d)"

fun qops_ok :: "'q Queue \<Rightarrow> ('q \<Rightarrow> Task \<Rightarrow> bool) \<Rightarrow> (string \<Rightarrow> bool) \<Rightarrow> (time \<Rightarrow> bool) \<Rightarrow> time \<times> 'q \<Rightarrow> qop list \<Rightarrow> bool" where
  "qops_ok Q fresh ident valid s [] = True"
| "qops_ok Q fresh ident valid s (op # ops) =
     (qop_ok fresh ident valid s op \<and> qops_ok Q fresh ident valid (snd (qexec Q op s)) ops)"

text \<open>A call by \<open>owner\<close> on the task \<open>i\<close> it holds.\<close>

fun touches :: "string \<Rightarrow> string \<Rightarrow> qop \<Rightarrow> bool" where
  "touches owner i (QRenew j w ttl) \<longleftrightarrow> j = i \<and> w = owner"
| "touches owner i (QAck j w) \<longleftrightarrow> j = i \<and> w = owner"
| "touches owner i (QNack j w nb n) \<longleftrightarrow> j = i \<and> w = owner"
| "touches owner i _ \<longleftrightarrow> False"

fun polls :: "string \<Rightarrow> qop \<Rightarrow> bool" where
  "polls owner (QPoll w ttl) \<longleftrightarrow> w = owner"
| "polls owner _ \<longleftrightarrow> False"

fun acks :: "string \<Rightarrow> qop \<Rightarrow> bool" where
  "acks i (QAck j w) \<longleftrightarrow> j = i"
| "acks i _ \<longleftrightarrow> False"

lemma fst_snd_qexec:
  "fst (snd (qexec Q op (now, q))) = (case op of QTick d \<Rightarrow> now + int d | _ \<Rightarrow> now)"
  by (simp add: qexec_def split: qop.splits prod.splits sum.splits option.splits)

lemma qexec_time [simp]:
  "fst (snd (qexec Q (QEnqueue t) s)) = fst s" "fst (snd (qexec Q (QPoll w ttl) s)) = fst s"
  "fst (snd (qexec Q (QRenew i w ttl) s)) = fst s" "fst (snd (qexec Q (QAck i w) s)) = fst s"
  "fst (snd (qexec Q (QNack i w nb n) s)) = fst s" "fst (snd (qexec Q (QTick d) s)) = fst s + int d"
  using fst_snd_qexec [of Q _ "fst s" "snd s"] by simp_all

lemma qrun_time_mono: "fst s \<le> fst (snd (qrun Q ops s))"
proof (induction ops arbitrary: s)
  case (Cons op ops)
  obtain now q where s: "s = (now, q)" by (cases s)
  have "now \<le> fst (snd (qexec Q op s))"
    unfolding s fst_snd_qexec by (simp split: qop.splits)
  also have "\<dots> \<le> fst (snd (qrun Q ops (snd (qexec Q op s))))"
    by (rule Cons.IH)
  finally show ?case by (simp add: s case_prod_beta)
qed simp

section \<open>The contract\<close>

text \<open>
  What the queues with leases have in common. \<open>view\<close> is the table of stored tasks with their leases;
  \<open>inv now\<close> holds of the states reached by the time \<open>now\<close>; \<open>valid\<close> are the clock readings a back end can
  represent, \<open>sendable\<close> the payloads it hands out as they were given to it and \<open>ident\<close> the identifiers it
  can look up, and \<open>fresh q t\<close> says that \<open>t\<close> would be stored under a new identifier. The back ends differ in four points: \<open>seen t\<close> is the time \<open>t\<close> as the back end stores and
  compares it, \<open>lasts now ttl x\<close> says that a lease asked for at \<open>now\<close> for \<open>ttl\<close> may end at \<open>x\<close>, \<open>same t t'\<close>
  that a task may have become \<open>t'\<close> by calls of workers that do not hold it, and \<open>reclaims\<close> that a poll may
  hand a task out to the worker that holds it already.
\<close>

locale leased_queue =
  fixes Q :: "'q Queue"
    and view :: "'q \<Rightarrow> table"
    and inv :: "time \<Rightarrow> 'q \<Rightarrow> bool"
    and valid :: "time \<Rightarrow> bool"
    and sendable :: "anyv \<Rightarrow> bool"
    and ident :: "string \<Rightarrow> bool"
    and seen :: "time \<Rightarrow> time"
    and lasts :: "time \<Rightarrow> duration \<Rightarrow> time \<Rightarrow> bool"
    and same :: "Task \<Rightarrow> Task \<Rightarrow> bool"
    and reclaims :: bool
    and fresh :: "'q \<Rightarrow> Task \<Rightarrow> bool"
  assumes seen_mono: "valid now \<Longrightarrow> valid now' \<Longrightarrow> now \<le> now' \<Longrightarrow> seen now \<le> seen now'"
    and same_refl: "same t t"
    and same_trans: "same t t' \<Longrightarrow> same t' t'' \<Longrightarrow> same t t''"
    and inv_later: "inv now q \<Longrightarrow> valid now \<Longrightarrow> valid now' \<Longrightarrow> now \<le> now' \<Longrightarrow> inv now' q"
    and finite_entries: "inv now q \<Longrightarrow> finite (dom (view q))"
    and entry_ident: "inv now q \<Longrightarrow> view q i = Some e \<Longrightarrow> ident i"
    and enqueue_entry: "inv now q \<Longrightarrow> valid now \<Longrightarrow> fresh q t \<Longrightarrow>
      IsZero (task_NotBefore t) \<or> valid (task_NotBefore t) \<Longrightarrow>
      q_Enqueue Q now None t q = (r, q') \<Longrightarrow>
      inv now q' \<and> (if r = None then \<exists>i t'. view q i = None \<and> scheduled seen now t t' \<and>
                        (sendable (task_Payload t) \<longrightarrow> same_job t' t) \<and> view q' = (view q)(i \<mapsto> (t', Free))
                    else view q' = view q)"
    and poll_entry: "inv now q \<Longrightarrow> valid now \<Longrightarrow> valid (now + ttl) \<Longrightarrow> 0 < ttl \<Longrightarrow> owner \<noteq> '''' \<Longrightarrow>
      q_DequeuePoll Q now owner ttl q = (Inr (Some t), q') \<Longrightarrow>
      \<exists>t0 l x. view q (task_ID t) = Some (t0, l) \<and> (available (seen now) l \<or> reclaims \<and> (\<exists>y. l = Leased owner y)) \<and>
        runnable (seen now) t0 \<and> same_job t t0 \<and> lasts now ttl x \<and>
        view q' (task_ID t) = Some (t0, Leased owner x) \<and>
        (\<forall>i. i \<noteq> task_ID t \<longrightarrow> lapse (seen now) (view q i) (view q' i))"
    and poll_idle: "inv now q \<Longrightarrow> valid now \<Longrightarrow> valid (now + ttl) \<Longrightarrow> 0 < ttl \<Longrightarrow> owner \<noteq> '''' \<Longrightarrow>
      q_DequeuePoll Q now owner ttl q = (Inr None, q') \<Longrightarrow>
      (\<forall>i t l. view q i = Some (t, l) \<longrightarrow> available (seen now) l \<longrightarrow> \<not> runnable (seen now) t) \<and>
      (\<forall>i. lapse (seen now) (view q i) (view q' i))"
    and poll_returns: "inv now q \<Longrightarrow> valid now \<Longrightarrow> valid (now + ttl) \<Longrightarrow> 0 < ttl \<Longrightarrow> owner \<noteq> '''' \<Longrightarrow>
      q_DequeuePoll Q now owner ttl q = (pr, q') \<Longrightarrow> (\<exists>o'. pr = Inr o') \<and> inv now q'"
    and renew_entry: "inv now q \<Longrightarrow> valid now \<Longrightarrow> valid (now + ttl) \<Longrightarrow> 0 < ttl \<Longrightarrow> owner \<noteq> '''' \<Longrightarrow> ident i \<Longrightarrow>
      q_RenewLease Q now i owner ttl q = (r, q') \<Longrightarrow>
      inv now q' \<and> (if leased_by (view q) i owner
        then \<exists>x. lasts now ttl x \<and> view q' = (view q)(i \<mapsto> (fst (the (view q i)), Leased owner x)) else view q' = view q)"
    and ack_entry: "inv now q \<Longrightarrow> owner \<noteq> '''' \<Longrightarrow> ident i \<Longrightarrow> q_Ack Q None i owner q = (r, q') \<Longrightarrow>
      inv now q' \<and> (leased_by (view q) i owner \<longrightarrow> r = None) \<and>
      view q' = (if leased_by (view q) i owner then (view q)(i := None) else view q)"
    and nack_entry: "inv now q \<Longrightarrow> owner \<noteq> '''' \<Longrightarrow> ident i \<Longrightarrow> valid nb \<Longrightarrow> q_Nack Q None i owner nb n q = (r, q') \<Longrightarrow>
      inv now q' \<and> (leased_by (view q) i owner \<longrightarrow> r = None) \<and> (if leased_by (view q) i owner
        then view q' = (view q)(i \<mapsto> ((fst (the (view q i)))\<lparr>task_NotBefore := seen nb, task_Attempts := n\<rparr>, Free))
        else \<forall>j. rel_option (rel_prod same (=)) (view q j) (view q' j))"
begin

lemma qexec_inv:
  assumes "inv now q" "valid now" "qop_ok fresh ident valid (now, q) op" "qexec Q op (now, q) = (r, now', q')"
  shows "inv now' q' \<and> valid now'"
  using assms
proof (cases op)
  case (QPoll owner ttl)
  then show ?thesis
    using assms poll_returns [of now q ttl owner]
    by (auto simp: qexec_def split: prod.splits sum.splits option.splits)
next
  case (QEnqueue t)
  then show ?thesis
    using assms enqueue_entry [of now q t] by (cases "q_Enqueue Q now None t q") (auto simp: qexec_def)
next
  case (QRenew i owner ttl)
  then show ?thesis
    using assms renew_entry [of now q ttl owner i]
    by (cases "q_RenewLease Q now i owner ttl q") (auto simp: qexec_def)
next
  case (QAck i owner)
  then show ?thesis
    using assms ack_entry [of now q owner i] by (cases "q_Ack Q None i owner q") (auto simp: qexec_def)
next
  case (QNack i owner nb n)
  then show ?thesis
    using assms nack_entry [of now q owner i nb n]
    by (cases "q_Nack Q None i owner nb n q") (auto simp: qexec_def)
next
  case (QTick d)
  then show ?thesis using assms inv_later [of now q "now + int d"] by (auto simp: qexec_def)
qed

text \<open>The time an operation ends, and that a history ends at a valid time in a good state.\<close>

lemma qrun_Cons:
  assumes "inv now q" "valid now" "qops_ok Q fresh ident valid (now, q) (op # ops)" "qrun Q (op # ops) (now, q) = (ds, now', q')"
  obtains r now1 q1 ds1 where "qexec Q op (now, q) = (r, now1, q1)" "qrun Q ops (now1, q1) = (ds1, now', q')"
    "inv now1 q1" "valid now1" "qop_ok fresh ident valid (now, q) op" "qops_ok Q fresh ident valid (now1, q1) ops" "now1 \<le> now'"
    "ds = (case (op, r) of (QPoll owner ttl, Some t) \<Rightarrow> (owner, t) # ds1 | _ \<Rightarrow> ds1)"
proof -
  obtain r now1 q1 where e: "qexec Q op (now, q) = (r, now1, q1)" by (metis prod_cases3)
  obtain ds1 where r: "qrun Q ops (now1, q1) = (ds1, now', q')"
    using assms(4) e by (auto split: prod.splits)
  have now1: "now1 = (case op of QTick d \<Rightarrow> now + int d | _ \<Rightarrow> now)"
    using fst_snd_qexec [of Q op now q] e by simp
  have "now1 \<le> now'" using qrun_time_mono [of "(now1, q1)" Q ops] r by simp
  with that [OF e r] qexec_inv [OF assms(1,2) _ e] assms(3,4) now1 e r show thesis by simp
qed

lemma qrun_inv:
  "inv now q \<Longrightarrow> valid now \<Longrightarrow> qops_ok Q fresh ident valid (now, q) ops \<Longrightarrow> qrun Q ops (now, q) = (ds, now', q') \<Longrightarrow>
    inv now' q' \<and> valid now'"
proof (induction ops arbitrary: now q ds)
  case (Cons op ops)
  obtain r now1 q1 ds1 where "qrun Q ops (now1, q1) = (ds1, now', q')" "inv now1 q1" "valid now1"
    "qops_ok Q fresh ident valid (now1, q1) ops"
    using qrun_Cons [OF Cons.prems] by metis
  then show ?case using Cons.IH by blast
qed simp

text \<open>While a lease runs, only its owner can change or end it.\<close>

lemma poll_held:
  assumes "inv now q" "valid now" "valid (now + ttl)" "0 < ttl" "w \<noteq> ''''"
    and poll: "q_DequeuePoll Q now w ttl q = (Inr m, q')"
    and held: "view q i = Some (t, Leased owner x)" "seen now < x" and own: "\<not> (reclaims \<and> w = owner)"
  shows "view q' i = Some (t, Leased owner x) \<and> (\<forall>u. m = Some u \<longrightarrow> task_ID u \<noteq> i)"
proof (cases m)
  case None
  with poll_idle [OF assms(1-5)] poll have "lapse (seen now) (view q i) (view q' i)" by simp
  then show ?thesis using lapse_held [of "seen now" t owner x] held None by simp
next
  case (Some u)
  with poll_entry [OF assms(1-5)] poll obtain t0 l where
    u: "view q (task_ID u) = Some (t0, l)" "available (seen now) l \<or> reclaims \<and> (\<exists>y. l = Leased w y)"
    and others: "\<forall>j. j \<noteq> task_ID u \<longrightarrow> lapse (seen now) (view q j) (view q' j)" by auto
  from u held own have ne: "task_ID u \<noteq> i" by auto
  with others have "lapse (seen now) (view q i) (view q' i)" by simp
  then show ?thesis using lapse_held [of "seen now" t owner x] held Some ne by simp
qed

lemma qexec_held:
  assumes "inv now q" "valid now" "qop_ok fresh ident valid (now, q) op" and q': "qexec Q op (now, q) = (r, now', q')"
    and held: "view q i = Some (t, Leased owner x)" and "seen now' < x" and "\<not> touches owner i op" "\<not> (reclaims \<and> polls owner op)"
  shows "\<exists>t'. same t t' \<and> view q' i = Some (t', Leased owner x) \<and> (\<forall>u. r = Some u \<longrightarrow> task_ID u \<noteq> i)"
proof (cases op)
  case (QPoll w ttl)
  with q' have now': "now' = now" by (auto simp: qexec_def split: prod.splits sum.splits option.splits)
  obtain o' q1 where poll: "q_DequeuePoll Q now w ttl q = (o', q1)" by fastforce
  with assms QPoll poll_returns [of now q ttl w o' q1] obtain m where m: "o' = Inr m" by auto
  have "view q1 i = Some (t, Leased owner x) \<and> (\<forall>u. m = Some u \<longrightarrow> task_ID u \<noteq> i)"
    using poll_held [of now q ttl w m q1 i t owner x] assms QPoll poll m now' by simp
  with QPoll poll m q' same_refl show ?thesis by (cases m) (auto simp: qexec_def)
next
  case (QEnqueue u)
  then show ?thesis
    using assms enqueue_entry [of now q u] same_refl
    by (cases "q_Enqueue Q now None u q") (auto simp: qexec_def split: if_splits)
next
  case (QRenew j w ttl)
  then show ?thesis
    using assms renew_entry [of now q ttl w j] same_refl
    by (cases "q_RenewLease Q now j w ttl q") (auto simp: qexec_def leased_by_def split: if_splits)
next
  case (QAck j w)
  then show ?thesis
    using assms ack_entry [of now q w j] same_refl
    by (cases "q_Ack Q None j w q") (auto simp: qexec_def leased_by_def split: if_splits)
next
  case (QNack j w nb n)
  show ?thesis
  proof (cases "leased_by (view q) j w")
    case True
    then show ?thesis
      using QNack assms nack_entry [of now q w j nb n] same_refl
      by (cases "q_Nack Q None j w nb n q") (auto simp: qexec_def leased_by_def)
  next
    case False
    obtain e q1 where n: "q_Nack Q None j w nb n q = (e, q1)" by (cases "q_Nack Q None j w nb n q")
    with q' QNack have "q' = q1" "r = None" by (simp_all add: qexec_def)
    with False nack_entry [OF assms(1) _ _ _ n] QNack assms(3)
    have "rel_option (rel_prod same (=)) (view q i) (view q' i)" "r = None" by simp_all
    with held show ?thesis by (auto simp: option_rel_Some1 rel_prod_sel)
  qed
qed (use assms same_refl in \<open>auto simp: qexec_def\<close>)

lemma lease_excludes_others:
  assumes "inv now q" "valid now" "qops_ok Q fresh ident valid (now, q) ops"
    and "view q i = Some (t, Leased owner x)" and "qrun Q ops (now, q) = (ds, now', q')"
    and "seen now' < x" and "\<forall>op \<in> set ops. \<not> touches owner i op \<and> \<not> (reclaims \<and> polls owner op)"
  shows "\<exists>t'. same t t' \<and> view q' i = Some (t', Leased owner x) \<and> (\<forall>(w, u) \<in> set ds. task_ID u \<noteq> i)"
  using assms
proof (induction ops arbitrary: now q t ds)
  case Nil
  then show ?case using same_refl by auto
next
  case (Cons op ops)
  obtain r now1 q1 ds1 where s: "qexec Q op (now, q) = (r, now1, q1)" "qrun Q ops (now1, q1) = (ds1, now', q')"
    "inv now1 q1" "valid now1" "qop_ok fresh ident valid (now, q) op" "qops_ok Q fresh ident valid (now1, q1) ops" "now1 \<le> now'"
    "ds = (case (op, r) of (QPoll owner ttl, Some t) \<Rightarrow> (owner, t) # ds1 | _ \<Rightarrow> ds1)"
    by (rule qrun_Cons [OF Cons.prems(1-3,5)])
  have "valid now'" using qrun_inv [OF s(3,4,6,2)] by simp
  with seen_mono [OF s(4) _ s(7)] Cons.prems(6) have "seen now1 < x" by simp
  with qexec_held [OF Cons.prems(1,2) s(5,1) Cons.prems(4)] Cons.prems(7) obtain t1 where t1: "same t t1"
    "view q1 i = Some (t1, Leased owner x)" "\<forall>u. r = Some u \<longrightarrow> task_ID u \<noteq> i" by auto
  with Cons.IH [OF s(3,4,6) t1(2) s(2) Cons.prems(6)] Cons.prems(7) obtain t' where t': "same t1 t'"
    "view q' i = Some (t', Leased owner x)" "\<forall>(w, u) \<in> set ds1. task_ID u \<noteq> i" by auto
  from same_trans [OF t1(1) t'(1)] t'(2,3) t1(3) s(8) show ?case by (auto split: qop.splits option.splits)
qed

lemma qexec_keeps:
  assumes "inv now q" "valid now" "qop_ok fresh ident valid (now, q) op" and q': "qexec Q op (now, q) = (r, now', q')"
    and "i \<in> dom (view q)" and "\<not> acks i op"
  shows "i \<in> dom (view q')"
proof (cases op)
  case (QPoll w ttl)
  obtain o' q1 where poll: "q_DequeuePoll Q now w ttl q = (o', q1)" by fastforce
  with assms QPoll poll_returns [of now q ttl w o' q1] obtain m where m: "o' = Inr m" by auto
  have q1: "q' = q1" using q' QPoll poll m by (auto simp: qexec_def split: option.splits)
  show ?thesis
  proof (cases m)
    case None
    with poll m QPoll assms q1 show ?thesis
      using poll_idle [of now q ttl w q1] by (metis domIff lapse_None(1) qop_ok.simps(2) fst_conv)
  next
    case (Some u)
    with poll m QPoll assms have "i \<noteq> task_ID u \<Longrightarrow> lapse (seen now) (view q i) (view q1 i)"
      and "view q1 (task_ID u) \<noteq> None"
      using poll_entry [of now q ttl w u q1] by auto
    with q1 \<open>i \<in> dom (view q)\<close> show ?thesis
      by (metis domIff lapse_None(1))
  qed
next
  case (QEnqueue u)
  then show ?thesis
    using assms enqueue_entry [of now q u]
    by (cases "q_Enqueue Q now None u q") (auto simp: qexec_def split: if_splits)
next
  case (QRenew j w ttl)
  then show ?thesis
    using assms renew_entry [of now q ttl w j]
    by (cases "q_RenewLease Q now j w ttl q") (auto simp: qexec_def split: if_splits)
next
  case (QAck j w)
  then show ?thesis
    using assms ack_entry [of now q w j]
    by (cases "q_Ack Q None j w q") (auto simp: qexec_def split: if_splits)
next
  case (QNack j w nb n)
  then show ?thesis
    using assms nack_entry [of now q w j nb n]
    by (cases "q_Nack Q None j w nb n q")
      (auto simp: qexec_def option_rel_Some1 split: if_splits dest!: spec [of _ i])
qed (use assms in \<open>auto simp: qexec_def\<close>)

lemma unacked_stays:
  assumes "inv now q" "valid now" "qops_ok Q fresh ident valid (now, q) ops" "i \<in> dom (view q)"
    and "qrun Q ops (now, q) = (ds, now', q')" and "\<forall>op \<in> set ops. \<not> acks i op"
  shows "i \<in> dom (view q')"
  using assms
proof (induction ops arbitrary: now q ds)
  case (Cons op ops)
  obtain r now1 q1 ds1 where s: "qexec Q op (now, q) = (r, now1, q1)" "qrun Q ops (now1, q1) = (ds1, now', q')"
    "inv now1 q1" "valid now1" "qop_ok fresh ident valid (now, q) op" "qops_ok Q fresh ident valid (now1, q1) ops"
    by (rule qrun_Cons [OF Cons.prems(1-3,5)])
  with qexec_keeps [OF Cons.prems(1,2) s(5,1) Cons.prems(4)] Cons.IH [OF s(3,4,6) _ s(2)] Cons.prems(6)
  show ?case by simp
qed simp

text \<open>
  Delivery: a claim takes one claimable task and creates none, so as many polls as there
  are claimable tasks deliver each of them, provided that a lease does not end as soon as it is given.
\<close>

lemma finite_claimable: "inv now q \<Longrightarrow> finite (claimable t (view q))"
  by (rule finite_subset [OF _ finite_entries]) (auto simp: claimable_def)

lemma poll_claims:
  assumes "inv now q" "valid now" "valid (now + ttl)" "0 < ttl" "owner \<noteq> ''''"
    and poll: "q_DequeuePoll Q now owner ttl q = (Inr (Some t), q')"
    and "\<not> reclaims" "\<And>x. lasts now ttl x \<Longrightarrow> seen now < x"
  shows "task_ID t \<in> claimable (seen now) (view q)"
    "claimable (seen now) (view q') = claimable (seen now) (view q) - {task_ID t}"
proof -
  from poll_entry [OF assms(1-6)] assms(7,8) obtain t0 l x where t: "view q (task_ID t) = Some (t0, l)"
    "available (seen now) l" "runnable (seen now) t0" "view q' (task_ID t) = Some (t0, Leased owner x)" "seen now < x"
    and others: "\<forall>i. i \<noteq> task_ID t \<longrightarrow> lapse (seen now) (view q i) (view q' i)" by blast
  show "task_ID t \<in> claimable (seen now) (view q)" using t by (auto simp: claimable_def)
  have eq: "i \<in> claimable (seen now) (view q') \<longleftrightarrow> i \<in> claimable (seen now) (view q)" if "i \<noteq> task_ID t" for i
  proof -
    from others that have "lapse (seen now) (view q i) (view q' i)" by simp
    then show ?thesis
      by (cases "view q' i = view q i") (auto simp: claimable_def lapse_def)
  qed
  have out: "task_ID t \<notin> claimable (seen now) (view q')" using t by (auto simp: claimable_def)
  show "claimable (seen now) (view q') = claimable (seen now) (view q) - {task_ID t}"
  proof (rule set_eqI)
    fix i
    show "i \<in> claimable (seen now) (view q') \<longleftrightarrow> i \<in> claimable (seen now) (view q) - {task_ID t}"
      using out eq [of i] by (cases "i = task_ID t") simp_all
  qed
qed

lemma polls_deliver:
  assumes "inv now q" "valid now" "valid (now + ttl)" "0 < ttl" "owner \<noteq> ''''"
    and "\<not> reclaims" "\<And>x. lasts now ttl x \<Longrightarrow> seen now < x"
    and "i \<in> claimable (seen now) (view q)" and "card (claimable (seen now) (view q)) \<le> n"
    and "qrun Q (replicate n (QPoll owner ttl)) (now, q) = (ds, s)"
  shows "\<exists>t. (owner, t) \<in> set ds \<and> task_ID t = i"
  using assms
proof (induction n arbitrary: q ds)
  case 0
  then show ?case using finite_claimable [of now q "seen now"] by auto
next
  case (Suc n)
  obtain o' q1 where poll: "q_DequeuePoll Q now owner ttl q = (o', q1)" by fastforce
  with poll_returns [OF Suc.prems(1-5)] obtain m where m: "o' = Inr m" and inv1: "inv now q1" by auto
  with Suc.prems(8) poll poll_idle [OF Suc.prems(1-5)] obtain t where t: "m = Some t"
    by (cases m) (auto simp: claimable_def)
  have e: "qexec Q (QPoll owner ttl) (now, q) = (Some t, now, q1)"
    using poll m t by (simp add: qexec_def)
  obtain ds1 where r: "qrun Q (replicate n (QPoll owner ttl)) (now, q1) = (ds1, s)"
    and ds: "ds = (owner, t) # ds1"
    using Suc.prems(10) e by (auto split: prod.splits)
  have c: "task_ID t \<in> claimable (seen now) (view q)"
    "claimable (seen now) (view q1) = claimable (seen now) (view q) - {task_ID t}"
    using poll_claims [OF Suc.prems(1-5) _ Suc.prems(6,7)] poll m t by auto
  show ?case
  proof (cases "i = task_ID t")
    case True
    with ds show ?thesis by auto
  next
    case False
    with c Suc.prems(8,9) finite_claimable [OF Suc.prems(1), of "seen now"]
    have "i \<in> claimable (seen now) (view q1)" "card (claimable (seen now) (view q1)) \<le> n" by auto
    with Suc.IH [OF inv1 Suc.prems(2-7) _ _ r] ds show ?thesis by auto
  qed
qed

end

text \<open>
  The queues with exact times, whose tasks only their holders change: the contract in the terms the
  worker uses.
\<close>

locale exact_queue = leased_queue Q view "\<lambda>_. inv" valid sendable ident "\<lambda>t. t" "\<lambda>now ttl x. x = now + ttl" "(=)" reclaims fresh
  for Q :: "'q Queue" and view inv valid sendable ident reclaims fresh
begin

lemma view_ident: "inv q \<Longrightarrow> view q i = Some e \<Longrightarrow> ident i"
  by (rule entry_ident)

lemma enqueue_law: "inv q \<Longrightarrow> valid now \<Longrightarrow> fresh q t \<Longrightarrow>
    IsZero (task_NotBefore t) \<or> valid (task_NotBefore t) \<Longrightarrow> q_Enqueue Q now None t q = (r, q') \<Longrightarrow>
    inv q' \<and> (if r = None then \<exists>i t'. view q i = None \<and> scheduled (\<lambda>t. t) now t t' \<and>
        (sendable (task_Payload t) \<longrightarrow> same_job t' t) \<and> view q' = (view q)(i \<mapsto> (t', Free)) else view q' = view q)"
  by (rule enqueue_entry)

lemma renew_law: "inv q \<Longrightarrow> valid now \<Longrightarrow> valid (now + ttl) \<Longrightarrow> 0 < ttl \<Longrightarrow> owner \<noteq> '''' \<Longrightarrow> ident i \<Longrightarrow>
    q_RenewLease Q now i owner ttl q = (r, q') \<Longrightarrow>
    inv q' \<and> view q' = (if leased_by (view q) i owner
      then (view q)(i \<mapsto> (fst (the (view q i)), Leased owner (now + ttl))) else view q)"
  using renew_entry [of q now ttl owner i r q'] by auto

lemma ack_law: "inv q \<Longrightarrow> owner \<noteq> '''' \<Longrightarrow> ident i \<Longrightarrow> q_Ack Q None i owner q = (r, q') \<Longrightarrow>
    inv q' \<and> (leased_by (view q) i owner \<longrightarrow> r = None) \<and>
    view q' = (if leased_by (view q) i owner then (view q)(i := None) else view q)"
  by (rule ack_entry)

lemma nack_law: "inv q \<Longrightarrow> owner \<noteq> '''' \<Longrightarrow> ident i \<Longrightarrow> valid nb \<Longrightarrow> q_Nack Q None i owner nb n q = (r, q') \<Longrightarrow>
    inv q' \<and> (leased_by (view q) i owner \<longrightarrow> r = None) \<and> view q' = (if leased_by (view q) i owner
      then (view q)(i \<mapsto> ((fst (the (view q i)))\<lparr>task_NotBefore := nb, task_Attempts := n\<rparr>, Free)) else view q)"
  using nack_entry [of q owner i nb n r q'] by (auto simp: prod.rel_eq option.rel_eq)

end

text \<open>The queues that never hand a leased task out.\<close>

locale task_queue = exact_queue Q view inv valid sendable ident False fresh
  for Q :: "'q Queue" and view inv valid sendable ident fresh
begin

lemma held_lease_excludes:
  assumes "inv q" "valid now" "qops_ok Q fresh ident valid (now, q) ops"
    and "view q i = Some (t, Leased owner x)" and "qrun Q ops (now, q) = (ds, now', q')"
    and "now' < x" and "\<forall>op \<in> set ops. \<not> touches owner i op"
  shows "view q' i = Some (t, Leased owner x) \<and> (\<forall>(w, t') \<in> set ds. task_ID t' \<noteq> i)"
  using lease_excludes_others [OF assms(1-6)] assms(7) by auto

lemma delivered_within:
  assumes "inv q" "valid now" "valid (now + ttl)" "0 < ttl" "owner \<noteq> ''''"
    and "i \<in> claimable now (view q)" and "card (claimable now (view q)) \<le> n"
    and "qrun Q (replicate n (QPoll owner ttl)) (now, q) = (ds, s)"
  shows "\<exists>t. (owner, t) \<in> set ds \<and> task_ID t = i"
  using polls_deliver [OF assms(1-5) _ _ assms(6-8)] assms(4) by auto

end

end
