(* ===== verification/Instance_Store.thy ===== *)
theory Instance_Store
  imports Task_Queue
begin

text \<open>
  The \<^verbatim>\<open>InstanceStore\<close> interface of \<^verbatim>\<open>internal/persistence/store.go\<close> as a record of
  operations over an explicit heap of \<^verbatim>\<open>*api.WorkflowInstance\<close> objects (the in-memory store
  shares its objects with the engine, the database stores build a new object on every read),
  histories of lease calls by competing engines, and the contracts \<open>lease_store\<close> and
  \<open>lease_keeping_store\<close>.
\<close>

section \<open>The heap of instance objects\<close>

type_synonym addr = nat
type_synonym heap = "WorkflowInstance list"

definition deref :: "heap \<Rightarrow> addr \<Rightarrow> WorkflowInstance" where
  "deref h a = h ! a"

definition assign :: "addr \<Rightarrow> (WorkflowInstance \<Rightarrow> WorkflowInstance) \<Rightarrow> heap \<Rightarrow> heap" where
  "assign a f h = h[a := f (h ! a)]"

definition alloc :: "WorkflowInstance \<Rightarrow> heap \<Rightarrow> addr \<times> heap" where
  "alloc v h = (length h, h @ [v])"

lemma length_assign [simp]: "length (assign a f h) = length h"
  by (simp add: assign_def)

lemma deref_assign_same [simp]: "a < length h \<Longrightarrow> deref (assign a f h) a = f (deref h a)"
  by (simp add: deref_def assign_def)

lemma deref_assign_other [simp]: "b \<noteq> a \<Longrightarrow> deref (assign a f h) b = deref h b"
  by (simp add: deref_def assign_def)

lemma deref_assign: "a < length h \<Longrightarrow> deref (assign a f h) b = (if b = a then f (deref h a) else deref h b)"
  by simp

lemma deref_append [simp]: "a < length h \<Longrightarrow> deref (h @ g) a = deref h a"
  by (simp add: deref_def nth_append)

lemma deref_append_new [simp]: "deref (h @ [v]) (length h) = v"
  by (simp add: deref_def)

lemma assign_assign: "assign a f (assign a g h) = assign a (f \<circ> g) h"
  by (cases "a < length h") (simp_all add: assign_def list_update_beyond)

section \<open>The interface\<close>

record 's InstanceStore =
  is_SaveInstance :: "addr \<Rightarrow> heap \<Rightarrow> 's \<Rightarrow> goerr option \<times> 's"
  is_UpdateInstance :: "addr \<Rightarrow> heap \<Rightarrow> 's \<Rightarrow> goerr option \<times> 's"
  is_GetInstance :: "string \<Rightarrow> heap \<Rightarrow> 's \<Rightarrow> (goerr + addr) \<times> heap"
  is_ListInstances :: "InstanceFilter \<Rightarrow> heap \<Rightarrow> 's \<Rightarrow> (goerr + addr list) \<times> heap"
  is_TryAcquireLease :: "time \<Rightarrow> goerr option \<Rightarrow> string \<Rightarrow> string \<Rightarrow> duration \<Rightarrow> heap \<times> 's
     \<Rightarrow> (goerr + bool) \<times> heap \<times> 's"
  is_RenewLease :: "time \<Rightarrow> goerr option \<Rightarrow> string \<Rightarrow> string \<Rightarrow> duration \<Rightarrow> heap \<times> 's
     \<Rightarrow> goerr option \<times> heap \<times> 's"
  is_ReleaseLease :: "time \<Rightarrow> goerr option \<Rightarrow> string \<Rightarrow> string \<Rightarrow> heap \<times> 's \<Rightarrow> goerr option \<times> heap \<times> 's"

definition matches_filter :: "InstanceFilter \<Rightarrow> WorkflowInstance \<Rightarrow> bool" where
  "matches_filter f inst \<longleftrightarrow>
     \<not> (filter_WorkflowName f \<noteq> '''' \<and> inst_Name inst \<noteq> filter_WorkflowName f) \<and>
     (case filter_Status f of None \<Rightarrow> True | Some s \<Rightarrow> inst_Status inst = s)"

section \<open>Histories of lease calls\<close>

datatype lop =
    LAcquire string string duration
  | LRenew string string duration
  | LRelease string string
  | LTick nat

definition lexec :: "'s InstanceStore \<Rightarrow> lop \<Rightarrow> time \<times> heap \<times> 's \<Rightarrow> bool \<times> time \<times> heap \<times> 's" where
  "lexec S op st =
     (let (now, hs) = st in
      case op of
        LAcquire i owner ttl \<Rightarrow>
          (let (r, hs') = is_TryAcquireLease S now None i owner ttl hs in (r = Inr True, now, hs'))
      | LRenew i owner ttl \<Rightarrow>
          (let (r, hs') = is_RenewLease S now None i owner ttl hs in (r = None, now, hs'))
      | LRelease i owner \<Rightarrow>
          (let (r, hs') = is_ReleaseLease S now None i owner hs in (r = None, now, hs'))
      | LTick d \<Rightarrow> (True, now + int d, hs))"

text \<open>The acquisitions a history grants, as (instance, engine) pairs, and its final state.\<close>

fun lrun :: "'s InstanceStore \<Rightarrow> lop list \<Rightarrow> time \<times> heap \<times> 's \<Rightarrow> (string \<times> string) list \<times> time \<times> heap \<times> 's" where
  "lrun S [] st = ([], st)"
| "lrun S (op # ops) st =
     (let (ok, st') = lexec S op st;
          (gs, st'') = lrun S ops st'
      in (case op of LAcquire i owner ttl \<Rightarrow> if ok then (i, owner) # gs else gs | _ \<Rightarrow> gs, st''))"

fun lop_ok :: "(duration \<Rightarrow> bool) \<Rightarrow> (time \<Rightarrow> bool) \<Rightarrow> time \<Rightarrow> lop \<Rightarrow> bool" where
  "lop_ok spans valid now (LAcquire i owner ttl) \<longleftrightarrow> owner \<noteq> '''' \<and> spans ttl \<and> valid (now + ttl)"
| "lop_ok spans valid now (LRenew i owner ttl) \<longleftrightarrow> owner \<noteq> '''' \<and> spans ttl \<and> valid (now + ttl)"
| "lop_ok spans valid now (LRelease i owner) \<longleftrightarrow> owner \<noteq> ''''"
| "lop_ok spans valid now (LTick d) \<longleftrightarrow> valid (now + int d)"

fun lops_ok :: "(duration \<Rightarrow> bool) \<Rightarrow> (time \<Rightarrow> bool) \<Rightarrow> time \<Rightarrow> lop list \<Rightarrow> bool" where
  "lops_ok spans valid now [] = True"
| "lops_ok spans valid now (op # ops) =
     (lop_ok spans valid now op \<and> lops_ok spans valid (case op of LTick d \<Rightarrow> now + int d | _ \<Rightarrow> now) ops)"

fun lop_by :: "string \<Rightarrow> string \<Rightarrow> lop \<Rightarrow> bool" where
  "lop_by owner i (LAcquire j w ttl) \<longleftrightarrow> j = i \<and> w = owner"
| "lop_by owner i (LRenew j w ttl) \<longleftrightarrow> j = i \<and> w = owner"
| "lop_by owner i (LRelease j w) \<longleftrightarrow> j = i \<and> w = owner"
| "lop_by owner i (LTick d) \<longleftrightarrow> False"

lemma fst_snd_lexec:
  "fst (snd (lexec S op (now, hs))) = (case op of LTick d \<Rightarrow> now + int d | _ \<Rightarrow> now)"
  by (simp add: lexec_def split: lop.splits prod.splits)

lemma lrun_time_mono: "fst st \<le> fst (snd (lrun S ops st))"
proof (induction ops arbitrary: st)
  case (Cons op ops)
  obtain now hs where st: "st = (now, hs)" by (cases st)
  have "now \<le> fst (snd (lexec S op st))"
    unfolding st fst_snd_lexec by (simp split: lop.splits)
  also have "\<dots> \<le> fst (snd (lrun S ops (snd (lexec S op st))))"
    by (rule Cons.IH)
  finally show ?case by (simp add: st case_prod_beta)
qed simp

section \<open>The lease contract\<close>

text \<open>
  \<open>lv st i\<close> is the lease state of instance \<open>i\<close> (\<open>None\<close>: no such instance). The instance
  lease of the stores is re-entrant: its owner may acquire it again.
\<close>

text \<open>
  What the stores have in common: \<open>spans\<close> are the durations a store can count, and \<open>lasts now ttl x\<close> says
  that a lease asked for at \<open>now\<close> for \<open>ttl\<close> may end at \<open>x\<close>. A lease that has run out may still be renewed
  or released by its owner, or be forgotten.
\<close>

locale instance_leases =
  fixes S :: "'s InstanceStore"
    and lv :: "heap \<times> 's \<Rightarrow> string \<Rightarrow> lease option"
    and inv :: "heap \<times> 's \<Rightarrow> bool"
    and valid :: "time \<Rightarrow> bool"
    and spans :: "duration \<Rightarrow> bool"
    and lasts :: "time \<Rightarrow> duration \<Rightarrow> time \<Rightarrow> bool"
  assumes acquire_grants: "inv hs \<Longrightarrow> valid now \<Longrightarrow> valid (now + ttl) \<Longrightarrow> spans ttl \<Longrightarrow> owner \<noteq> '''' \<Longrightarrow>
      is_TryAcquireLease S now None i owner ttl hs = (r, hs') \<Longrightarrow>
      inv hs' \<and>
      (if \<exists>l. lv hs i = Some l \<and> (available now l \<or> (\<exists>x. l = Leased owner x))
       then r = Inr True \<and> (\<exists>x. lasts now ttl x \<and> lv hs' = (lv hs)(i \<mapsto> Leased owner x))
       else r \<noteq> Inr True \<and> lv hs' = lv hs)"
    and renew_extends: "inv hs \<Longrightarrow> valid now \<Longrightarrow> valid (now + ttl) \<Longrightarrow> spans ttl \<Longrightarrow> owner \<noteq> '''' \<Longrightarrow>
      is_RenewLease S now None i owner ttl hs = (e, hs') \<Longrightarrow>
      inv hs' \<and>
      (lv hs' = lv hs \<and> (\<forall>y. lv hs i = Some (Leased owner y) \<longrightarrow> y \<le> now) \<or>
       e = None \<and> (\<exists>y x. lv hs i = Some (Leased owner y) \<and> lasts now ttl x \<and> lv hs' = (lv hs)(i \<mapsto> Leased owner x)))"
    and release_frees: "inv hs \<Longrightarrow> valid now \<Longrightarrow> owner \<noteq> '''' \<Longrightarrow>
      is_ReleaseLease S now None i owner hs = (e, hs') \<Longrightarrow>
      inv hs' \<and>
      (lv hs' = lv hs \<and> (\<forall>y. lv hs i = Some (Leased owner y) \<longrightarrow> y \<le> now) \<or>
       (\<exists>y. lv hs i = Some (Leased owner y) \<and> lv hs' = (lv hs)(i \<mapsto> Free)))"
begin

lemma lexec_inv:
  assumes "inv hs" "valid now" "lop_ok spans valid now op" "lexec S op (now, hs) = (ok, now', hs')"
  shows "inv hs' \<and> valid now'"
proof (cases op)
  case (LAcquire i owner ttl)
  then show ?thesis using assms acquire_grants [of hs now ttl owner i]
    by (auto simp: lexec_def split: prod.splits)
next
  case (LRenew i owner ttl)
  then show ?thesis using assms renew_extends [of hs now ttl owner i]
    by (auto simp: lexec_def split: prod.splits)
next
  case (LRelease i owner)
  then show ?thesis using assms release_frees [of hs now owner i]
    by (auto simp: lexec_def split: prod.splits)
qed (use assms in \<open>auto simp: lexec_def\<close>)

lemma lexec_held:
  assumes "inv hs" "valid now" "lop_ok spans valid now op" "lexec S op (now, hs) = (ok, now', hs')"
    and held: "lv hs i = Some (Leased owner x)" and "now' < x" and "\<not> lop_by owner i op"
  shows "lv hs' i = Some (Leased owner x) \<and> (\<forall>w ttl. op = LAcquire i w ttl \<longrightarrow> \<not> ok)"
proof (cases op)
  case (LAcquire j w ttl)
  then show ?thesis using assms acquire_grants [of hs now ttl w j]
    by (auto simp: lexec_def split: prod.splits if_splits)
next
  case (LRenew j w ttl)
  then show ?thesis using assms renew_extends [of hs now ttl w j]
    by (auto simp: lexec_def split: prod.splits if_splits)
next
  case (LRelease j w)
  then show ?thesis using assms release_frees [of hs now w j]
    by (auto simp: lexec_def split: prod.splits if_splits)
qed (use assms in \<open>auto simp: lexec_def\<close>)

lemma lease_excludes:
  assumes "inv hs" "valid now" "lops_ok spans valid now ops"
    and "lv hs i = Some (Leased owner x)" and "lrun S ops (now, hs) = (gs, now', hs')"
    and "now' < x" and "\<forall>op \<in> set ops. \<not> lop_by owner i op"
  shows "lv hs' i = Some (Leased owner x) \<and> (\<forall>w. (i, w) \<notin> set gs)"
  using assms
proof (induction ops arbitrary: now hs gs)
  case (Cons op ops)
  obtain ok now1 hs1 where e: "lexec S op (now, hs) = (ok, now1, hs1)" by (metis prod_cases3)
  obtain gs1 where r: "lrun S ops (now1, hs1) = (gs1, now', hs')"
    using Cons.prems(5) e by (auto split: prod.splits)
  have now1: "now1 = (case op of LTick d \<Rightarrow> now + int d | _ \<Rightarrow> now)"
    using fst_snd_lexec [of S op now hs] e by simp
  have "now1 \<le> now'" using lrun_time_mono [of "(now1, hs1)" S ops] r by simp
  with Cons.prems e have step: "lv hs1 i = Some (Leased owner x)"
    "\<forall>w ttl. op = LAcquire i w ttl \<longrightarrow> \<not> ok"
    using lexec_held [of hs now op ok now1 hs1 i owner x] by auto
  have "inv hs1 \<and> valid now1" using Cons.prems e lexec_inv [of hs now op ok now1 hs1] by auto
  with Cons.IH [of hs1 now1 gs1] Cons.prems r step(1) now1 have
    "lv hs' i = Some (Leased owner x) \<and> (\<forall>w. (i, w) \<notin> set gs1)" by auto
  moreover have "gs = (case op of LAcquire j w ttl \<Rightarrow> if ok then (j, w) # gs1 else gs1 | _ \<Rightarrow> gs1)"
    using Cons.prems(5) e r by simp
  ultimately show ?case using step(2) by (auto split: lop.splits)
qed simp

end

text \<open>Stores with exact times; a lease that has run out can still be renewed.\<close>

locale lease_store =
  fixes S :: "'s InstanceStore"
    and lv :: "heap \<times> 's \<Rightarrow> string \<Rightarrow> lease option"
    and inv :: "heap \<times> 's \<Rightarrow> bool"
    and valid :: "time \<Rightarrow> bool"
  assumes acquire_law: "inv hs \<Longrightarrow> valid now \<Longrightarrow> valid (now + ttl) \<Longrightarrow> owner \<noteq> '''' \<Longrightarrow>
      is_TryAcquireLease S now None i owner ttl hs = (r, hs') \<Longrightarrow>
      inv hs' \<and>
      (if \<exists>l. lv hs i = Some l \<and> (available now l \<or> (\<exists>x. l = Leased owner x))
       then r = Inr True \<and> lv hs' = (lv hs)(i \<mapsto> Leased owner (now + ttl))
       else r \<noteq> Inr True \<and> lv hs' = lv hs)"
    and renew_law: "inv hs \<Longrightarrow> valid now \<Longrightarrow> valid (now + ttl) \<Longrightarrow> owner \<noteq> '''' \<Longrightarrow>
      is_RenewLease S now None i owner ttl hs = (e, hs') \<Longrightarrow>
      inv hs' \<and>
      (if \<exists>x. lv hs i = Some (Leased owner x)
       then e = None \<and> lv hs' = (lv hs)(i \<mapsto> Leased owner (now + ttl))
       else e \<noteq> None \<and> lv hs' = lv hs)"
    and release_law: "inv hs \<Longrightarrow> owner \<noteq> '''' \<Longrightarrow>
      is_ReleaseLease S now None i owner hs = (e, hs') \<Longrightarrow>
      inv hs' \<and>
      lv hs' = (if \<exists>x. lv hs i = Some (Leased owner x) then (lv hs)(i \<mapsto> Free) else lv hs)"

sublocale lease_store \<subseteq> instance_leases S lv inv valid "\<lambda>ttl. 0 < ttl" "\<lambda>now ttl x. x = now + ttl"
proof (unfold_locales, goal_cases)
  case (1 hs now ttl owner i r hs')
  then show ?case using acquire_law [of hs now ttl owner i r hs'] by auto
next
  case (2 hs now ttl owner i e hs')
  then show ?case using renew_law [of hs now ttl owner i e hs'] by (auto split: if_splits)
next
  case (3 hs now owner i e hs')
  then show ?case using release_law [of hs owner now i e hs'] by (auto split: if_splits)
qed

text \<open>
  What the engine relies on in addition: while it holds the lease of an instance, writing
  the instance back with \<^verbatim>\<open>UpdateInstance\<close> (through a handle \<^verbatim>\<open>GetInstance\<close> gave it before) does
  not change who holds the lease.
\<close>

locale lease_keeping_store = instance_leases S lv inv valid spans lasts
  for S :: "'s InstanceStore" and lv inv valid spans lasts +
  assumes update_keeps_lease: "inv (h, s) \<Longrightarrow> valid now \<Longrightarrow> valid (now + ttl) \<Longrightarrow> spans ttl \<Longrightarrow> owner \<noteq> '''' \<Longrightarrow>
      is_GetInstance S i h s = (Inr a, h1) \<Longrightarrow>
      is_TryAcquireLease S now None i owner ttl (h1, s) = (Inr True, h2, s2) \<Longrightarrow>
      is_UpdateInstance S a h2 s2 = (e, s3) \<Longrightarrow>
      lv (h2, s3) i = lv (h2, s2) i"

text \<open>A sequence of updates, each of an object in the heap of its time.\<close>

definition run_updates :: "'s InstanceStore \<Rightarrow> (addr \<times> heap) list \<Rightarrow> 's \<Rightarrow> 's" where
  "run_updates S ws s = fold (\<lambda>(a, h) s. snd (is_UpdateInstance S a h s)) ws s"

text \<open>
  Stores that keep leases apart from the instances, and outside the heap: no update touches a lease, and
  a lease that was acquired lasts whatever is written meanwhile.
\<close>

locale lease_neutral_store = instance_leases S lv inv valid spans lasts
  for S :: "'s InstanceStore" and lv inv valid spans lasts +
  assumes heap_neutral: "inv (h, s) \<Longrightarrow> inv (g, s) \<and> lv (g, s) = lv (h, s)"
    and update_neutral: "inv (h, s) \<Longrightarrow> is_UpdateInstance S a h s = (e, s') \<Longrightarrow> inv (h, s') \<and> lv (h, s') = lv (h, s)"
begin

lemma run_updates_neutral: "inv (h, s) \<Longrightarrow> inv (h, run_updates S ws s) \<and> lv (h, run_updates S ws s) = lv (h, s)"
proof (induction ws arbitrary: s)
  case (Cons w ws)
  obtain a g where w: "w = (a, g)" by (cases w)
  obtain e s' where u: "is_UpdateInstance S a g s = (e, s')" by (cases "is_UpdateInstance S a g s")
  have "inv (g, s)" "lv (g, s) = lv (h, s)" using heap_neutral [OF Cons.prems, of g] by simp_all
  with update_neutral [OF _ u] have "inv (g, s')" "lv (g, s') = lv (h, s)" by simp_all
  with heap_neutral [of g s' h] have "inv (h, s')" "lv (h, s') = lv (h, s)" by simp_all
  with Cons.IH [of s'] u show ?case by (simp add: run_updates_def w)
qed (simp add: run_updates_def)

lemma lease_survives_updates:
  assumes "inv (h, s)" "valid now" "valid (now + ttl)" "spans ttl" "owner \<noteq> ''''"
    and acq: "is_TryAcquireLease S now None i owner ttl (h, s) = (Inr True, h2, s2)"
    and run: "lrun S ops (now, h3, run_updates S ws s2) = (gs, now', hs')"
    and "lops_ok spans valid now ops" "\<forall>op \<in> set ops. \<not> lop_by owner i op"
  shows "\<exists>x. lasts now ttl x \<and> (now' < x \<longrightarrow> lv hs' i = Some (Leased owner x) \<and> (\<forall>w. (i, w) \<notin> set gs))"
proof -
  from acquire_grants [OF assms(1-5) acq] obtain x where x: "inv (h2, s2)" "lasts now ttl x"
    "lv (h2, s2) = (lv (h, s))(i \<mapsto> Leased owner x)" by (auto split: if_splits)
  from run_updates_neutral [OF x(1), of ws] heap_neutral [of h2 "run_updates S ws s2" h3] x(3)
  have "inv (h3, run_updates S ws s2)" "lv (h3, run_updates S ws s2) i = Some (Leased owner x)" by simp_all
  with lease_excludes [OF _ assms(2,8) _ run _ assms(9)] x(2) show ?thesis by blast
qed

end

sublocale lease_neutral_store \<subseteq> lease_keeping_store
proof (unfold_locales, goal_cases)
  case (1 h s now ttl owner i a h1 h2 s2 e s3)
  have "inv (h1, s)" using heap_neutral [OF 1(1)] by simp
  from acquire_grants [OF this 1(2-5,7)] have "inv (h2, s2)" by simp
  with update_neutral [OF _ 1(8)] show ?case by simp
qed

section \<open>Event stores\<close>

text \<open>
  The \<^verbatim>\<open>EventStore\<close> interface of \<^verbatim>\<open>event_store.go\<close>; an operation is given the clock reading
  it makes and the error of its context, if that is done.
\<close>

record 'e EventStore =
  es_AppendEvent :: "time \<Rightarrow> goerr option \<Rightarrow> WorkflowEvent \<Rightarrow> 'e \<Rightarrow> goerr option \<times> 'e"
  es_ListEvents :: "goerr option \<Rightarrow> string \<Rightarrow> 'e \<Rightarrow> goerr + WorkflowEvent list"

definition NoopEventStore :: "'e EventStore" where
  "NoopEventStore = \<lparr>es_AppendEvent = (\<lambda>now cerr ev es. (None, es)), es_ListEvents = (\<lambda>cerr i es. Inr [])\<rparr>"

text \<open>Appending a sequence of events with the clock readings given.\<close>

fun append_events :: "'e EventStore \<Rightarrow> (time \<times> WorkflowEvent) list \<Rightarrow> 'e \<Rightarrow> 'e" where
  "append_events E [] es = es"
| "append_events E ((now, ev) # evs) es = append_events E evs (snd (es_AppendEvent E now None ev es))"

text \<open>
  What an event store promises: \<open>hist es i\<close> is the history of instance \<open>i\<close>, \<open>listed now ev\<close> the event that
  is listed for one appended at the clock reading \<open>now\<close>.
\<close>

locale event_store =
  fixes E :: "'e EventStore"
    and hist :: "'e \<Rightarrow> string \<Rightarrow> WorkflowEvent list"
    and listed :: "time \<Rightarrow> WorkflowEvent \<Rightarrow> WorkflowEvent"
  assumes list_law: "es_ListEvents E None i es = Inr (hist es i)"
    and append_law: "es_AppendEvent E now None ev es = (r, es') \<Longrightarrow>
      r = None \<and> hist es' j = (if j = ev_InstanceID ev then hist es j @ [listed now ev] else hist es j)"
begin

lemma append_events_hist:
  "hist (append_events E evs es) i = hist es i @ map (\<lambda>(now, ev). listed now ev) (filter (\<lambda>(now, ev). ev_InstanceID ev = i) evs)"
proof (induction evs arbitrary: es)
  case (Cons x evs)
  obtain now ev where x: "x = (now, ev)" by (cases x)
  obtain r es' where a: "es_AppendEvent E now None ev es = (r, es')" by (cases "es_AppendEvent E now None ev es")
  from append_law [OF a] have "hist es' i = (if i = ev_InstanceID ev then hist es i @ [listed now ev] else hist es i)" by simp
  with Cons.IH [of es'] show ?case by (simp add: x a)
qed simp

text \<open>A history lists the instance's own events in the order they were appended.\<close>

lemma history_in_order:
  assumes "hist es i = []"
  shows "es_ListEvents E None i (append_events E evs es) =
    Inr (map (\<lambda>(now, ev). listed now ev) (filter (\<lambda>(now, ev). ev_InstanceID ev = i) evs))"
  using append_events_hist [of evs es i] assms by (simp add: list_law)

end

end
