(* ===== verification/Step_Progs.thy ===== *)
theory Step_Progs
  imports Api_Types
begin

text \<open>
  Step functions and the step constructors of \<^verbatim>\<open>pkg/api/workflow.go\<close>. A step function is
  arbitrary Go code: it computes, changes the outside world, lets time pass, looks at its
  context and may call back into the engine it finds there. \<open>prog\<close> is the syntax tree of
  such a run, one constructor per kind of interaction; \<open>interp\<close> runs it against whatever
  world provides the interactions (theory \<open>Engine_Core\<close> provides the engine's).
\<close>

section \<open>Step programs\<close>

datatype (dead 'u) prog =
    Return "goerr + anyv"
  | Panic string
  | Work nat "'u prog"
  | Extern "'u \<Rightarrow> 'u" "'u \<Rightarrow> 'u prog"
  | TimeNow "time \<Rightarrow> 'u prog"
  | SelectSleep duration "goerr option \<Rightarrow> 'u prog"
  | EngineCtx "bool \<Rightarrow> 'u prog"
  | EngineRun string anyv "(WorkflowInstance option \<times> goerr option) \<Rightarrow> 'u prog"
  | EngineGetInstance string "(goerr + WorkflowInstance) \<Rightarrow> 'u prog"
  | Loop "anyv \<Rightarrow> bool" "anyv \<Rightarrow> 'u prog" anyv "(goerr + anyv) \<Rightarrow> 'u prog"

text \<open>
  \<open>Work\<close> lets time pass, \<open>Extern\<close> reads and updates the outside world, \<open>SelectSleep\<close> is a
  \<^verbatim>\<open>select\<close> between \<^verbatim>\<open>ctx.Done()\<close> and \<^verbatim>\<open>time.After\<close>, \<open>EngineCtx\<close> asks whether
  \<^verbatim>\<open>EngineFromContext\<close> finds an engine, and \<open>Loop\<close> is a \<^verbatim>\<open>for cond(current)\<close> loop.
\<close>

primrec prog_bind :: "'u prog \<Rightarrow> ((goerr + anyv) \<Rightarrow> 'u prog) \<Rightarrow> 'u prog" where
  "prog_bind (Return r) g = g r"
| "prog_bind (Panic s) g = Panic s"
| "prog_bind (Work d p) g = Work d (prog_bind p g)"
| "prog_bind (Extern f k) g = Extern f (\<lambda>u. prog_bind (k u) g)"
| "prog_bind (TimeNow k) g = TimeNow (\<lambda>t. prog_bind (k t) g)"
| "prog_bind (SelectSleep d k) g = SelectSleep d (\<lambda>e. prog_bind (k e) g)"
| "prog_bind (EngineCtx k) g = EngineCtx (\<lambda>b. prog_bind (k b) g)"
| "prog_bind (EngineRun n v k) g = EngineRun n v (\<lambda>r. prog_bind (k r) g)"
| "prog_bind (EngineGetInstance i k) g = EngineGetInstance i (\<lambda>r. prog_bind (k r) g)"
| "prog_bind (Loop c b x k) g = Loop c b x (\<lambda>r. prog_bind (k r) g)"

lemma prog_bind_Return [simp]: "prog_bind p Return = p"
  by (induction p) simp_all

lemma prog_bind_assoc: "prog_bind (prog_bind p f) g = prog_bind p (\<lambda>r. prog_bind (f r) g)"
  by (induction p) simp_all

text \<open>A Go function value: the name \<^verbatim>\<open>runtime.FuncForPC\<close> reports for it and its code.\<close>

record 'u StepFunc =
  fn_name :: string
  fn_body :: "anyv \<Rightarrow> 'u prog"

definition api_fn :: "string \<Rightarrow> string" where
  "api_fn s = ''github.com/petrijr/fluxo/pkg/api.'' @ s"

record 'u StepDefinition =
  step_Name :: string
  step_Fn :: "'u StepFunc option"
  step_Retry :: "RetryPolicy option"

record 'u WorkflowDefinition =
  def_Name :: string
  def_Version :: string
  def_Fingerprint :: string
  def_Steps :: "'u StepDefinition list"

section \<open>Running a step program\<close>

text \<open>A call returns, panics, or (in the model) runs out of fuel.\<close>

datatype 'a res = Done 'a | Panicked string | NoFuel

record ('u, 'w) effects =
  eff_extern :: "'w \<Rightarrow> 'u"
  eff_set_extern :: "'u \<Rightarrow> 'w \<Rightarrow> 'w"
  eff_clock :: "'w \<Rightarrow> time"
  eff_advance :: "int \<Rightarrow> 'w \<Rightarrow> 'w"
  eff_ctx :: ctx
  eff_Run :: "string \<Rightarrow> anyv \<Rightarrow> 'w \<Rightarrow> (WorkflowInstance option \<times> goerr option) res \<times> 'w"
  eff_GetInstance :: "string \<Rightarrow> 'w \<Rightarrow> (goerr + WorkflowInstance) \<times> 'w"

text \<open>
  A \<^verbatim>\<open>select\<close> on \<^verbatim>\<open>ctx.Done()\<close> and \<^verbatim>\<open>time.After(d)\<close> started at time \<open>now\<close>: the time at which
  it is left, and the context error if that is why. A context that is done no later than
  the timer fires is taken to win.
\<close>

definition select_sleep :: "ctx \<Rightarrow> duration \<Rightarrow> time \<Rightarrow> goerr option \<times> time" where
  "select_sleep c d now =
     (case ctx_cancel c of
        None \<Rightarrow> (None, now + max 0 d)
      | Some (t, e) \<Rightarrow> if t \<le> now + max 0 d then (Some e, max now t) else (None, now + max 0 d))"

fun loop_iter :: "nat \<Rightarrow> (anyv \<Rightarrow> bool) \<Rightarrow> (anyv \<Rightarrow> 'w \<Rightarrow> (goerr + anyv) res \<times> 'w)
     \<Rightarrow> anyv \<Rightarrow> 'w \<Rightarrow> (goerr + anyv) res \<times> 'w" where
  "loop_iter n c f x w =
     (if \<not> c x then (Done (Inr x), w)
      else case n of
        0 \<Rightarrow> (NoFuel, w)
      | Suc m \<Rightarrow>
          (case f x w of
             (Done (Inr v), w') \<Rightarrow> loop_iter m c f v w'
           | (r, w') \<Rightarrow> (r, w')))"

declare loop_iter.simps [simp del]

primrec interp :: "('u, 'w) effects \<Rightarrow> nat \<Rightarrow> 'u prog \<Rightarrow> 'w \<Rightarrow> (goerr + anyv) res \<times> 'w" where
  "interp E n (Return r) = (\<lambda>w. (Done r, w))"
| "interp E n (Panic s) = (\<lambda>w. (Panicked s, w))"
| "interp E n (Work d p) = (\<lambda>w. interp E n p (eff_advance E (int d) w))"
| "interp E n (Extern f k) =
     (\<lambda>w. interp E n (k (eff_extern E w)) (eff_set_extern E (f (eff_extern E w)) w))"
| "interp E n (TimeNow k) = (\<lambda>w. interp E n (k (eff_clock E w)) w)"
| "interp E n (SelectSleep d k) =
     (\<lambda>w. let (e, t) = select_sleep (eff_ctx E) d (eff_clock E w)
          in interp E n (k e) (eff_advance E (t - eff_clock E w) w))"
| "interp E n (EngineCtx k) = (\<lambda>w. interp E n (k (EngineFromContext (eff_ctx E))) w)"
| "interp E n (EngineRun name v k) =
     (\<lambda>w. case eff_Run E name v w of
        (Done r, w') \<Rightarrow> interp E n (k r) w'
      | (Panicked s, w') \<Rightarrow> (Panicked s, w')
      | (NoFuel, w') \<Rightarrow> (NoFuel, w'))"
| "interp E n (EngineGetInstance i k) =
     (\<lambda>w. let (r, w') = eff_GetInstance E i w in interp E n (k r) w')"
| "interp E n (Loop c b x k) =
     (\<lambda>w. case loop_iter n c (\<lambda>y. interp E n (b y)) x w of
        (Done r, w') \<Rightarrow> interp E n (k r) w'
      | (Panicked s, w') \<Rightarrow> (Panicked s, w')
      | (NoFuel, w') \<Rightarrow> (NoFuel, w'))"

lemma interp_bind:
  "interp E n (prog_bind p g) w =
     (case interp E n p w of
        (Done r, w') \<Rightarrow> interp E n (g r) w'
      | (Panicked s, w') \<Rightarrow> (Panicked s, w')
      | (NoFuel, w') \<Rightarrow> (NoFuel, w'))"
  by (induction p arbitrary: w) (auto split: res.splits prod.splits)

section \<open>Timers\<close>

definition SleepStep :: "duration \<Rightarrow> 'u StepFunc" where
  "SleepStep d = \<lparr>fn_name = api_fn ''SleepStep.func1'',
     fn_body = (\<lambda>input. if d \<le> 0 then Return (Inr input)
       else SelectSleep d (\<lambda>e. case e of Some err \<Rightarrow> Return (Inl err) | None \<Rightarrow> Return (Inr input)))\<rparr>"

definition SleepUntilStep :: "time \<Rightarrow> 'u StepFunc" where
  "SleepUntilStep deadline = \<lparr>fn_name = api_fn ''SleepUntilStep.func1'',
     fn_body = (\<lambda>input. TimeNow (\<lambda>now. if \<not> now < deadline then Return (Inr input)
       else TimeNow (\<lambda>now'. SelectSleep (deadline - now')
         (\<lambda>e. case e of Some err \<Rightarrow> Return (Inl err) | None \<Rightarrow> Return (Inr input)))))\<rparr>"

section \<open>Signals\<close>

definition WaitForSignalStep :: "string \<Rightarrow> 'u StepFunc" where
  "WaitForSignalStep name = \<lparr>fn_name = api_fn ''WaitForSignalStep.func1'',
     fn_body = (\<lambda>input. case input of
         SignalPayload n d \<Rightarrow> if n = name then Return (Inr d) else Return (Inl (NewWaitForSignalError name))
       | _ \<Rightarrow> Return (Inl (NewWaitForSignalError name)))\<rparr>"

definition WaitForAnySignalStep :: "string list \<Rightarrow> 'u StepFunc" where
  "WaitForAnySignalStep names =
     (case names of
        [] \<Rightarrow> \<lparr>fn_name = api_fn ''WaitForAnySignalStep.func1'',
               fn_body = (\<lambda>input. Return (Inl (NewWaitForSignalError ''unknown'')))\<rparr>
      | primary # _ \<Rightarrow> \<lparr>fn_name = api_fn ''WaitForAnySignalStep.func2'',
               fn_body = (\<lambda>input. case input of
                   SignalPayload n d \<Rightarrow>
                     if n \<in> set names then Return (Inr input) else Return (Inl (NewWaitForAnySignalError primary))
                 | _ \<Rightarrow> Return (Inl (NewWaitForAnySignalError primary)))\<rparr>)"

section \<open>Branches\<close>

text \<open>A nil function value is \<open>None\<close>.\<close>

definition IfStep :: "(anyv \<Rightarrow> bool) option \<Rightarrow> 'u StepFunc option \<Rightarrow> 'u StepFunc option \<Rightarrow> 'u StepFunc" where
  "IfStep cond thenStep elseStep = \<lparr>fn_name = api_fn ''IfStep.func1'',
     fn_body = (\<lambda>input. case cond of
         None \<Rightarrow> Return (Inr input)
       | Some c \<Rightarrow>
           if c input then (case thenStep of None \<Rightarrow> Return (Inr input) | Some s \<Rightarrow> fn_body s input)
           else (case elseStep of None \<Rightarrow> Return (Inr input) | Some s \<Rightarrow> fn_body s input))\<rparr>"

text \<open>The branch map: a nil map behaves as an empty one; an entry may hold a nil function.\<close>

definition SwitchStep :: "(anyv \<Rightarrow> string) option \<Rightarrow> (string \<rightharpoonup> 'u StepFunc option) \<Rightarrow> 'u StepFunc option \<Rightarrow> 'u StepFunc" where
  "SwitchStep selector branches defaultStep = \<lparr>fn_name = api_fn ''SwitchStep.func1'',
     fn_body = (\<lambda>input.
       let dflt = (case defaultStep of None \<Rightarrow> Return (Inr input) | Some s \<Rightarrow> fn_body s input) in
       case selector of
         None \<Rightarrow> dflt
       | Some sel \<Rightarrow>
           let key = sel input in
           if key \<noteq> '''' then
             (case branches key of
                Some (Some step) \<Rightarrow> fn_body step input
              | _ \<Rightarrow> dflt)
           else dflt)\<rparr>"

section \<open>Loops\<close>

definition WhileStep :: "(anyv \<Rightarrow> bool) option \<Rightarrow> 'u StepFunc option \<Rightarrow> 'u StepFunc" where
  "WhileStep cond body = \<lparr>fn_name = api_fn ''WhileStep.func1'',
     fn_body = (\<lambda>input. case (cond, body) of
         (Some c, Some b) \<Rightarrow> Loop c (fn_body b) input Return
       | _ \<Rightarrow> Return (Inr input))\<rparr>"

fun loop_times :: "nat \<Rightarrow> (anyv \<Rightarrow> 'u prog) \<Rightarrow> anyv \<Rightarrow> 'u prog" where
  "loop_times 0 b current = Return (Inr current)"
| "loop_times (Suc n) b current =
     prog_bind (b current) (\<lambda>r. case r of Inl e \<Rightarrow> Return (Inl e) | Inr v \<Rightarrow> loop_times n b v)"

definition LoopStep :: "int \<Rightarrow> 'u StepFunc option \<Rightarrow> 'u StepFunc" where
  "LoopStep cnt body = \<lparr>fn_name = api_fn ''LoopStep.func1'',
     fn_body = (\<lambda>input. if cnt \<le> 0 then Return (Inr input)
       else case body of None \<Rightarrow> Return (Inr input) | Some b \<Rightarrow> loop_times (nat cnt) (fn_body b) input)\<rparr>"

section \<open>Typed helpers\<close>

text \<open>
  A type parameter \<^verbatim>\<open>I\<close> is given by its type assertion \<open>cast\<close> from \<^verbatim>\<open>any\<close>, its zero value and
  what \<^verbatim>\<open>%T\<close> prints for it.
\<close>

definition typed_arg :: "string \<Rightarrow> (anyv \<Rightarrow> 'i option) \<Rightarrow> 'i \<Rightarrow> string \<Rightarrow> anyv \<Rightarrow> goerr + 'i" where
  "typed_arg helper cast zero tyname input =
     (if input = VNil then Inr zero
      else case cast input of
        Some v \<Rightarrow> Inr v
      | None \<Rightarrow> Inl (ErrMsg (helper @ '': expected input of type '' @ tyname @ '', got '' @ type_name input)))"

definition TypedStep :: "(anyv \<Rightarrow> 'i option) \<Rightarrow> 'i \<Rightarrow> string \<Rightarrow> ('i \<Rightarrow> 'u prog) \<Rightarrow> 'u StepFunc" where
  "TypedStep cast zero tyname fn = \<lparr>fn_name = api_fn ''TypedStep[...].func1'',
     fn_body = (\<lambda>input. case typed_arg ''TypedStep'' cast zero tyname input of
         Inl e \<Rightarrow> Return (Inl e)
       | Inr v \<Rightarrow> prog_bind (fn v) (\<lambda>r. case r of Inl e \<Rightarrow> Return (Inl e) | Inr out \<Rightarrow> Return (Inr out)))\<rparr>"

definition TypedWhile :: "(anyv \<Rightarrow> 'i option) \<Rightarrow> 'i \<Rightarrow> string \<Rightarrow> ('i \<Rightarrow> bool) \<Rightarrow> ('i \<Rightarrow> 'u prog) \<Rightarrow> 'u StepFunc" where
  "TypedWhile cast zero tyname cond body =
     WhileStep
       (Some (\<lambda>input. if input = VNil then cond zero
                       else case cast input of None \<Rightarrow> False | Some v \<Rightarrow> cond v))
       (Some \<lparr>fn_name = api_fn ''TypedWhile[...].func2'',
              fn_body = (\<lambda>input. case typed_arg ''TypedWhile'' cast zero tyname input of
                  Inl e \<Rightarrow> Return (Inl e)
                | Inr v \<Rightarrow> body v)\<rparr>)"

definition TypedLoop :: "(anyv \<Rightarrow> 'i option) \<Rightarrow> 'i \<Rightarrow> string \<Rightarrow> int \<Rightarrow> ('i \<Rightarrow> 'u prog) \<Rightarrow> 'u StepFunc" where
  "TypedLoop cast zero tyname cnt body =
     LoopStep cnt
       (Some \<lparr>fn_name = api_fn ''TypedLoop[...].func1'',
              fn_body = (\<lambda>input. case typed_arg ''TypedLoop'' cast zero tyname input of
                  Inl e \<Rightarrow> Return (Inl e)
                | Inr v \<Rightarrow> body v)\<rparr>)"

section \<open>Child workflows\<close>

text \<open>A \<^verbatim>\<open>ChildWorkflowSpec\<close> is the pair of its name and input.\<close>

fun start_children :: "(string \<times> anyv) list \<Rightarrow> string list \<Rightarrow> 'u prog" where
  "start_children [] ids = Return (Inr (VStrings ids))"
| "start_children ((name, input) # specs) ids =
     (if name = '''' then Return (Inl (ErrMsg ''StartChildrenStep: child workflow name is empty''))
      else EngineRun name input (\<lambda>(inst, err). case err of
          Some e \<Rightarrow> Return (Inl (ErrWrap (''StartChildrenStep: starting child '' @ quote name @
                                        '' failed: '' @ Error e) e))
        | None \<Rightarrow>
            (case inst of
               Some i \<Rightarrow> start_children specs (ids @ [inst_ID i])
             | None \<Rightarrow> Panic ''nil pointer dereference'')))"

definition StartChildrenStep :: "(anyv \<Rightarrow> goerr + (string \<times> anyv) list) option \<Rightarrow> 'u StepFunc" where
  "StartChildrenStep specsFn = \<lparr>fn_name = api_fn ''StartChildrenStep.func1'',
     fn_body = (\<lambda>input. case specsFn of
         None \<Rightarrow> Return (Inl (ErrMsg ''StartChildrenStep: specsFn must not be nil''))
       | Some f \<Rightarrow> EngineCtx (\<lambda>present.
           if \<not> present then Return (Inl (ErrMsg ''StartChildrenStep: engine not available in context''))
           else case f input of
             Inl e \<Rightarrow> Return (Inl e)
           | Inr specs \<Rightarrow> start_children specs []))\<rparr>"

text \<open>One poll pass over the children: \<open>outs\<close> are the outputs so far (nil for a child still running).\<close>

fun poll_children :: "string list \<Rightarrow> duration \<Rightarrow> string list \<Rightarrow> anyv list \<Rightarrow> bool \<Rightarrow> 'u prog" where
  "poll_children allIDs poll [] outs allDone =
     (if allDone then Return (Inr (VList outs))
      else Return (Inl (WaitForChildrenError allIDs poll)))"
| "poll_children allIDs poll (i # ids) outs allDone =
     EngineGetInstance i (\<lambda>r. case r of
         Inl e \<Rightarrow> Return (Inl (ErrWrap (''WaitForChildrenStep: GetInstance('' @ quote i @ '') failed: '' @ Error e) e))
       | Inr inst \<Rightarrow>
           (case inst_Status inst of
              StatusCompleted \<Rightarrow> poll_children allIDs poll ids (outs @ [inst_Output inst]) allDone
            | StatusFailed \<Rightarrow>
                (case inst_Err inst of
                   Some e \<Rightarrow> Return (Inl (ErrWrap (''WaitForChildrenStep: child '' @ i @ '' failed: '' @ Error e) e))
                 | None \<Rightarrow> Return (Inl (ErrMsg (''WaitForChildrenStep: child '' @ i @ '' failed''))))
            | _ \<Rightarrow> poll_children allIDs poll ids (outs @ [VNil]) False))"

definition default_poll :: "duration \<Rightarrow> duration" where
  "default_poll d = (if d \<le> 0 then 500 * Millisecond else d)"

definition WaitForChildrenStep :: "(anyv \<Rightarrow> string list) option \<Rightarrow> duration \<Rightarrow> 'u StepFunc" where
  "WaitForChildrenStep getIDs pollInterval = \<lparr>fn_name = api_fn ''WaitForChildrenStep.func1'',
     fn_body = (\<lambda>input. case getIDs of
         None \<Rightarrow> Return (Inl (ErrMsg ''WaitForChildrenStep: getIDs must not be nil''))
       | Some g \<Rightarrow> EngineCtx (\<lambda>present.
           if \<not> present then Return (Inl (ErrMsg ''WaitForChildrenStep: engine not available in context''))
           else if g input = [] then Return (Inr (VList []))
           else poll_children (g input) (default_poll pollInterval) (g input) [] True))\<rparr>"

fun poll_any_child :: "string list \<Rightarrow> duration \<Rightarrow> string list \<Rightarrow> 'u prog" where
  "poll_any_child allIDs poll [] = Return (Inl (WaitForAnyChildError allIDs poll))"
| "poll_any_child allIDs poll (i # ids) =
     EngineGetInstance i (\<lambda>r. case r of
         Inl e \<Rightarrow> Return (Inl (ErrWrap (''WaitForAnyChildStep: GetInstance('' @ quote i @ '') failed: '' @ Error e) e))
       | Inr inst \<Rightarrow>
           (case inst_Status inst of
              StatusCompleted \<Rightarrow> Return (Inr (VString i))
            | StatusFailed \<Rightarrow>
                (case inst_Err inst of
                   Some e \<Rightarrow> Return (Inl (ErrWrap (''WaitForAnyChildStep: child '' @ i @ '' failed: '' @ Error e) e))
                 | None \<Rightarrow> Return (Inl (ErrMsg (''WaitForAnyChildStep: child '' @ i @ '' failed''))))
            | _ \<Rightarrow> poll_any_child allIDs poll ids))"

definition WaitForAnyChildStep :: "(anyv \<Rightarrow> string list) option \<Rightarrow> duration \<Rightarrow> 'u StepFunc" where
  "WaitForAnyChildStep getIDs pollInterval = \<lparr>fn_name = api_fn ''WaitForAnyChildStep.func1'',
     fn_body = (\<lambda>input. case getIDs of
         None \<Rightarrow> Return (Inl (ErrMsg ''WaitForAnyChildStep: getIDs must not be nil''))
       | Some g \<Rightarrow> EngineCtx (\<lambda>present.
           if \<not> present then Return (Inl (ErrMsg ''WaitForAnyChildStep: engine not available in context''))
           else if g input = [] then Return (Inr VNil)
           else poll_any_child (g input) (default_poll pollInterval) (g input)))\<rparr>"

section \<open>What the loops compute\<close>

text \<open>
  A reference for the counted loop: the body's result is fed back until an error stops it.
\<close>

fun iterate_step :: "nat \<Rightarrow> (anyv \<Rightarrow> 'w \<Rightarrow> (goerr + anyv) res \<times> 'w) \<Rightarrow> anyv \<Rightarrow> 'w \<Rightarrow> (goerr + anyv) res \<times> 'w" where
  "iterate_step 0 f x w = (Done (Inr x), w)"
| "iterate_step (Suc n) f x w =
     (case f x w of (Done (Inr v), w') \<Rightarrow> iterate_step n f v w' | (r, w') \<Rightarrow> (r, w'))"

lemma interp_loop_times:
  "interp E n (loop_times m b x) w = iterate_step m (\<lambda>y. interp E n (b y)) x w"
  by (induction m arbitrary: x w) (auto simp: interp_bind split: prod.splits res.splits sum.splits)

lemma loop_iter_iterate:
  assumes "\<And>k. k < m \<Longrightarrow> \<exists>v w'. iterate_step k f x w = (Done (Inr v), w') \<and> c v"
    and "iterate_step m f x w = (Done (Inr y), w')" and "\<not> c y" and "m \<le> n"
  shows "loop_iter n c f x w = (Done (Inr y), w')"
  using assms
proof (induction m arbitrary: n x w)
  case 0
  then show ?case by (simp add: loop_iter.simps)
next
  case (Suc m)
  from Suc.prems(1) [of 0] have cx: "c x" by simp
  from Suc.prems(4) obtain n' where n: "n = Suc n'" "m \<le> n'" by (cases n) auto
  from Suc.prems(2) obtain v w1 where v: "f x w = (Done (Inr v), w1)"
    by (auto split: prod.splits res.splits sum.splits)
  have "\<exists>u w'. iterate_step k f v w1 = (Done (Inr u), w') \<and> c u" if "k < m" for k
    using Suc.prems(1) [of "Suc k"] that v by simp
  moreover have "iterate_step m f v w1 = (Done (Inr y), w')" using Suc.prems(2) v by simp
  ultimately have "loop_iter n' c f v w1 = (Done (Inr y), w')"
    using Suc.IH Suc.prems(3) n(2) by blast
  with cx v n(1) show ?case by (subst loop_iter.simps) simp
qed

end
