(* ===== verification/Memory_Store.thy ===== *)
theory Memory_Store
  imports Instance_Store Step_Progs
begin

text \<open>
  \<^verbatim>\<open>internal/persistence/memory_store.go\<close>: the registry of workflow definitions (which every
  engine keeps in memory), the instance map, the event history, and the proof that the
  in-memory instance store meets the lease contracts. The mutex makes each operation atomic.
\<close>

section \<open>Workflow definitions\<close>

type_synonym 'u workflows = "(string \<times> (string \<times> 'u WorkflowDefinition) list) list"

definition SaveWorkflow :: "'u WorkflowDefinition \<Rightarrow> 'u workflows \<Rightarrow> goerr option \<times> 'u workflows" where
  "SaveWorkflow def ws =
     (let (versions, ws1) =
        (case map_of ws (def_Name def) of
           None \<Rightarrow> ([], AList.update (def_Name def) [] ws)
         | Some vs \<Rightarrow> (vs, ws))
      in if map_of versions (def_Version def) \<noteq> None
         then (Some (ErrMsg (''workflow '' @ quote (def_Name def) @ '' version '' @
                       quote (def_Version def) @ '' already exists'')), ws1)
         else (None, AList.update (def_Name def) (AList.update (def_Version def) def versions) ws1))"

definition GetWorkflow :: "string \<Rightarrow> string \<Rightarrow> 'u workflows \<Rightarrow> goerr + 'u WorkflowDefinition" where
  "GetWorkflow name version ws =
     (case map_of ws name of
        None \<Rightarrow> Inl ErrWorkflowNotFound
      | Some versions \<Rightarrow>
          (case map_of versions version of
             None \<Rightarrow> Inl ErrWorkflowNotFound
           | Some def \<Rightarrow> Inr def))"

definition zero_WorkflowDefinition :: "'u WorkflowDefinition" where
  "zero_WorkflowDefinition = \<lparr>def_Name = '''', def_Version = '''', def_Fingerprint = '''', def_Steps = []\<rparr>"

definition GetLatestWorkflow :: "string \<Rightarrow> 'u workflows \<Rightarrow> goerr + 'u WorkflowDefinition" where
  "GetLatestWorkflow name ws =
     (case map_of ws name of
        None \<Rightarrow> Inl ErrWorkflowNotFound
      | Some versions \<Rightarrow>
          if length versions > 1 then Inl ErrWorkflowNotFound
          else Inr (case versions of [] \<Rightarrow> zero_WorkflowDefinition | (v, d) # _ \<Rightarrow> d))"

text \<open>
  The slice is made with \<^verbatim>\<open>len(versions)\<close> empty strings and the loop appends one key and
  breaks.
\<close>

definition ListWorkflowVersions :: "string \<Rightarrow> 'u workflows \<Rightarrow> goerr + string list" where
  "ListWorkflowVersions name ws =
     (case map_of ws name of
        None \<Rightarrow> Inl (ErrMsg (''no versions for workflow '' @ quote name))
      | Some versions \<Rightarrow> Inr (replicate (length versions) '''' @ take 1 (keys versions)))"

section \<open>Instances\<close>

type_synonym instances = "(string \<times> addr) list"

definition Mem_SaveInstance :: "addr \<Rightarrow> heap \<Rightarrow> instances \<Rightarrow> goerr option \<times> instances" where
  "Mem_SaveInstance a h s = (None, AList.update (inst_ID (deref h a)) a s)"

definition Mem_UpdateInstance :: "addr \<Rightarrow> heap \<Rightarrow> instances \<Rightarrow> goerr option \<times> instances" where
  "Mem_UpdateInstance a h s =
     (if map_of s (inst_ID (deref h a)) = None then (Some ErrInstanceNotFound, s)
      else (None, AList.update (inst_ID (deref h a)) a s))"

definition Mem_GetInstance :: "string \<Rightarrow> heap \<Rightarrow> instances \<Rightarrow> (goerr + addr) \<times> heap" where
  "Mem_GetInstance i h s =
     (case map_of s i of None \<Rightarrow> (Inl ErrInstanceNotFound, h) | Some a \<Rightarrow> (Inr a, h))"

definition Mem_ListInstances :: "InstanceFilter \<Rightarrow> heap \<Rightarrow> instances \<Rightarrow> (goerr + addr list) \<times> heap" where
  "Mem_ListInstances f h s =
     (Inr (filter (\<lambda>a. matches_filter f (deref h a)) (map snd s)), h)"

definition Mem_TryAcquireLease :: "time \<Rightarrow> goerr option \<Rightarrow> string \<Rightarrow> string \<Rightarrow> duration \<Rightarrow> heap \<times> instances
     \<Rightarrow> (goerr + bool) \<times> heap \<times> instances" where
  "Mem_TryAcquireLease now cerr i owner ttl hs =
     (let (h, s) = hs; expires = now + ttl in
      case map_of s i of
        None \<Rightarrow> (Inl ErrInstanceNotFound, h, s)
      | Some a \<Rightarrow>
          let inst = deref h a in
          if inst_LeaseOwner inst = '''' \<or> IsZero (inst_LeaseExpiresAt inst) \<or>
             \<not> now < inst_LeaseExpiresAt inst \<or> inst_LeaseOwner inst = owner
          then (Inr True, assign a (\<lambda>x. x\<lparr>inst_LeaseOwner := owner, inst_LeaseExpiresAt := expires\<rparr>) h, s)
          else (Inr False, h, s))"

definition Mem_RenewLease :: "time \<Rightarrow> goerr option \<Rightarrow> string \<Rightarrow> string \<Rightarrow> duration \<Rightarrow> heap \<times> instances
     \<Rightarrow> goerr option \<times> heap \<times> instances" where
  "Mem_RenewLease now cerr i owner ttl hs =
     (let (h, s) = hs; expires = now + ttl in
      case map_of s i of
        None \<Rightarrow> (Some ErrInstanceNotFound, h, s)
      | Some a \<Rightarrow>
          if inst_LeaseOwner (deref h a) \<noteq> owner then (Some ErrWorkflowInstanceLocked, h, s)
          else (None, assign a (\<lambda>x. x\<lparr>inst_LeaseExpiresAt := expires\<rparr>) h, s))"

definition Mem_ReleaseLease :: "goerr option \<Rightarrow> string \<Rightarrow> string \<Rightarrow> heap \<times> instances \<Rightarrow> goerr option \<times> heap \<times> instances" where
  "Mem_ReleaseLease cerr i owner hs =
     (let (h, s) = hs in
      case map_of s i of
        None \<Rightarrow> (Some ErrInstanceNotFound, h, s)
      | Some a \<Rightarrow>
          if inst_LeaseOwner (deref h a) \<noteq> '''' \<and> inst_LeaseOwner (deref h a) \<noteq> owner
          then (Some ErrWorkflowInstanceLocked, h, s)
          else (None, assign a (\<lambda>x. x\<lparr>inst_LeaseOwner := '''', inst_LeaseExpiresAt := zero_time\<rparr>) h, s))"

definition memoryStore :: "instances InstanceStore" where
  "memoryStore = \<lparr>is_SaveInstance = Mem_SaveInstance, is_UpdateInstance = Mem_UpdateInstance,
     is_GetInstance = Mem_GetInstance, is_ListInstances = Mem_ListInstances,
     is_TryAcquireLease = Mem_TryAcquireLease, is_RenewLease = Mem_RenewLease,
     is_ReleaseLease = (\<lambda>now. Mem_ReleaseLease)\<rparr>"

declare Mem_SaveInstance_def [store_simps] Mem_UpdateInstance_def [store_simps]
  Mem_GetInstance_def [store_simps] Mem_ListInstances_def [store_simps]
  Mem_TryAcquireLease_def [store_simps] Mem_RenewLease_def [store_simps]
  Mem_ReleaseLease_def [store_simps]

lemma memoryStore_sel [simp]:
  "is_SaveInstance memoryStore = Mem_SaveInstance" "is_UpdateInstance memoryStore = Mem_UpdateInstance"
  "is_GetInstance memoryStore = Mem_GetInstance" "is_ListInstances memoryStore = Mem_ListInstances"
  "is_TryAcquireLease memoryStore = Mem_TryAcquireLease" "is_RenewLease memoryStore = Mem_RenewLease"
  "is_ReleaseLease memoryStore now = Mem_ReleaseLease"
  by (simp_all add: memoryStore_def)

section \<open>Events\<close>

type_synonym history = "(string \<times> WorkflowEvent list) list"

definition Mem_ListEvents :: "string \<Rightarrow> history \<Rightarrow> WorkflowEvent list" where
  "Mem_ListEvents i es = (case map_of es i of None \<Rightarrow> [] | Some evs \<Rightarrow> evs)"

definition Mem_AppendEvent :: "WorkflowEvent \<Rightarrow> history \<Rightarrow> history" where
  "Mem_AppendEvent ev es =
     AList.update (ev_InstanceID ev)
       ((case map_of es (ev_InstanceID ev) of None \<Rightarrow> [] | Some evs \<Rightarrow> evs) @ [ev]) es"

definition memoryEvents :: "history EventStore" where
  "memoryEvents = \<lparr>es_AppendEvent = (\<lambda>now cerr ev es. (None, Mem_AppendEvent ev es)),
     es_ListEvents = (\<lambda>cerr i es. Inr (Mem_ListEvents i es))\<rparr>"

interpretation mem_events: event_store memoryEvents "\<lambda>es i. Mem_ListEvents i es" "\<lambda>now ev. ev"
  by unfold_locales (auto simp: memoryEvents_def Mem_ListEvents_def Mem_AppendEvent_def)

section \<open>The registry\<close>

text \<open>The registry files every definition under its own name and version.\<close>

definition ws_inv :: "'u workflows \<Rightarrow> bool" where
  "ws_inv ws \<longleftrightarrow> distinct (keys ws) \<and>
     (\<forall>(n, vs) \<in> set ws. distinct (keys vs) \<and> (\<forall>(v, d) \<in> set vs. def_Name d = n \<and> def_Version d = v))"

lemma GetWorkflow_SaveWorkflow:
  assumes "GetWorkflow (def_Name def) (def_Version def) ws = Inl ErrWorkflowNotFound"
  shows "fst (SaveWorkflow def ws) = None"
    "GetWorkflow n v (snd (SaveWorkflow def ws)) =
       (if n = def_Name def \<and> v = def_Version def then Inr def else GetWorkflow n v ws)"
  using assms by (auto simp: GetWorkflow_def SaveWorkflow_def split: option.splits prod.splits if_splits)

lemma SaveWorkflow_exists:
  assumes "GetWorkflow (def_Name def) (def_Version def) ws = Inr d"
  shows "fst (SaveWorkflow def ws) \<noteq> None" "snd (SaveWorkflow def ws) = ws"
  using assms by (auto simp: GetWorkflow_def SaveWorkflow_def split: option.splits)

lemma ws_inv_SaveWorkflow:
  assumes "ws_inv ws"
  shows "ws_inv (snd (SaveWorkflow def ws))"
proof (cases "map_of ws (def_Name def)")
  case None
  with assms show ?thesis
    by (fastforce simp: ws_inv_def SaveWorkflow_def distinct_keys_update in_update_iff split: if_splits)
next
  case (Some vs)
  then have "(def_Name def, vs) \<in> set ws" by (rule map_of_SomeD)
  with assms have vs: "distinct (keys vs)" "\<forall>(v, d) \<in> set vs. def_Name d = def_Name def \<and> def_Version d = v"
    by (auto simp: ws_inv_def)
  with assms Some show ?thesis
    by (fastforce simp: ws_inv_def SaveWorkflow_def distinct_keys_update in_update_iff split: if_splits)
qed

lemma GetWorkflow_name:
  assumes "ws_inv ws" "GetWorkflow n v ws = Inr d"
  shows "def_Name d = n \<and> def_Version d = v"
  using assms by (auto simp: ws_inv_def GetWorkflow_def split: option.splits dest!: map_of_SomeD)

section \<open>The lease contract\<close>

text \<open>
  Every stored pointer is allocated and filed under the identifier of the object it points
  to, so no object is filed twice.
\<close>

definition mem_inv :: "heap \<times> instances \<Rightarrow> bool" where
  "mem_inv hs \<longleftrightarrow> distinct (keys (snd hs)) \<and>
     (\<forall>(i, a) \<in> set (snd hs). a < length (fst hs) \<and> inst_ID (deref (fst hs) a) = i)"

definition inst_lease :: "WorkflowInstance \<Rightarrow> lease" where
  "inst_lease inst = (if inst_LeaseOwner inst = '''' then Free
     else Leased (inst_LeaseOwner inst) (inst_LeaseExpiresAt inst))"

definition mem_lease :: "heap \<times> instances \<Rightarrow> string \<Rightarrow> lease option" where
  "mem_lease hs i = map_option (\<lambda>a. inst_lease (deref (fst hs) a)) (map_of (snd hs) i)"

lemma mem_inv_lookup:
  "mem_inv (h, s) \<Longrightarrow> map_of s i = Some a \<Longrightarrow> a < length h \<and> inst_ID (deref h a) = i"
  by (auto simp: mem_inv_def dest!: map_of_SomeD)

lemma mem_inv_assign:
  assumes "mem_inv (h, s)" and "\<And>x. inst_ID (f x) = inst_ID x"
  shows "mem_inv (assign a f h, s)"
proof -
  have "inst_ID (deref (assign a f h) b) = inst_ID (deref h b)" for b
    using assms(2) by (cases "a < length h"; cases "b = a") (auto simp: assign_def deref_def list_update_beyond)
  with assms(1) show ?thesis by (auto simp: mem_inv_def)
qed

lemma mem_lease_assign:
  assumes "mem_inv (h, s)" "map_of s i = Some a" "\<And>x. inst_ID (f x) = inst_ID x"
  shows "mem_lease (assign a f h, s) = (mem_lease (h, s))(i \<mapsto> inst_lease (f (deref h a)))"
proof
  fix j
  have a: "a < length h" "inst_ID (deref h a) = i" using mem_inv_lookup [OF assms(1,2)] by auto
  show "mem_lease (assign a f h, s) j = ((mem_lease (h, s))(i \<mapsto> inst_lease (f (deref h a)))) j"
  proof (cases "map_of s j")
    case None
    with assms(2) show ?thesis by (auto simp: mem_lease_def)
  next
    case (Some b)
    then have "inst_ID (deref h b) = j" using mem_inv_lookup [OF assms(1)] by blast
    with a Some assms(2) show ?thesis by (cases "b = a") (auto simp: mem_lease_def)
  qed
qed

text \<open>A lease recorded with the zero time counts as expired, as every real clock reading is later.\<close>

definition after_zero :: "time \<Rightarrow> bool" where
  "after_zero t \<longleftrightarrow> zero_time \<le> t"

lemma free_or_expired_iff:
  assumes "after_zero now" "owner \<noteq> ''''"
  shows "(inst_LeaseOwner inst = '''' \<or> IsZero (inst_LeaseExpiresAt inst) \<or>
     \<not> now < inst_LeaseExpiresAt inst \<or> inst_LeaseOwner inst = owner) \<longleftrightarrow>
     available now (inst_lease inst) \<or> (\<exists>x. inst_lease inst = Leased owner x)"
  using assms by (auto simp: inst_lease_def IsZero_def after_zero_def)

lemma mem_acquire:
  assumes "mem_inv hs" "after_zero now" "owner \<noteq> ''''"
    and "Mem_TryAcquireLease now None i owner ttl hs = (r, hs')"
  shows "mem_inv hs' \<and>
    (if \<exists>l. mem_lease hs i = Some l \<and> (available now l \<or> (\<exists>x. l = Leased owner x))
     then r = Inr True \<and> mem_lease hs' = (mem_lease hs)(i \<mapsto> Leased owner (now + ttl))
     else r \<noteq> Inr True \<and> mem_lease hs' = mem_lease hs)"
proof -
  obtain h s where hs: "hs = (h, s)" by (cases hs)
  show ?thesis
  proof (cases "map_of s i")
    case None
    with assms(1,4) hs show ?thesis by (auto simp: Mem_TryAcquireLease_def mem_lease_def)
  next
    case (Some a)
    let ?f = "\<lambda>x. x\<lparr>inst_LeaseOwner := owner, inst_LeaseExpiresAt := now + ttl\<rparr>"
    have l: "mem_lease hs i = Some (inst_lease (deref h a))" by (simp add: hs mem_lease_def Some)
    have upd: "mem_lease (assign a ?f h, s) = (mem_lease hs)(i \<mapsto> Leased owner (now + ttl))"
      using mem_lease_assign [of h s i a ?f] assms(1,3) Some by (simp add: hs inst_lease_def)
    have "mem_inv (assign a ?f h, s)" using mem_inv_assign [of h s ?f a] assms(1) by (simp add: hs)
    with upd assms(1,4) l free_or_expired_iff [OF assms(2,3), of "deref h a"] show ?thesis
      by (auto simp: Mem_TryAcquireLease_def hs Some Let_def simp del: available.simps split: if_splits)
  qed
qed

lemma mem_renew_lease:
  assumes "mem_inv hs" "owner \<noteq> ''''" "Mem_RenewLease now None i owner ttl hs = (e, hs')"
  shows "mem_inv hs' \<and>
    (if \<exists>x. mem_lease hs i = Some (Leased owner x)
     then e = None \<and> mem_lease hs' = (mem_lease hs)(i \<mapsto> Leased owner (now + ttl))
     else e \<noteq> None \<and> mem_lease hs' = mem_lease hs)"
proof -
  obtain h s where hs: "hs = (h, s)" by (cases hs)
  show ?thesis
  proof (cases "map_of s i")
    case None
    with assms hs show ?thesis by (auto simp: Mem_RenewLease_def mem_lease_def)
  next
    case (Some a)
    let ?f = "\<lambda>x. x\<lparr>inst_LeaseExpiresAt := now + ttl\<rparr>"
    have l: "mem_lease hs i = Some (inst_lease (deref h a))" by (simp add: hs mem_lease_def Some)
    have "mem_inv (assign a ?f h, s)" using mem_inv_assign [of h s ?f a] assms(1) by (simp add: hs)
    moreover have "mem_lease (assign a ?f h, s) = (mem_lease hs)(i \<mapsto> inst_lease (?f (deref h a)))"
      using mem_lease_assign [of h s i a ?f] assms(1) Some by (simp add: hs)
    ultimately show ?thesis
      using assms l by (auto simp: Mem_RenewLease_def hs Some inst_lease_def split: if_splits)
  qed
qed

lemma mem_release_lease:
  assumes "mem_inv hs" "owner \<noteq> ''''" "Mem_ReleaseLease cerr i owner hs = (e, hs')"
  shows "mem_inv hs' \<and>
    mem_lease hs' = (if \<exists>x. mem_lease hs i = Some (Leased owner x) then (mem_lease hs)(i \<mapsto> Free) else mem_lease hs)"
proof -
  obtain h s where hs: "hs = (h, s)" by (cases hs)
  show ?thesis
  proof (cases "map_of s i")
    case None
    with assms hs show ?thesis by (auto simp: Mem_ReleaseLease_def mem_lease_def)
  next
    case (Some a)
    let ?f = "\<lambda>x. x\<lparr>inst_LeaseOwner := '''', inst_LeaseExpiresAt := zero_time\<rparr>"
    have l: "mem_lease hs i = Some (inst_lease (deref h a))" by (simp add: hs mem_lease_def Some)
    have "mem_inv (assign a ?f h, s)" using mem_inv_assign [of h s ?f a] assms(1) by (simp add: hs)
    moreover have "mem_lease (assign a ?f h, s) = (mem_lease hs)(i \<mapsto> Free)"
      using mem_lease_assign [of h s i a ?f] assms(1) Some by (simp add: hs inst_lease_def)
    ultimately show ?thesis
      using assms l by (auto simp: Mem_ReleaseLease_def hs Some inst_lease_def split: if_splits)
  qed
qed

interpretation mem_leases: lease_store memoryStore mem_lease mem_inv after_zero
proof (unfold_locales, goal_cases)
  case (1 hs now ttl owner i r hs')
  then show ?case using mem_acquire [of hs now owner i ttl r hs'] by simp
next
  case (2 hs now ttl owner i e hs')
  then show ?case using mem_renew_lease [of hs owner now i ttl e hs'] by simp
next
  case (3 hs owner now i e hs')
  then show ?case using mem_release_lease [of hs owner None i e hs'] by simp
qed

interpretation mem_handles: lease_keeping_store memoryStore mem_lease mem_inv after_zero "\<lambda>ttl. 0 < ttl" "\<lambda>now ttl x. x = now + ttl"
proof (unfold_locales, goal_cases)
  case (1 h s now ttl owner i a h1 h2 s2 e s3)
  from 1(6) have a: "map_of s i = Some a" "h1 = h" by (auto simp: Mem_GetInstance_def split: option.splits)
  from 1 a mem_acquire [of "(h, s)" now owner i ttl "Inr True" "(h2, s2)"]
  have "mem_lease (h2, s2) i = Some (Leased owner (now + ttl))" and inv2: "mem_inv (h2, s2)"
    by (auto split: if_splits)
  moreover have s2: "s2 = s"
    using 1(7) by (auto simp: Mem_TryAcquireLease_def Let_def split: option.splits if_splits)
  moreover have "map_of s3 i = Some a"
    using 1(8) mem_inv_lookup [OF inv2] a s2
    by (auto simp: Mem_UpdateInstance_def split: if_splits)
  ultimately show ?case using a by (simp add: mem_lease_def)
qed

end
