(* ===== verification/Retry_Backoff.thy ===== *)
theory Retry_Backoff
  imports Api_Types "HOL-Library.Log_Nat"
begin

text \<open>
  Retry policies: the settings \<^verbatim>\<open>executeSteps\<close> of \<^verbatim>\<open>internal/engine/engine_impl.go\<close> derives
  from a step's \<^verbatim>\<open>RetryPolicy\<close>, the growth of the backoff through \<^verbatim>\<open>float64\<close> arithmetic, and
  the \<^verbatim>\<open>RetryBuilder\<close> of \<^verbatim>\<open>retry.go\<close>.
\<close>

section \<open>Floating point\<close>

text \<open>
  Rounding to the nearest \<^verbatim>\<open>float64\<close>, ties to even, of a non-negative rational: 53 significant
  bits. Values below one half have more precision in the hardware, but they only reach
  a conversion to an integer here, which truncates them to zero either way.
\<close>

definition round_half_even :: "rat \<Rightarrow> int" where
  "round_half_even x =
     (let n = \<lfloor>x\<rfloor>; f = x - of_int n in
      if f < 1 / 2 then n else if 1 / 2 < f then n + 1 else if even n then n else n + 1)"

definition f64_round :: "rat \<Rightarrow> rat" where
  "f64_round x =
     (let e = floorlog 2 (nat \<lfloor>x\<rfloor>) in of_int (round_half_even (x * 2 ^ 53 / 2 ^ e)) * 2 ^ e / 2 ^ 53)"

text \<open>
  \<^verbatim>\<open>time.Duration(float64(backoff) * multiplier)\<close>. The language leaves the conversion of a
  value outside the \<^verbatim>\<open>int64\<close> range to the implementation: \<open>conv\<close> is its result.
\<close>

definition nextBackoff :: "(rat \<Rightarrow> int) \<Rightarrow> duration \<Rightarrow> rat \<Rightarrow> duration" where
  "nextBackoff conv b m =
     (let p = f64_round (f64_round (of_int b) * m) in if p < 2 ^ 63 then \<lfloor>p\<rfloor> else conv p)"

section \<open>The retry settings of a step\<close>

record retry_settings =
  rs_maxAttempts :: int
  rs_backoff :: duration
  rs_maxBackoff :: duration
  rs_multiplier :: rat

definition step_settings :: "RetryPolicy option \<Rightarrow> retry_settings" where
  "step_settings retry =
     (case retry of
        None \<Rightarrow> \<lparr>rs_maxAttempts = 1, rs_backoff = 0, rs_maxBackoff = 0, rs_multiplier = 0\<rparr>
      | Some r \<Rightarrow>
          \<lparr>rs_maxAttempts = (if rp_MaxAttempts r > 0 then rp_MaxAttempts r else 1),
           rs_backoff = (if rp_InitialBackoff r \<le> 0 then rp_Backoff r else rp_InitialBackoff r),
           rs_maxBackoff = rp_MaxBackoff r,
           rs_multiplier = (if rp_BackoffMultiplier r \<le> 0 then 2 else rp_BackoffMultiplier r)\<rparr>)"

definition attempt_delay :: "retry_settings \<Rightarrow> duration \<Rightarrow> duration" where
  "attempt_delay rs backoff =
     (if rs_maxBackoff rs > 0 \<and> backoff > rs_maxBackoff rs then rs_maxBackoff rs else backoff)"

definition grow_backoff :: "(rat \<Rightarrow> int) \<Rightarrow> retry_settings \<Rightarrow> duration \<Rightarrow> duration" where
  "grow_backoff conv rs backoff =
     (if rs_multiplier rs > 0 then
        let nb = nextBackoff conv backoff (rs_multiplier rs) in
        if rs_maxBackoff rs > 0 \<and> nb > rs_maxBackoff rs then rs_maxBackoff rs else nb
      else backoff)"

text \<open>The delays slept before the second, third, \dots attempt of a step that keeps failing.\<close>

fun retry_delays :: "(rat \<Rightarrow> int) \<Rightarrow> retry_settings \<Rightarrow> nat \<Rightarrow> duration \<Rightarrow> duration list" where
  "retry_delays conv rs 0 backoff = []"
| "retry_delays conv rs (Suc n) backoff =
     (if backoff > 0 then attempt_delay rs backoff # retry_delays conv rs n (grow_backoff conv rs backoff)
      else 0 # retry_delays conv rs n backoff)"

section \<open>The builder\<close>

record RetryBuilder =
  rb_policy :: RetryPolicy

definition Retry :: "int \<Rightarrow> RetryBuilder" where
  "Retry maxAttempts =
     \<lparr>rb_policy = \<lparr>rp_MaxAttempts = (if maxAttempts \<le> 0 then 1 else maxAttempts), rp_Backoff = 0,
        rp_InitialBackoff = 0, rp_MaxBackoff = 0, rp_BackoffMultiplier = 0\<rparr>\<rparr>"

definition WithExponentialBackoff :: "duration \<Rightarrow> rat \<Rightarrow> duration \<Rightarrow> RetryBuilder \<Rightarrow> RetryBuilder" where
  "WithExponentialBackoff initial multiplier mx r =
     \<lparr>rb_policy = (rb_policy r)\<lparr>rp_InitialBackoff := initial, rp_MaxBackoff := mx,
        rp_BackoffMultiplier := (if multiplier \<le> 0 then 2 else multiplier)\<rparr>\<rparr>"

definition WithConstantBackoff :: "duration \<Rightarrow> RetryBuilder \<Rightarrow> RetryBuilder" where
  "WithConstantBackoff delay r =
     \<lparr>rb_policy = (rb_policy r)\<lparr>rp_InitialBackoff := delay, rp_MaxBackoff := 0,
        rp_BackoffMultiplier := 1\<rparr>\<rparr>"

definition Immediate :: "RetryBuilder \<Rightarrow> RetryBuilder" where
  "Immediate r =
     \<lparr>rb_policy = (rb_policy r)\<lparr>rp_InitialBackoff := 0, rp_MaxBackoff := 0,
        rp_BackoffMultiplier := 0, rp_Backoff := 0\<rparr>\<rparr>"

definition Policy :: "RetryBuilder \<Rightarrow> RetryPolicy" where
  "Policy r = rb_policy r"

section \<open>Exact arithmetic below two to the 53\<close>

lemma round_half_even_int [simp]: "round_half_even (of_int n) = n"
  by (simp add: round_half_even_def Let_def)

lemma f64_round_int:
  assumes "0 \<le> n" "n < 2 ^ 53"
  shows "f64_round (of_int n) = of_int n"
proof -
  define e where "e = floorlog 2 (nat n)"
  have "e \<le> 53"
  proof (cases "nat n = 0")
    case True
    then show ?thesis by (simp add: e_def floorlog_def)
  next
    case False
    have "nat n < 2 ^ 53" using assms by (simp add: nat_less_iff)
    with False show ?thesis by (simp add: e_def floorlog_le_iff)
  qed
  then obtain k where k: "53 = k + e" by (metis le_add_diff_inverse2)
  have p: "(2::rat) ^ 53 = 2 ^ k * 2 ^ e" using k by (metis power_add)
  have "of_int n * 2 ^ 53 / 2 ^ e = (of_int (n * 2 ^ k) :: rat)" unfolding p by simp
  then have "round_half_even (of_int n * 2 ^ 53 / 2 ^ e) = n * 2 ^ k" using round_half_even_int by metis
  then have "f64_round (of_int n) = of_int (n * 2 ^ k) * 2 ^ e / 2 ^ 53"
    by (simp only: f64_round_def Let_def floor_of_int e_def)
  then show ?thesis unfolding p by simp
qed

lemma nextBackoff_exact:
  assumes "0 \<le> b" "0 < k" "b * k < 2 ^ 53"
  shows "nextBackoff conv b (of_int k) = b * k"
proof -
  have "b \<le> b * k" using assms(1,2) by (simp add: mult_le_cancel_left1)
  then have "f64_round (of_int b) = of_int b" using f64_round_int assms by auto
  moreover have "f64_round (of_int (b * k)) = of_int (b * k)"
    by (rule f64_round_int) (use assms in auto)
  ultimately have "f64_round (f64_round (of_int b) * of_int k) = of_int (b * k)"
    by (metis of_int_mult)
  moreover have "(of_int (b * k) :: rat) < of_int (2 ^ 63)"
    unfolding of_int_less_iff using assms(3) by simp
  then have "(of_int (b * k) :: rat) < 2 ^ 63" by (simp only: of_int_power of_int_numeral)
  ultimately show ?thesis by (simp only: nextBackoff_def Let_def floor_of_int if_True)
qed

text \<open>
  The documented schedule: with an integral multiplier the delays are the initial backoff
  times its powers, capped; a cap keeps the arithmetic in the exact range for ever.
\<close>

definition capped :: "duration \<Rightarrow> duration \<Rightarrow> duration" where
  "capped mx d = (if mx > 0 then min mx d else d)"

lemma attempt_delay_capped: "attempt_delay rs b = capped (rs_maxBackoff rs) b"
  by (auto simp: attempt_delay_def capped_def)

lemma grow_backoff_capped:
  assumes "0 < b" "0 < k" "rs_multiplier rs = of_int k" "b * k < 2 ^ 53"
  shows "grow_backoff conv rs b = capped (rs_maxBackoff rs) (b * k)"
  using assms nextBackoff_exact [of b k conv] by (auto simp: grow_backoff_def capped_def Let_def min_def)

lemma capped_pos: "0 < d \<Longrightarrow> 0 < capped mx d"
  by (simp add: capped_def)

lemma capped_mult:
  "0 < k \<Longrightarrow> 0 < d \<Longrightarrow> capped mx (capped mx d * k) = capped mx (d * k)" for k d mx :: int
proof -
  assume a: "0 < k" "0 < d"
  then have d: "d \<le> d * k" "0 < mx \<Longrightarrow> mx \<le> mx * k" by (simp_all add: mult_le_cancel_left1)
  show ?thesis
  proof (cases "0 < mx \<and> mx \<le> d")
    case True
    then have "mx \<le> d * k" using d(1) by linarith
    with True d show ?thesis by (simp add: capped_def)
  next
    case False
    then show ?thesis by (auto simp: capped_def)
  qed
qed

lemma retry_delays_capped:
  assumes "0 < rs_maxBackoff rs" "0 < k" "rs_multiplier rs = of_int k"
    and "rs_maxBackoff rs * k < 2 ^ 53" and "0 < b" "b \<le> rs_maxBackoff rs"
  shows "retry_delays conv rs n b = map (\<lambda>i. min (rs_maxBackoff rs) (b * k ^ i)) [0..<n]"
  using assms(5,6)
proof (induction n arbitrary: b)
  case (Suc n)
  let ?m = "rs_maxBackoff rs"
  have bk: "b * k \<le> ?m * k" using Suc.prems assms(2) by simp
  then have "b * k < 2 ^ 53" using assms(4) by linarith
  then have g: "grow_backoff conv rs b = min ?m (b * k)"
    using grow_backoff_capped [of b k rs conv] Suc.prems assms(1-3) by (simp add: capped_def)
  have "0 < min ?m (b * k)" using Suc.prems assms by simp
  then have IH: "retry_delays conv rs n (min ?m (b * k)) = map (\<lambda>i. min ?m (min ?m (b * k) * k ^ i)) [0..<n]"
    by (rule Suc.IH) simp
  have "min ?m (min ?m (b * k) * k ^ i) = min ?m (b * k ^ Suc i)" for i
    using capped_mult [of "k ^ i" "b * k" ?m] Suc.prems assms
    by (simp add: capped_def min.commute mult.assoc)
  then have "retry_delays conv rs (Suc n) b = b # map (\<lambda>i. min ?m (b * k ^ Suc i)) [0..<n]"
    using Suc.prems IH g by (simp add: attempt_delay_def)
  also have "\<dots> = map (\<lambda>i. min ?m (b * k ^ i)) (0 # map Suc [0..<n])"
    using Suc.prems by simp
  also have "0 # map Suc [0..<n] = [0..<Suc n]" by (metis map_Suc_upt upt_conv_Cons zero_less_Suc)
  finally show ?case .
qed simp

lemma retry_delays_bound:
  assumes "0 < rs_maxBackoff rs" "d \<in> set (retry_delays conv rs n b)"
  shows "d \<le> rs_maxBackoff rs \<and> 0 \<le> d"
  using assms(2) by (induction n arbitrary: b)
    (use assms(1) in \<open>auto simp: attempt_delay_def split: if_splits\<close>)

lemma retry_delays_constant:
  assumes "0 < b" "b < 2 ^ 53" "rs_multiplier rs = 1" "rs_maxBackoff rs \<le> 0"
  shows "retry_delays conv rs n b = replicate n b"
proof (induction n)
  case (Suc n)
  have "grow_backoff conv rs b = b"
    using grow_backoff_capped [of b 1 rs conv] assms by (simp add: capped_def)
  with Suc assms show ?case by (simp add: attempt_delay_def)
qed simp

lemma length_retry_delays [simp]: "length (retry_delays conv rs n b) = n"
  by (induction n arbitrary: b) auto

end
