(* ===== verification/Engine_Core.thy ===== *)
theory Engine_Core
  imports Memory_Store Retry_Backoff
begin

text \<open>
  The engine of \<^verbatim>\<open>internal/engine/engine_impl.go\<close>: its configuration, the world it acts on,
  its lease, event and observer helpers, and \<^verbatim>\<open>executeSteps\<close> with one definition per branch.
  How a step function is run is an argument (\<open>runner\<close>); theory \<open>Engine\<close> ties the knot for
  steps that call back into the engine.
\<close>

section \<open>The engine and its world\<close>

text \<open>What \<^verbatim>\<open>debug.ReadBuildInfo\<close> reports, and what the fingerprint is computed from.\<close>

record build_info =
  bi_Revision :: string
  bi_Modified :: bool
  bi_Module :: string
  bi_Version :: string

record stepFingerprint =
  fp_Name :: string
  fp_Retry :: "RetryPolicy option"
  fp_FuncName :: string

record fingerprint_payload =
  pl_Name :: string
  pl_Version :: string
  pl_Build :: build_info
  pl_Steps :: "stepFingerprint list"

text \<open>
  \<open>e_digest\<close> is the hexadecimal SHA-256 of the JSON encoding of the payload and \<open>e_build\<close> the
  build information of the running binary; \<open>e_conv\<close> is the platform's conversion of a
  \<^verbatim>\<open>float64\<close> outside the \<^verbatim>\<open>int64\<close> range. The remaining fields are those of \<^verbatim>\<open>engineImpl\<close>.
\<close>

record ('s, 'q, 'e) engineImpl =
  e_instances :: "'s InstanceStore"
  e_events :: "'e EventStore option"
  e_queue :: "'q Queue option"
  e_engineID :: string
  e_leaseTTL :: duration
  e_digest :: "fingerprint_payload \<Rightarrow> string"
  e_build :: build_info
  e_conv :: "rat \<Rightarrow> int"

text \<open>An observer callback, with the state of the instance at that moment.\<close>

datatype callback =
    OnWorkflowStart WorkflowInstance
  | OnWorkflowCompleted WorkflowInstance
  | OnWorkflowFailed WorkflowInstance goerr
  | OnStepStart WorkflowInstance string nat
  | OnStepCompleted WorkflowInstance string nat "goerr option" duration

text \<open>
  The mutable state: instance objects, clock, registered workflows, instance store, event
  store, task queue, the callbacks made to the observer, the identifier counter (\<^verbatim>\<open>int64\<close>)
  and the world outside the engine that step functions act on.
\<close>

record ('s, 'q, 'e, 'u) world =
  w_heap :: heap
  w_clock :: time
  w_workflows :: "'u workflows"
  w_store :: 's
  w_events :: 'e
  w_queue :: 'q
  w_log :: "callback list"
  w_nextID :: int
  w_extern :: 'u

type_synonym ('s, 'q, 'e, 'u) runner =
  "'u StepFunc option \<Rightarrow> ctx \<Rightarrow> anyv \<Rightarrow> ('s, 'q, 'e, 'u) world
     \<Rightarrow> (goerr + anyv) res \<times> ('s, 'q, 'e, 'u) world"

type_synonym ('s, 'q, 'e, 'u) outcome =
  "(addr option \<times> goerr option) res \<times> ('s, 'q, 'e, 'u) world"

section \<open>Helpers\<close>

definition w_inst :: "('s, 'q, 'e, 'u) world \<Rightarrow> addr \<Rightarrow> WorkflowInstance" where
  "w_inst w a = deref (w_heap w) a"

definition set_inst :: "addr \<Rightarrow> (WorkflowInstance \<Rightarrow> WorkflowInstance) \<Rightarrow> ('s, 'q, 'e, 'u) world \<Rightarrow> ('s, 'q, 'e, 'u) world" where
  "set_inst a f w = w\<lparr>w_heap := assign a f (w_heap w)\<rparr>"

definition observe :: "callback \<Rightarrow> ('s, 'q, 'e, 'u) world \<Rightarrow> ('s, 'q, 'e, 'u) world" where
  "observe cb w = w\<lparr>w_log := w_log w @ [cb]\<rparr>"

definition update_instance :: "('s, 'q, 'e) engineImpl \<Rightarrow> addr \<Rightarrow> ('s, 'q, 'e, 'u) world
     \<Rightarrow> goerr option \<times> ('s, 'q, 'e, 'u) world" where
  "update_instance e a w =
     (let (err, s) = is_UpdateInstance (e_instances e) a (w_heap w) (w_store w) in (err, w\<lparr>w_store := s\<rparr>))"

definition emitEvent :: "('s, 'q, 'e) engineImpl \<Rightarrow> ctx \<Rightarrow> addr \<Rightarrow> EventType \<Rightarrow> int \<Rightarrow> string
     \<Rightarrow> ('s, 'q, 'e, 'u) world \<Rightarrow> ('s, 'q, 'e, 'u) world" where
  "emitEvent e c a typ step detail w =
     (case e_events e of
        None \<Rightarrow> w
      | Some es \<Rightarrow>
          w\<lparr>w_events := snd (es_AppendEvent es (w_clock w) (ctx_Err c (w_clock w))
             \<lparr>ev_InstanceID = inst_ID (w_inst w a), ev_At = w_clock w, ev_Type = typ,
              ev_WorkflowName = inst_Name (w_inst w a), ev_WorkflowVersion = inst_Version (w_inst w a),
              ev_Step = step, ev_Detail = detail\<rparr> (w_events w))\<rparr>)"

definition nextInstanceID :: "('s, 'q, 'e, 'u) world \<Rightarrow> string \<times> ('s, 'q, 'e, 'u) world" where
  "nextInstanceID w =
     (let n = signed_take_bit 63 (w_nextID w + 1) in (''wf-'' @ FormatInt n, w\<lparr>w_nextID := n\<rparr>))"

definition acquireInstanceLease :: "('s, 'q, 'e) engineImpl \<Rightarrow> ctx \<Rightarrow> string \<Rightarrow> ('s, 'q, 'e, 'u) world
     \<Rightarrow> goerr option \<times> ('s, 'q, 'e, 'u) world" where
  "acquireInstanceLease e c i w =
     (let (r, h, s) = is_TryAcquireLease (e_instances e) (w_clock w) (ctx_Err c (w_clock w)) i
                        (e_engineID e) (e_leaseTTL e) (w_heap w, w_store w)
      in (case r of Inl err \<Rightarrow> Some err | Inr acquired \<Rightarrow> if \<not> acquired then Some ErrWorkflowInstanceLocked else None,
          w\<lparr>w_heap := h, w_store := s\<rparr>))"

definition renewInstanceLease :: "('s, 'q, 'e) engineImpl \<Rightarrow> ctx \<Rightarrow> string \<Rightarrow> ('s, 'q, 'e, 'u) world
     \<Rightarrow> ('s, 'q, 'e, 'u) world" where
  "renewInstanceLease e c i w =
     (let (r, h, s) = is_RenewLease (e_instances e) (w_clock w) (ctx_Err c (w_clock w)) i
                        (e_engineID e) (e_leaseTTL e) (w_heap w, w_store w)
      in w\<lparr>w_heap := h, w_store := s\<rparr>)"

definition releaseInstanceLease :: "('s, 'q, 'e) engineImpl \<Rightarrow> ctx \<Rightarrow> string \<Rightarrow> ('s, 'q, 'e, 'u) world
     \<Rightarrow> ('s, 'q, 'e, 'u) world" where
  "releaseInstanceLease e c i w =
     (let (r, h, s) = is_ReleaseLease (e_instances e) (w_clock w) (ctx_Err c (w_clock w)) i (e_engineID e)
                        (w_heap w, w_store w)
      in w\<lparr>w_heap := h, w_store := s\<rparr>)"

section \<open>Fingerprints\<close>

definition step_fingerprint :: "'u StepDefinition \<Rightarrow> stepFingerprint" where
  "step_fingerprint s = \<lparr>fp_Name = step_Name s, fp_Retry = step_Retry s,
     fp_FuncName = (case step_Fn s of None \<Rightarrow> '''' | Some f \<Rightarrow> fn_name f)\<rparr>"

definition ComputeWorkflowFingerprintStrict :: "('s, 'q, 'e) engineImpl \<Rightarrow> 'u WorkflowDefinition \<Rightarrow> string" where
  "ComputeWorkflowFingerprintStrict e def =
     e_digest e \<lparr>pl_Name = def_Name def, pl_Version = def_Version def, pl_Build = e_build e,
       pl_Steps = map step_fingerprint (def_Steps def)\<rparr>"

definition validateWorkflowFingerprint :: "('s, 'q, 'e) engineImpl \<Rightarrow> 'u WorkflowDefinition \<Rightarrow> goerr option" where
  "validateWorkflowFingerprint e def =
     (if def_Fingerprint def = '''' then None
      else if ComputeWorkflowFingerprintStrict e def \<noteq> def_Fingerprint def then Some ErrWorkflowDefinitionMismatch
      else None)"

section \<open>Executing steps\<close>

text \<open>How the attempts of one step end: go on with a value, or leave \<^verbatim>\<open>executeSteps\<close>.\<close>

datatype step_outcome =
    Advance anyv
  | Stop goerr
  | StepPanicked string
  | StepNoFuel

text \<open>The context is done before an attempt (\<open>notify\<close>) or during the backoff (not \<open>notify\<close>).\<close>

definition cancel_step :: "('s, 'q, 'e) engineImpl \<Rightarrow> ctx \<Rightarrow> addr \<Rightarrow> nat \<Rightarrow> string \<Rightarrow> bool \<Rightarrow> goerr
     \<Rightarrow> ('s, 'q, 'e, 'u) world \<Rightarrow> ('s, 'q, 'e, 'u) world" where
  "cancel_step e c a i name notify err w =
     (let w1 = set_inst a (\<lambda>x. x\<lparr>inst_Status := StatusFailed, inst_Err := Some err\<rparr>) w;
          w2 = snd (update_instance e a w1);
          w3 = emitEvent e c a EventStepFailed (int i) (name @ '': '' @ Error err) w2;
          w4 = emitEvent e c a EventWorkflowFailed (- 1) (Error err) w3
      in if notify then observe (OnWorkflowFailed (w_inst w4 a) err) w4 else w4)"

definition succeed_step :: "('s, 'q, 'e) engineImpl \<Rightarrow> ctx \<Rightarrow> addr \<Rightarrow> nat \<Rightarrow> string \<Rightarrow> anyv
     \<Rightarrow> ('s, 'q, 'e, 'u) world \<Rightarrow> ('s, 'q, 'e, 'u) world" where
  "succeed_step e c a i name next w =
     (let w1 = set_inst a (\<lambda>x. x\<lparr>inst_StepResults :=
                 Some ((case inst_StepResults x of None \<Rightarrow> Map.empty | Some m \<Rightarrow> m)(i \<mapsto> next))\<rparr>) w;
          w2 = snd (update_instance e a w1)
      in emitEvent e c a EventStepCompleted (int i) name w2)"

definition park_signal :: "('s, 'q, 'e) engineImpl \<Rightarrow> ctx \<Rightarrow> addr \<Rightarrow> nat \<Rightarrow> string \<Rightarrow> bool
     \<Rightarrow> ('s, 'q, 'e, 'u) world \<Rightarrow> ('s, 'q, 'e, 'u) world" where
  "park_signal e c a i name returnPayload w =
     (let w1 = set_inst a (\<lambda>x. x\<lparr>inst_Status := StatusWaiting, inst_Err := None,
                 inst_Output := WaitMeta ''signal'' returnPayload\<rparr>) w;
          w2 = snd (update_instance e a w1);
          w3 = emitEvent e c a EventWorkflowWaiting (int i) name w2
      in releaseInstanceLease e Background (inst_ID (w_inst w3 a)) w3)"

definition park_children :: "('s, 'q, 'e) engineImpl \<Rightarrow> ctx \<Rightarrow> addr \<Rightarrow> nat \<Rightarrow> string
     \<Rightarrow> ('s, 'q, 'e, 'u) world \<Rightarrow> ('s, 'q, 'e, 'u) world" where
  "park_children e c a i name w =
     (let w1 = set_inst a (\<lambda>x. x\<lparr>inst_Status := StatusWaiting, inst_Err := None\<rparr>) w;
          w2 = snd (update_instance e a w1);
          w3 = emitEvent e c a EventWorkflowWaiting (int i) name w2
      in releaseInstanceLease e Background (inst_ID (w_inst w3 a)) w3)"

definition park_any_child :: "('s, 'q, 'e) engineImpl \<Rightarrow> addr \<Rightarrow> ('s, 'q, 'e, 'u) world \<Rightarrow> ('s, 'q, 'e, 'u) world" where
  "park_any_child e a w =
     (let w1 = set_inst a (\<lambda>x. x\<lparr>inst_Status := StatusWaiting, inst_Err := None\<rparr>) w;
          w2 = snd (update_instance e a w1)
      in releaseInstanceLease e Background (inst_ID (w_inst w2 a)) w2)"

definition fail_step :: "('s, 'q, 'e) engineImpl \<Rightarrow> ctx \<Rightarrow> addr \<Rightarrow> nat \<Rightarrow> string \<Rightarrow> goerr
     \<Rightarrow> ('s, 'q, 'e, 'u) world \<Rightarrow> ('s, 'q, 'e, 'u) world" where
  "fail_step e c a i name err w =
     (let w1 = set_inst a (\<lambda>x. x\<lparr>inst_Status := StatusFailed, inst_Err := Some err\<rparr>) w;
          w2 = snd (update_instance e a w1);
          w3 = emitEvent e c a EventStepFailed (int i) (name @ '': '' @ Error err) w2;
          w4 = emitEvent e c a EventWorkflowFailed (- 1) (Error err) w3;
          w5 = observe (OnWorkflowFailed (w_inst w4 a) err) w4
      in releaseInstanceLease e Background (inst_ID (w_inst w5 a)) w5)"

definition complete_workflow :: "('s, 'q, 'e) engineImpl \<Rightarrow> ctx \<Rightarrow> addr \<Rightarrow> nat \<Rightarrow> anyv
     \<Rightarrow> ('s, 'q, 'e, 'u) world \<Rightarrow> ('s, 'q, 'e, 'u) world" where
  "complete_workflow e c a n current w =
     (let w1 = set_inst a (\<lambda>x. x\<lparr>inst_Status := StatusCompleted, inst_Output := current, inst_CurrentStep := n\<rparr>) w;
          w2 = snd (update_instance e a w1);
          w3 = emitEvent e c a EventWorkflowCompleted (- 1) '''' w2;
          w4 = observe (OnWorkflowCompleted (w_inst w3 a)) w3
      in releaseInstanceLease e Background (inst_ID (w_inst w4 a)) w4)"

text \<open>One invocation of the step function between the two observer callbacks.\<close>

definition invoke_step :: "('s, 'q, 'e, 'u) runner \<Rightarrow> ctx \<Rightarrow> addr \<Rightarrow> nat \<Rightarrow> 'u StepDefinition \<Rightarrow> anyv
     \<Rightarrow> ('s, 'q, 'e, 'u) world \<Rightarrow> (goerr + anyv) res \<times> ('s, 'q, 'e, 'u) world" where
  "invoke_step R c a i step current w =
     (let w1 = observe (OnStepStart (w_inst w a) (step_Name step) i) w in
      case R (step_Fn step) c current w1 of
        (Done r, w2) \<Rightarrow>
          (Done r, observe (OnStepCompleted (w_inst w2 a) (step_Name step) i
             (case r of Inl err \<Rightarrow> Some err | Inr _ \<Rightarrow> None) (w_clock w2 - w_clock w)) w2)
      | (Panicked s, w2) \<Rightarrow> (Panicked s, w2)
      | (NoFuel, w2) \<Rightarrow> (NoFuel, w2))"

text \<open>
  The attempts of one step. \<open>left\<close> is \<^verbatim>\<open>maxAttempts - attempt\<close>, so \<^verbatim>\<open>attempt == maxAttempts\<close> is
  \<open>left = 0\<close>; \<open>backoff\<close> is the current backoff.
\<close>

fun attempt_loop :: "('s, 'q, 'e) engineImpl \<Rightarrow> ('s, 'q, 'e, 'u) runner \<Rightarrow> ctx \<Rightarrow> addr \<Rightarrow> nat \<Rightarrow> 'u StepDefinition
     \<Rightarrow> retry_settings \<Rightarrow> nat \<Rightarrow> duration \<Rightarrow> anyv \<Rightarrow> ('s, 'q, 'e, 'u) world
     \<Rightarrow> step_outcome \<times> ('s, 'q, 'e, 'u) world" where
  "attempt_loop e R c a i step rs left backoff current w =
     (case ctx_Err c (w_clock w) of
        Some cerr \<Rightarrow> (Stop cerr, cancel_step e c a i (step_Name step) True cerr w)
      | None \<Rightarrow>
        (case invoke_step R (WithEngine c) a i step current w of
           (Panicked s, w1) \<Rightarrow> (StepPanicked s, w1)
         | (NoFuel, w1) \<Rightarrow> (StepNoFuel, w1)
         | (Done (Inr next), w1) \<Rightarrow>
             (Advance next, succeed_step e (WithEngine c) a i (step_Name step) next w1)
         | (Done (Inl err), w1) \<Rightarrow>
             (case WaitForSignalMeta err of
                Some (n, returnPayload) \<Rightarrow>
                  (Stop err, park_signal e (WithEngine c) a i (step_Name step) returnPayload w1)
              | None \<Rightarrow>
                if AsWaitForChildren err then
                  (Stop err, park_children e (WithEngine c) a i (step_Name step) w1)
                else if IsWaitForAnyChildError err then (Stop err, park_any_child e a w1)
                else (case left of
                   0 \<Rightarrow> (Stop err, fail_step e (WithEngine c) a i (step_Name step) err w1)
                 | Suc left' \<Rightarrow>
                     if backoff > 0 then
                       (case select_sleep c (attempt_delay rs backoff) (w_clock w1) of
                          (Some cerr, t) \<Rightarrow>
                            (Stop cerr, cancel_step e c a i (step_Name step) False cerr (w1\<lparr>w_clock := t\<rparr>))
                        | (None, t) \<Rightarrow>
                            attempt_loop e R c a i step rs left' (grow_backoff (e_conv e) rs backoff) current
                              (w1\<lparr>w_clock := t\<rparr>))
                     else attempt_loop e R c a i step rs left' backoff current w1))))"

declare attempt_loop.simps [simp del]

definition run_attempts :: "('s, 'q, 'e) engineImpl \<Rightarrow> ('s, 'q, 'e, 'u) runner \<Rightarrow> ctx \<Rightarrow> addr \<Rightarrow> nat
     \<Rightarrow> 'u StepDefinition \<Rightarrow> anyv \<Rightarrow> ('s, 'q, 'e, 'u) world \<Rightarrow> step_outcome \<times> ('s, 'q, 'e, 'u) world" where
  "run_attempts e R c a i step current w =
     (let rs = step_settings (step_Retry step)
      in attempt_loop e R c a i step rs (nat (rs_maxAttempts rs) - 1) (rs_backoff rs) current w)"

text \<open>The step before its attempts: renew the lease, then skip a cached step or announce it.\<close>

definition skip_cached :: "('s, 'q, 'e) engineImpl \<Rightarrow> addr \<Rightarrow> nat \<Rightarrow> ('s, 'q, 'e, 'u) world \<Rightarrow> ('s, 'q, 'e, 'u) world" where
  "skip_cached e a i w = snd (update_instance e a (set_inst a (\<lambda>x. x\<lparr>inst_CurrentStep := i + 1\<rparr>) w))"

definition enter_step :: "('s, 'q, 'e) engineImpl \<Rightarrow> ctx \<Rightarrow> addr \<Rightarrow> nat \<Rightarrow> string
     \<Rightarrow> ('s, 'q, 'e, 'u) world \<Rightarrow> ('s, 'q, 'e, 'u) world" where
  "enter_step e c a i name w =
     emitEvent e c a EventStepStarted (int i) name
       (snd (update_instance e a (set_inst a (\<lambda>x. x\<lparr>inst_CurrentStep := i\<rparr>) w)))"

text \<open>The steps from index \<open>i\<close> on.\<close>

fun step_loop :: "('s, 'q, 'e) engineImpl \<Rightarrow> ('s, 'q, 'e, 'u) runner \<Rightarrow> ctx \<Rightarrow> addr \<Rightarrow> nat \<Rightarrow> 'u StepDefinition list
     \<Rightarrow> anyv \<Rightarrow> ('s, 'q, 'e, 'u) world \<Rightarrow> step_outcome \<times> ('s, 'q, 'e, 'u) world" where
  "step_loop e R c a i [] current w = (Advance current, w)"
| "step_loop e R c a i (step # steps) current w =
     (let w1 = renewInstanceLease e c (inst_ID (w_inst w a)) w in
      case cached (w_inst w1 a) i of
        Some v \<Rightarrow> step_loop e R c a (Suc i) steps v (skip_cached e a i w1)
      | None \<Rightarrow>
          (case run_attempts e R c a i step current (enter_step e c a i (step_Name step) w1) of
             (Advance v, w2) \<Rightarrow> step_loop e R c a (Suc i) steps v w2
           | (r, w2) \<Rightarrow> (r, w2)))"

definition executeSteps :: "('s, 'q, 'e) engineImpl \<Rightarrow> ('s, 'q, 'e, 'u) runner \<Rightarrow> ctx \<Rightarrow> 'u WorkflowDefinition \<Rightarrow> addr
     \<Rightarrow> nat \<Rightarrow> anyv \<Rightarrow> ('s, 'q, 'e, 'u) world \<Rightarrow> ('s, 'q, 'e, 'u) outcome" where
  "executeSteps e R c def a startIndex input w =
     (case step_loop e R c a startIndex (drop startIndex (def_Steps def)) input w of
        (Advance v, w1) \<Rightarrow> (Done (Some a, None), complete_workflow e c a (length (def_Steps def)) v w1)
      | (Stop err, w1) \<Rightarrow> (Done (Some a, Some err), w1)
      | (StepPanicked s, w1) \<Rightarrow> (Panicked s, w1)
      | (StepNoFuel, w1) \<Rightarrow> (NoFuel, w1))"

end
