(* ===== verification/Engine.thy ===== *)
theory Engine
  imports Engine_Core
begin

text \<open>
  The operations of \<^verbatim>\<open>api.Engine\<close>, \<^verbatim>\<open>AsyncStarter\<close>, \<^verbatim>\<open>HistoryReader\<close> and \<^verbatim>\<open>WorkerDirect\<close> as
  \<^verbatim>\<open>engineImpl\<close> implements them, and the runner that lets a step call back into the engine.
\<close>

section \<open>Construction and registration\<close>

record ('s, 'q, 'e) Config =
  cfg_Instances :: "'s InstanceStore"
  cfg_Events :: "'e EventStore option"
  cfg_Queue :: "'q Queue option"
  cfg_EngineID :: string
  cfg_LeaseTTL :: duration

text \<open>
  \<open>rnd\<close> is the identifier \<^verbatim>\<open>randomEngineID\<close> draws; digest, build information and conversion are
  the platform's.
\<close>

definition NewEngineWithConfig :: "string \<Rightarrow> (fingerprint_payload \<Rightarrow> string) \<Rightarrow> build_info \<Rightarrow> (rat \<Rightarrow> int)
     \<Rightarrow> ('s, 'q, 'e) Config \<Rightarrow> ('s, 'q, 'e) engineImpl" where
  "NewEngineWithConfig rnd digest build conv cfg =
     \<lparr>e_instances = cfg_Instances cfg, e_events = cfg_Events cfg, e_queue = cfg_Queue cfg,
      e_engineID = (if cfg_EngineID cfg = '''' then ''engine-'' @ rnd else cfg_EngineID cfg),
      e_leaseTTL = (if cfg_LeaseTTL cfg \<le> 0 then 30 * Second else cfg_LeaseTTL cfg),
      e_digest = digest, e_build = build, e_conv = conv\<rparr>"

text \<open>The definition that is registered: default version and fingerprint filled in.\<close>

definition normalize_def :: "('s, 'q, 'e) engineImpl \<Rightarrow> 'u WorkflowDefinition \<Rightarrow> 'u WorkflowDefinition" where
  "normalize_def e def =
     (let def1 = (if def_Version def = '''' then def\<lparr>def_Version := ''v1''\<rparr> else def)
      in if def_Fingerprint def1 = '''' then def1\<lparr>def_Fingerprint := ComputeWorkflowFingerprintStrict e def1\<rparr>
         else def1)"

definition RegisterWorkflow :: "('s, 'q, 'e) engineImpl \<Rightarrow> 'u WorkflowDefinition \<Rightarrow> ('s, 'q, 'e, 'u) world
     \<Rightarrow> goerr option \<times> ('s, 'q, 'e, 'u) world" where
  "RegisterWorkflow e def w =
     (if def_Name def = '''' then (Some (ErrMsg ''workflow name is required''), w)
      else if def_Steps def = [] then (Some (ErrMsg ''workflow must have at least one step''), w)
      else
        let def2 = normalize_def e def;
            save = (let (err, ws) = SaveWorkflow def2 (w_workflows w) in (err, w\<lparr>w_workflows := ws\<rparr>))
        in case GetWorkflow (def_Name def2) (def_Version def2) (w_workflows w) of
             Inr existing \<Rightarrow>
               if def_Name existing \<noteq> '''' then
                 (if def_Fingerprint existing = def_Fingerprint def2 then (None, w)
                  else (Some (ErrWrap (Error ErrWorkflowDefinitionMismatch @ '': workflow '' @ def_Name def2 @ ''@'' @
                          def_Version def2 @ '' fingerprint differs (existing='' @ def_Fingerprint existing @
                          '' new='' @ def_Fingerprint def2 @ '')'') ErrWorkflowDefinitionMismatch), w))
               else save
           | Inl err \<Rightarrow> if \<not> errors_Is err ErrWorkflowNotFound then (Some err, w) else save)"

section \<open>Starting instances\<close>

definition new_instance :: "string \<Rightarrow> 'u WorkflowDefinition \<Rightarrow> Status \<Rightarrow> anyv \<Rightarrow> WorkflowInstance" where
  "new_instance i def st input =
     \<lparr>inst_ID = i, inst_Name = def_Name def, inst_Version = def_Version def,
      inst_Fingerprint = def_Fingerprint def, inst_LeaseOwner = '''', inst_LeaseExpiresAt = zero_time,
      inst_Status = st, inst_Output = VNil, inst_Err = None, inst_Input = input,
      inst_CurrentStep = 0, inst_StepResults = Some Map.empty\<rparr>"

text \<open>Allocate the instance, tell the observer and save it; a failed save fails the instance.\<close>

definition create_instance :: "('s, 'q, 'e) engineImpl \<Rightarrow> 'u WorkflowDefinition \<Rightarrow> Status \<Rightarrow> anyv
     \<Rightarrow> ('s, 'q, 'e, 'u) world \<Rightarrow> (addr \<times> goerr option) \<times> ('s, 'q, 'e, 'u) world" where
  "create_instance e def st input w =
     (let (i, w1) = nextInstanceID w;
          (a, h) = alloc (new_instance i def st input) (w_heap w1);
          w2 = w1\<lparr>w_heap := h\<rparr>;
          w3 = observe (OnWorkflowStart (w_inst w2 a)) w2;
          (err, s) = is_SaveInstance (e_instances e) a (w_heap w3) (w_store w3);
          w4 = w3\<lparr>w_store := s\<rparr>
      in case err of
           Some er \<Rightarrow>
             let w5 = set_inst a (\<lambda>x. x\<lparr>inst_Status := StatusFailed, inst_Err := Some er\<rparr>) w4
             in ((a, Some er), observe (OnWorkflowFailed (w_inst w5 a) er) w5)
         | None \<Rightarrow> ((a, None), w4))"

text \<open>\<^verbatim>\<open>%v\<close> of a slice of strings.\<close>

definition format_strings :: "string list \<Rightarrow> string" where
  "format_strings xs = ''['' @ concat (case xs of [] \<Rightarrow> [] | y # ys \<Rightarrow> y # map (\<lambda>s. '' '' @ s) ys) @ '']''"

definition run_lookup_error :: "string \<Rightarrow> goerr \<Rightarrow> 'u workflows \<Rightarrow> goerr" where
  "run_lookup_error name err ws =
     (if errors_Is err ErrWorkflowNotFound then
        (case ListWorkflowVersions name ws of
           Inr versions \<Rightarrow>
             if length versions > 1
             then ErrMsg (''workflow '' @ name @ '' has multiple registered versions '' @
                    format_strings versions @ ''; use RunVersion'')
             else ErrMsg (''unknown workflow: '' @ name)
         | Inl _ \<Rightarrow> ErrMsg (''unknown workflow: '' @ name))
      else err)"

definition Run :: "('s, 'q, 'e) engineImpl \<Rightarrow> ('s, 'q, 'e, 'u) runner \<Rightarrow> ctx \<Rightarrow> string \<Rightarrow> anyv
     \<Rightarrow> ('s, 'q, 'e, 'u) world \<Rightarrow> ('s, 'q, 'e, 'u) outcome" where
  "Run e R c name input w =
     (case GetLatestWorkflow name (w_workflows w) of
        Inl err \<Rightarrow> (Done (None, Some (run_lookup_error name err (w_workflows w))), w)
      | Inr def \<Rightarrow>
          (case create_instance e def StatusRunning input w of
             ((a, Some err), w1) \<Rightarrow> (Done (Some a, Some err), w1)
           | ((a, None), w1) \<Rightarrow>
               executeSteps e R c def a 0 input (emitEvent e c a EventWorkflowStarted (- 1) '''' w1)))"

definition RunVersion :: "('s, 'q, 'e) engineImpl \<Rightarrow> ('s, 'q, 'e, 'u) runner \<Rightarrow> ctx \<Rightarrow> string \<Rightarrow> string \<Rightarrow> anyv
     \<Rightarrow> ('s, 'q, 'e, 'u) world \<Rightarrow> ('s, 'q, 'e, 'u) outcome" where
  "RunVersion e R c name version input w =
     (case GetWorkflow name version (w_workflows w) of
        Inl err \<Rightarrow> (Done (None, Some err), w)
      | Inr def \<Rightarrow>
          (case create_instance e def StatusRunning input w of
             ((a, Some err), w1) \<Rightarrow> (Done (Some a, Some err), w1)
           | ((a, None), w1) \<Rightarrow> executeSteps e R c def a 0 (inst_Input (w_inst w1 a)) w1))"

definition start_task :: "WorkflowInstance \<Rightarrow> anyv \<Rightarrow> time \<Rightarrow> Task" where
  "start_task inst input now = zero_Task\<lparr>task_Type := TaskTypeStartWorkflow, task_WorkflowName := inst_Name inst,
     task_InstanceID := inst_ID inst, task_Payload := StartWorkflowPayload input, task_EnqueuedAt := now\<rparr>"

definition enqueue_task :: "'q Queue \<Rightarrow> ctx \<Rightarrow> Task \<Rightarrow> ('s, 'q, 'e, 'u) world \<Rightarrow> goerr option \<times> ('s, 'q, 'e, 'u) world" where
  "enqueue_task Q c t w =
     (let (err, q) = q_Enqueue Q (w_clock w) (ctx_Err c (w_clock w)) t (w_queue w) in (err, w\<lparr>w_queue := q\<rparr>))"

text \<open>What \<^verbatim>\<open>Start\<close> and \<^verbatim>\<open>StartVersion\<close> do once the definition is found.\<close>

definition start_queued :: "('s, 'q, 'e) engineImpl \<Rightarrow> 'q Queue \<Rightarrow> ctx \<Rightarrow> 'u WorkflowDefinition \<Rightarrow> anyv
     \<Rightarrow> ('s, 'q, 'e, 'u) world \<Rightarrow> ('s, 'q, 'e, 'u) outcome" where
  "start_queued e Q c def input w =
     (case create_instance e def StatusPending input w of
        ((a, Some err), w1) \<Rightarrow> (Done (Some a, Some err), w1)
      | ((a, None), w1) \<Rightarrow>
          let w2 = emitEvent e c a EventWorkflowEnqueued (- 1) ''start'' w1;
              (err, w3) = enqueue_task Q c (start_task (w_inst w2 a) input (w_clock w2)) w2
          in (Done (Some a, err), w3))"

definition Start :: "('s, 'q, 'e) engineImpl \<Rightarrow> ('s, 'q, 'e, 'u) runner \<Rightarrow> ctx \<Rightarrow> string \<Rightarrow> anyv
     \<Rightarrow> ('s, 'q, 'e, 'u) world \<Rightarrow> ('s, 'q, 'e, 'u) outcome" where
  "Start e R c name input w =
     (case e_queue e of
        None \<Rightarrow> Run e R c name input w
      | Some Q \<Rightarrow>
          (case GetLatestWorkflow name (w_workflows w) of
             Inl err \<Rightarrow> (Done (None, Some err), w)
           | Inr def \<Rightarrow> start_queued e Q c def input w))"

definition StartVersion :: "('s, 'q, 'e) engineImpl \<Rightarrow> ('s, 'q, 'e, 'u) runner \<Rightarrow> ctx \<Rightarrow> string \<Rightarrow> string \<Rightarrow> anyv
     \<Rightarrow> ('s, 'q, 'e, 'u) world \<Rightarrow> ('s, 'q, 'e, 'u) outcome" where
  "StartVersion e R c name version input w =
     (case e_queue e of
        None \<Rightarrow> RunVersion e R c name version input w
      | Some Q \<Rightarrow>
          (case GetWorkflow name version (w_workflows w) of
             Inl err \<Rightarrow> (Done (None, Some err), w)
           | Inr def \<Rightarrow> start_queued e Q c def input w))"

section \<open>Running, resuming and signalling existing instances\<close>

definition load_instance :: "('s, 'q, 'e) engineImpl \<Rightarrow> string \<Rightarrow> ('s, 'q, 'e, 'u) world
     \<Rightarrow> (goerr + addr) \<times> ('s, 'q, 'e, 'u) world" where
  "load_instance e i w =
     (let (r, h) = is_GetInstance (e_instances e) i (w_heap w) (w_store w) in (r, w\<lparr>w_heap := h\<rparr>))"

definition RunInstance :: "('s, 'q, 'e) engineImpl \<Rightarrow> ('s, 'q, 'e, 'u) runner \<Rightarrow> ctx \<Rightarrow> string
     \<Rightarrow> ('s, 'q, 'e, 'u) world \<Rightarrow> ('s, 'q, 'e, 'u) outcome" where
  "RunInstance e R c instanceID w =
     (case load_instance e instanceID w of
        (Inl err, w1) \<Rightarrow> (Done (None, Some err), w1)
      | (Inr a, w1) \<Rightarrow>
        (case GetWorkflow (inst_Name (w_inst w1 a)) (inst_Version (w_inst w1 a)) (w_workflows w1) of
           Inl err \<Rightarrow> (Done (Some a, Some err), w1)
         | Inr def \<Rightarrow>
           (case validateWorkflowFingerprint e def of
              Some err \<Rightarrow>
                let w2 = set_inst a (\<lambda>x. x\<lparr>inst_Status := StatusFailed, inst_Err := Some err\<rparr>) w1;
                    w3 = snd (update_instance e a w2)
                in (Done (Some a, Some err), emitEvent e c a EventWorkflowFailed (- 1) (Error err) w3)
            | None \<Rightarrow>
              (case acquireInstanceLease e c (inst_ID (w_inst w1 a)) w1 of
                 (Some err, w2) \<Rightarrow> (Done (Some a, Some err), w2)
               | (None, w2) \<Rightarrow>
                 (case update_instance e a (set_inst a (\<lambda>x. x\<lparr>inst_Status := StatusRunning, inst_Err := None,
                         inst_Output := VNil, inst_CurrentStep := 0\<rparr>) w2) of
                    (Some err, w3) \<Rightarrow> (Done (Some a, Some err), w3)
                  | (None, w3) \<Rightarrow>
                      let w4 = emitEvent e c a EventWorkflowStarted (- 1) '''' w3
                      in executeSteps e R c def a 0 (inst_Input (w_inst w4 a)) w4)))))"

definition not_found :: "string \<Rightarrow> goerr \<Rightarrow> goerr" where
  "not_found i err = (if errors_Is err ErrInstanceNotFound then ErrMsg (''instance not found: '' @ i) else err)"

definition legacy_version :: "string \<Rightarrow> string" where
  "legacy_version v = (if v = '''' then ''v1'' else v)"

text \<open>
  The part \<^verbatim>\<open>resumeInline\<close> and \<^verbatim>\<open>signalInline\<close> have in common after the lease is taken: find the
  definition, check its fingerprint, write the reset instance back and execute from a step.
  The deferred release runs however the part ends, also when a step panics.
\<close>

definition release_on_exit :: "('s, 'q, 'e) engineImpl \<Rightarrow> string \<Rightarrow> ('s, 'q, 'e, 'u) outcome \<Rightarrow> ('s, 'q, 'e, 'u) outcome" where
  "release_on_exit e i r = (fst r, releaseInstanceLease e Background i (snd r))"

definition continue_instance :: "('s, 'q, 'e) engineImpl \<Rightarrow> ('s, 'q, 'e, 'u) runner \<Rightarrow> ctx \<Rightarrow> addr
     \<Rightarrow> (WorkflowInstance \<Rightarrow> WorkflowInstance) \<Rightarrow> (WorkflowInstance \<Rightarrow> int) \<Rightarrow> string \<Rightarrow> (WorkflowInstance \<Rightarrow> nat)
     \<Rightarrow> ('s, 'q, 'e, 'u) world \<Rightarrow> ('s, 'q, 'e, 'u) outcome" where
  "continue_instance e R c a reset ev_step detail start w =
     (case GetWorkflow (inst_Name (w_inst w a)) (legacy_version (inst_Version (w_inst w a))) (w_workflows w) of
        Inl err \<Rightarrow> (Done (None, Some err), w)
      | Inr def \<Rightarrow>
          if inst_Fingerprint (w_inst w a) \<noteq> '''' \<and> inst_Fingerprint (w_inst w a) \<noteq> def_Fingerprint def
          then (Done (None, Some ErrWorkflowDefinitionMismatch), w)
          else
            (case update_instance e a (set_inst a reset w) of
               (Some err, w1) \<Rightarrow> (Done (Some a, Some err), w1)
             | (None, w1) \<Rightarrow>
                 let w2 = emitEvent e c a EventWorkflowResumed (ev_step (w_inst w1 a)) detail w1
                 in executeSteps e R c def a (start (w_inst w2 a)) (inst_Input (w_inst w2 a)) w2))"

definition resumeInline :: "('s, 'q, 'e) engineImpl \<Rightarrow> ('s, 'q, 'e, 'u) runner \<Rightarrow> ctx \<Rightarrow> string
     \<Rightarrow> ('s, 'q, 'e, 'u) world \<Rightarrow> ('s, 'q, 'e, 'u) outcome" where
  "resumeInline e R c i w =
     (case load_instance e i w of
        (Inl err, w1) \<Rightarrow> (Done (None, Some (not_found i err)), w1)
      | (Inr a, w1) \<Rightarrow>
          if inst_Status (w_inst w1 a) \<noteq> StatusFailed
          then (Done (None, Some (ErrMsg (''cannot resume instance '' @ i @ '' in status '' @
                       status_string (inst_Status (w_inst w1 a))))), w1)
          else
            (case acquireInstanceLease e c i w1 of
               (Some err, w2) \<Rightarrow> (Done (None, Some err), w2)
             | (None, w2) \<Rightarrow>
                 release_on_exit e i
                   (continue_instance e R c a
                     (\<lambda>x. x\<lparr>inst_Status := StatusRunning, inst_Err := None, inst_Output := VNil, inst_CurrentStep := 0\<rparr>)
                     (\<lambda>x. - 1) '''' (\<lambda>x. 0) w2)))"

definition signalInline :: "('s, 'q, 'e) engineImpl \<Rightarrow> ('s, 'q, 'e, 'u) runner \<Rightarrow> ctx \<Rightarrow> string \<Rightarrow> string \<Rightarrow> anyv
     \<Rightarrow> ('s, 'q, 'e, 'u) world \<Rightarrow> ('s, 'q, 'e, 'u) outcome" where
  "signalInline e R c i name payload w =
     (case load_instance e i w of
        (Inl err, w1) \<Rightarrow> (Done (None, Some (not_found i err)), w1)
      | (Inr a, w1) \<Rightarrow>
          if inst_Status (w_inst w1 a) \<noteq> StatusWaiting
          then (Done (None, Some (ErrMsg (''cannot signal instance '' @ i @ '' in status '' @
                       status_string (inst_Status (w_inst w1 a))))), w1)
          else
            (case acquireInstanceLease e c i w1 of
               (Some err, w2) \<Rightarrow> (Done (None, Some err), w2)
             | (None, w2) \<Rightarrow>
                 release_on_exit e i
                   (continue_instance e R c a
                     (\<lambda>x. x\<lparr>inst_Status := StatusRunning, inst_Err := None, inst_Input := SignalPayload name payload,
                            inst_Output := VNil\<rparr>)
                     (\<lambda>x. int (inst_CurrentStep x)) ''signal'' inst_CurrentStep w2)))"

definition Resume :: "('s, 'q, 'e) engineImpl \<Rightarrow> ('s, 'q, 'e, 'u) runner \<Rightarrow> ctx \<Rightarrow> string
     \<Rightarrow> ('s, 'q, 'e, 'u) world \<Rightarrow> ('s, 'q, 'e, 'u) outcome" where
  "Resume e R c i w =
     (case e_queue e of
        None \<Rightarrow> resumeInline e R c i w
      | Some Q \<Rightarrow>
        (case load_instance e i w of
           (Inl err, w1) \<Rightarrow> (Done (None, Some err), w1)
         | (Inr a, w1) \<Rightarrow>
             if inst_Status (w_inst w1 a) \<noteq> StatusFailed
             then (Done (None, Some (ErrMsg (''cannot resume instance '' @ i @ '' in status '' @
                          status_string (inst_Status (w_inst w1 a))))), w1)
             else
               let w2 = emitEvent e c a EventWorkflowEnqueued (- 1) ''resume'' w1;
                   (err, w3) = enqueue_task Q c (zero_Task\<lparr>task_Type := TaskTypeResume, task_InstanceID := i,
                                  task_EnqueuedAt := w_clock w2\<rparr>) w2
               in (Done (Some a, err), w3)))"

definition Signal :: "('s, 'q, 'e) engineImpl \<Rightarrow> ('s, 'q, 'e, 'u) runner \<Rightarrow> ctx \<Rightarrow> string \<Rightarrow> string \<Rightarrow> anyv
     \<Rightarrow> ('s, 'q, 'e, 'u) world \<Rightarrow> ('s, 'q, 'e, 'u) outcome" where
  "Signal e R c i name payload w =
     (case e_queue e of
        None \<Rightarrow> signalInline e R c i name payload w
      | Some Q \<Rightarrow>
        (case load_instance e i w of
           (Inl err, w1) \<Rightarrow> (Done (None, Some err), w1)
         | (Inr a, w1) \<Rightarrow>
             if inst_Status (w_inst w1 a) \<noteq> StatusWaiting
             then (Done (None, Some (ErrMsg (''cannot signal instance '' @ i @ '' in status '' @
                          status_string (inst_Status (w_inst w1 a))))), w1)
             else
               (case update_instance e a (set_inst a (\<lambda>x. x\<lparr>inst_Err := None,
                       inst_Input := SignalPayload name payload\<rparr>) w1) of
                  (Some err, w2) \<Rightarrow> (Done (Some a, Some err), w2)
                | (None, w2) \<Rightarrow>
                    let w3 = emitEvent e c a EventSignalReceived (int (inst_CurrentStep (w_inst w2 a))) name w2;
                        w4 = emitEvent e c a EventWorkflowEnqueued (- 1) ''signal'' w3;
                        (err, w5) = enqueue_task Q c (zero_Task\<lparr>task_Type := TaskTypeSignal, task_InstanceID := i,
                           task_SignalName := name, task_Payload := payload, task_EnqueuedAt := w_clock w4\<rparr>) w4
                    in (Done (Some a, err), w5))))"

definition SignalNow :: "('s, 'q, 'e) engineImpl \<Rightarrow> ('s, 'q, 'e, 'u) runner \<Rightarrow> ctx \<Rightarrow> string \<Rightarrow> string \<Rightarrow> anyv
     \<Rightarrow> ('s, 'q, 'e, 'u) world \<Rightarrow> ('s, 'q, 'e, 'u) outcome" where
  "SignalNow = signalInline"

definition ResumeNow :: "('s, 'q, 'e) engineImpl \<Rightarrow> ('s, 'q, 'e, 'u) runner \<Rightarrow> ctx \<Rightarrow> string
     \<Rightarrow> ('s, 'q, 'e, 'u) world \<Rightarrow> ('s, 'q, 'e, 'u) outcome" where
  "ResumeNow = resumeInline"

section \<open>Inspection and recovery\<close>

definition GetInstance :: "('s, 'q, 'e) engineImpl \<Rightarrow> string \<Rightarrow> ('s, 'q, 'e, 'u) world
     \<Rightarrow> (goerr + addr) \<times> ('s, 'q, 'e, 'u) world" where
  "GetInstance e i w =
     (case load_instance e i w of
        (Inl err, w1) \<Rightarrow> (Inl (not_found i err), w1)
      | (Inr a, w1) \<Rightarrow>
          let inst = w_inst w1 a;
              found = (Inr a, releaseInstanceLease e Background (inst_ID inst) w1)
          in case GetWorkflow (inst_Name inst) (legacy_version (inst_Version inst)) (w_workflows w1) of
               Inl err \<Rightarrow> if errors_Is err ErrWorkflowNotFound then found else (Inl err, w1)
             | Inr def \<Rightarrow>
                 if inst_Fingerprint inst \<noteq> '''' \<and> inst_Fingerprint inst \<noteq> def_Fingerprint def
                 then (Inl ErrWorkflowDefinitionMismatch, w1)
                 else found)"

definition ListInstances :: "('s, 'q, 'e) engineImpl \<Rightarrow> InstanceFilter \<Rightarrow> ('s, 'q, 'e, 'u) world
     \<Rightarrow> (goerr + addr list) \<times> ('s, 'q, 'e, 'u) world" where
  "ListInstances e opts w =
     (let (r, h) = is_ListInstances (e_instances e)
            \<lparr>filter_WorkflowName = filter_WorkflowName opts, filter_Status = filter_Status opts\<rparr>
            (w_heap w) (w_store w)
      in (r, w\<lparr>w_heap := h\<rparr>))"

definition ListEvents :: "('s, 'q, 'e) engineImpl \<Rightarrow> ctx \<Rightarrow> string \<Rightarrow> ('s, 'q, 'e, 'u) world \<Rightarrow> goerr + WorkflowEvent list" where
  "ListEvents e c i w =
     (case e_events e of
        None \<Rightarrow> Inr []
      | Some es \<Rightarrow> es_ListEvents es (ctx_Err c (w_clock w)) i (w_events w))"

definition stuck_error :: goerr where
  "stuck_error = ErrMsg ''workflow engine recovered stuck running instance after crash''"

fun recover_loop :: "('s, 'q, 'e) engineImpl \<Rightarrow> addr list \<Rightarrow> nat \<Rightarrow> ('s, 'q, 'e, 'u) world
     \<Rightarrow> (nat \<times> goerr option) \<times> ('s, 'q, 'e, 'u) world" where
  "recover_loop e [] cnt w = ((cnt, None), w)"
| "recover_loop e (a # as) cnt w =
     (if inst_Status (w_inst w a) \<noteq> StatusRunning then recover_loop e as cnt w
      else
        (case update_instance e a (set_inst a (\<lambda>x. x\<lparr>inst_Status := StatusFailed, inst_Err := Some stuck_error\<rparr>) w) of
           (Some err, w1) \<Rightarrow> ((cnt, Some err), w1)
         | (None, w1) \<Rightarrow> recover_loop e as (Suc cnt) w1))"

definition RecoverStuckInstances :: "('s, 'q, 'e) engineImpl \<Rightarrow> ('s, 'q, 'e, 'u) world
     \<Rightarrow> (nat \<times> goerr option) \<times> ('s, 'q, 'e, 'u) world" where
  "RecoverStuckInstances e w =
     (let (r, h) = is_ListInstances (e_instances e)
            \<lparr>filter_WorkflowName = '''', filter_Status = Some StatusRunning\<rparr> (w_heap w) (w_store w);
          w1 = w\<lparr>w_heap := h\<rparr>
      in case r of
           Inl err \<Rightarrow> ((0, Some err), w1)
         | Inr as \<Rightarrow> recover_loop e as 0 w1)"

section \<open>Running step functions\<close>

text \<open>
  A step function runs in the engine's world; \<open>child\<close> is the engine's \<^verbatim>\<open>Run\<close> as the step sees
  it. A nil step function panics. A step sees an instance as it is when it is returned.
\<close>

definition engine_effects :: "('s, 'q, 'e) engineImpl
     \<Rightarrow> (ctx \<Rightarrow> string \<Rightarrow> anyv \<Rightarrow> ('s, 'q, 'e, 'u) world \<Rightarrow> ('s, 'q, 'e, 'u) outcome)
     \<Rightarrow> ctx \<Rightarrow> ('u, ('s, 'q, 'e, 'u) world) effects" where
  "engine_effects e child c =
     \<lparr>eff_extern = w_extern,
      eff_set_extern = (\<lambda>u w. w\<lparr>w_extern := u\<rparr>),
      eff_clock = w_clock,
      eff_advance = (\<lambda>d w. w\<lparr>w_clock := w_clock w + d\<rparr>),
      eff_ctx = c,
      eff_Run = (\<lambda>name input w.
        case child c name input w of
          (Done (ao, err), w') \<Rightarrow> (Done (map_option (w_inst w') ao, err), w')
        | (Panicked s, w') \<Rightarrow> (Panicked s, w')
        | (NoFuel, w') \<Rightarrow> (NoFuel, w')),
      eff_GetInstance = (\<lambda>i w.
        case GetInstance e i w of
          (Inl err, w') \<Rightarrow> (Inl err, w')
        | (Inr a, w') \<Rightarrow> (Inr (w_inst w' a), w'))\<rparr>"

definition run_fn :: "('s, 'q, 'e) engineImpl \<Rightarrow> nat
     \<Rightarrow> (ctx \<Rightarrow> string \<Rightarrow> anyv \<Rightarrow> ('s, 'q, 'e, 'u) world \<Rightarrow> ('s, 'q, 'e, 'u) outcome) \<Rightarrow> ('s, 'q, 'e, 'u) runner" where
  "run_fn e n child fn c v w =
     (case fn of
        None \<Rightarrow> (Panicked ''nil function'', w)
      | Some f \<Rightarrow> interp (engine_effects e child c) n (fn_body f v) w)"

text \<open>
  \<open>n\<close> bounds the iterations of each unbounded loop in a step and \<open>d\<close> the nesting of child
  workflows that run synchronously inside a step of their parent.
\<close>

primrec step_runner :: "('s, 'q, 'e) engineImpl \<Rightarrow> nat \<Rightarrow> nat \<Rightarrow> ('s, 'q, 'e, 'u) runner" where
  "step_runner e n 0 = run_fn e n (\<lambda>c name input w. (NoFuel, w))"
| "step_runner e n (Suc d) = run_fn e n (Run e (step_runner e n d))"

declare step_runner.simps [simp del]

end
