(* ===== verification/Engine_Frame.thy ===== *)
theory Engine_Frame
  imports Engine
begin

text \<open>
  What the engine relies on in an instance store, as the locale \<open>engine_store\<close>, and what the
  engine's operations leave alone: a run changes its own instance only, up to leases. The
  in-memory store is shown to meet the contract.
\<close>

section \<open>Instances up to their lease\<close>

definition strip_lease :: "WorkflowInstance \<Rightarrow> WorkflowInstance" where
  "strip_lease x = x\<lparr>inst_LeaseOwner := '''', inst_LeaseExpiresAt := zero_time\<rparr>"

lemma strip_lease_sel [simp]:
  "inst_ID (strip_lease x) = inst_ID x" "inst_Name (strip_lease x) = inst_Name x"
  "inst_Version (strip_lease x) = inst_Version x" "inst_Fingerprint (strip_lease x) = inst_Fingerprint x"
  "inst_Status (strip_lease x) = inst_Status x" "inst_Output (strip_lease x) = inst_Output x"
  "inst_Err (strip_lease x) = inst_Err x" "inst_Input (strip_lease x) = inst_Input x"
  "inst_CurrentStep (strip_lease x) = inst_CurrentStep x"
  "inst_StepResults (strip_lease x) = inst_StepResults x"
  by (simp_all add: strip_lease_def)

lemma strip_lease_upd [simp]:
  "strip_lease (x\<lparr>inst_Status := s\<rparr>) = (strip_lease x)\<lparr>inst_Status := s\<rparr>"
  "strip_lease (x\<lparr>inst_Err := er\<rparr>) = (strip_lease x)\<lparr>inst_Err := er\<rparr>"
  "strip_lease (x\<lparr>inst_Output := v\<rparr>) = (strip_lease x)\<lparr>inst_Output := v\<rparr>"
  "strip_lease (x\<lparr>inst_Input := v\<rparr>) = (strip_lease x)\<lparr>inst_Input := v\<rparr>"
  "strip_lease (x\<lparr>inst_CurrentStep := n\<rparr>) = (strip_lease x)\<lparr>inst_CurrentStep := n\<rparr>"
  "strip_lease (x\<lparr>inst_StepResults := m\<rparr>) = (strip_lease x)\<lparr>inst_StepResults := m\<rparr>"
  "strip_lease (x\<lparr>inst_LeaseOwner := ow\<rparr>) = strip_lease x"
  "strip_lease (x\<lparr>inst_LeaseExpiresAt := t\<rparr>) = strip_lease x"
  by (simp_all add: strip_lease_def)

text \<open>The heap only grows, and every object that was there is the same up to its lease.\<close>

definition heap_ext :: "heap \<Rightarrow> heap \<Rightarrow> bool" where
  "heap_ext h h' \<longleftrightarrow> length h \<le> length h' \<and>
     (\<forall>b < length h. strip_lease (deref h' b) = strip_lease (deref h b))"

lemma heap_ext_refl [simp]: "heap_ext h h"
  by (simp add: heap_ext_def)

lemma heap_ext_trans: "heap_ext h h' \<Longrightarrow> heap_ext h' h'' \<Longrightarrow> heap_ext h h''"
  by (auto simp: heap_ext_def)

lemma heap_ext_assign:
  assumes "\<And>x. strip_lease (f x) = strip_lease x"
  shows "heap_ext h (assign a f h)"
proof (cases "a < length h")
  case True
  with assms show ?thesis by (simp add: heap_ext_def deref_assign)
next
  case False
  then show ?thesis by (simp add: assign_def list_update_beyond)
qed

lemma heap_ext_append [simp]: "heap_ext h (h @ g)"
  by (simp add: heap_ext_def)

section \<open>The contract of an instance store\<close>

locale engine_store =
  fixes S :: "'s InstanceStore"
    and inv :: "heap \<times> 's \<Rightarrow> bool"
  assumes get_law: "inv (h, s) \<Longrightarrow> is_GetInstance S i h s = (r, h') \<Longrightarrow>
      inv (h', s) \<and> heap_ext h h' \<and> (\<forall>a. r = Inr a \<longrightarrow> a < length h' \<and> inst_ID (deref h' a) = i)"
    and list_law: "inv (h, s) \<Longrightarrow> is_ListInstances S f h s = (rs, h') \<Longrightarrow>
      inv (h', s) \<and> heap_ext h h' \<and> (\<forall>as. rs = Inr as \<longrightarrow> (\<forall>a \<in> set as. a < length h'))"
    and save_law: "inv (h, s) \<Longrightarrow> a < length h \<Longrightarrow> is_SaveInstance S a h s = (err, s') \<Longrightarrow> inv (h, s')"
    and update_law: "inv (h, s) \<Longrightarrow> a < length h \<Longrightarrow> is_UpdateInstance S a h s = (err, s') \<Longrightarrow> inv (h, s')"
    and acquire_frame: "inv (h, s) \<Longrightarrow> is_TryAcquireLease S now cerr i owner ttl (h, s) = (rb, h', s') \<Longrightarrow>
      inv (h', s') \<and> heap_ext h h'"
    and renew_frame: "inv (h, s) \<Longrightarrow> is_RenewLease S now cerr i owner ttl (h, s) = (err, h', s') \<Longrightarrow>
      inv (h', s') \<and> heap_ext h h'"
    and release_frame: "inv (h, s) \<Longrightarrow> is_ReleaseLease S now cerr i owner (h, s) = (err, h', s') \<Longrightarrow>
      inv (h', s') \<and> heap_ext h h'"
    and write_law: "inv (h, s) \<Longrightarrow> (\<And>x. inst_ID (g x) = inst_ID x) \<Longrightarrow> inv (assign a g h, s)"
    and alloc_law: "inv (h, s) \<Longrightarrow> inv (h @ [x], s)"

lemma mem_lease_heap_ext:
  "Mem_TryAcquireLease now cerr i owner ttl (h, s) = (rb, h', s') \<Longrightarrow> heap_ext h h'"
  "Mem_RenewLease now cerr i owner ttl (h, s) = (err, h', s') \<Longrightarrow> heap_ext h h'"
  "Mem_ReleaseLease cerr i owner (h, s) = (err, h', s') \<Longrightarrow> heap_ext h h'"
  by (auto simp: Mem_TryAcquireLease_def Mem_RenewLease_def Mem_ReleaseLease_def Let_def
      intro!: heap_ext_assign split: option.splits if_splits)

lemma mem_lease_inv:
  "mem_inv (h, s) \<Longrightarrow> Mem_TryAcquireLease now cerr i owner ttl (h, s) = (rb, h', s') \<Longrightarrow> mem_inv (h', s')"
  "mem_inv (h, s) \<Longrightarrow> Mem_RenewLease now cerr i owner ttl (h, s) = (err, h', s') \<Longrightarrow> mem_inv (h', s')"
  "mem_inv (h, s) \<Longrightarrow> Mem_ReleaseLease cerr i owner (h, s) = (err, h', s') \<Longrightarrow> mem_inv (h', s')"
  by (auto simp: Mem_TryAcquireLease_def Mem_RenewLease_def Mem_ReleaseLease_def Let_def
      intro!: mem_inv_assign split: option.splits if_splits)

lemma mem_inv_file:
  assumes "mem_inv (h, s)" "a < length h"
  shows "mem_inv (h, AList.update (inst_ID (deref h a)) a s)"
  using assms by (auto simp: mem_inv_def distinct_keys_update in_update_iff split: if_splits)

interpretation mem_engine: engine_store memoryStore mem_inv
proof (unfold_locales, goal_cases)
  case (1 h s i r h')
  then show ?case using mem_inv_lookup [of h s i] by (auto simp: Mem_GetInstance_def split: option.splits)
next
  case (2 h s f rs h')
  then show ?case by (fastforce simp: Mem_ListInstances_def mem_inv_def)
next
  case (3 h s a err s')
  then show ?case using mem_inv_file [of h s a] by (simp add: Mem_SaveInstance_def)
next
  case (4 h s a err s')
  then show ?case using mem_inv_file [of h s a] by (simp add: Mem_UpdateInstance_def split: if_splits)
next
  case (5 h s now cerr i owner ttl rb h' s')
  then have m: "Mem_TryAcquireLease now cerr i owner ttl (h, s) = (rb, h', s')" by simp
  show ?case using mem_lease_inv(1) [OF 5(1) m] mem_lease_heap_ext(1) [OF m] by blast
next
  case (6 h s now cerr i owner ttl err h' s')
  then have m: "Mem_RenewLease now cerr i owner ttl (h, s) = (err, h', s')" by simp
  show ?case using mem_lease_inv(2) [OF 6(1) m] mem_lease_heap_ext(2) [OF m] by blast
next
  case (7 h s now cerr i owner err h' s')
  then have m: "Mem_ReleaseLease cerr i owner (h, s) = (err, h', s')" by simp
  show ?case using mem_lease_inv(3) [OF 7(1) m] mem_lease_heap_ext(3) [OF m] by blast
next
  case (8 h s g a)
  then show ?case by (rule mem_inv_assign)
next
  case (9 h s x)
  then show ?case by (fastforce simp: mem_inv_def)
qed

section \<open>What an operation changes\<close>

definition wf_world :: "(heap \<times> 's \<Rightarrow> bool) \<Rightarrow> ('s, 'q, 'e, 'u) world \<Rightarrow> bool" where
  "wf_world I w \<longleftrightarrow> I (w_heap w, w_store w)"

definition core :: "('s, 'q, 'e, 'u) world \<Rightarrow> addr \<Rightarrow> WorkflowInstance" where
  "core w b = strip_lease (w_inst w b)"

lemma core_sel [simp]:
  "inst_ID (core w a) = inst_ID (w_inst w a)" "inst_Name (core w a) = inst_Name (w_inst w a)"
  "inst_Version (core w a) = inst_Version (w_inst w a)"
  "inst_Fingerprint (core w a) = inst_Fingerprint (w_inst w a)"
  "inst_Status (core w a) = inst_Status (w_inst w a)" "inst_Output (core w a) = inst_Output (w_inst w a)"
  "inst_Err (core w a) = inst_Err (w_inst w a)" "inst_Input (core w a) = inst_Input (w_inst w a)"
  "inst_CurrentStep (core w a) = inst_CurrentStep (w_inst w a)"
  "inst_StepResults (core w a) = inst_StepResults (w_inst w a)"
  by (simp_all add: core_def)

lemma cached_core [simp]: "cached (core w a) i = cached (w_inst w a) i"
  by (simp add: cached_def)

text \<open>
  \<open>touch I a f w w'\<close>: from \<open>w\<close> to \<open>w'\<close> the instance at \<open>a\<close> has changed by \<open>f\<close> and every other
  one not at all (leases apart); new objects may exist; workflows and queue are as before.
\<close>

definition touch :: "(heap \<times> 's \<Rightarrow> bool) \<Rightarrow> addr \<Rightarrow> (WorkflowInstance \<Rightarrow> WorkflowInstance)
     \<Rightarrow> ('s, 'q, 'e, 'u) world \<Rightarrow> ('s, 'q, 'e, 'u) world \<Rightarrow> bool" where
  "touch I a f w w' \<longleftrightarrow> a < length (w_heap w) \<and> wf_world I w' \<and> length (w_heap w) \<le> length (w_heap w') \<and>
     (\<forall>b < length (w_heap w). core w' b = (if b = a then f (core w a) else core w b)) \<and>
     w_workflows w' = w_workflows w \<and> w_queue w' = w_queue w \<and> w_clock w \<le> w_clock w'"

definition evolve :: "(heap \<times> 's \<Rightarrow> bool) \<Rightarrow> ('s, 'q, 'e, 'u) world \<Rightarrow> ('s, 'q, 'e, 'u) world \<Rightarrow> bool" where
  "evolve I w w' \<longleftrightarrow> wf_world I w' \<and> heap_ext (w_heap w) (w_heap w') \<and>
     w_workflows w' = w_workflows w \<and> w_queue w' = w_queue w \<and> w_clock w \<le> w_clock w'"

text \<open>The errors a context reports.\<close>

definition ctx_wf :: "ctx \<Rightarrow> bool" where
  "ctx_wf c \<longleftrightarrow> (case ctx_cancel c of None \<Rightarrow> True | Some (t, er) \<Rightarrow> er = ContextCanceled \<or> er = ContextDeadlineExceeded)"

lemma ctx_wf_simps [simp]: "ctx_wf (WithEngine c) = ctx_wf c" "ctx_wf Background"
  by (simp_all add: ctx_wf_def Background_def)

definition runner_frame :: "(heap \<times> 's \<Rightarrow> bool) \<Rightarrow> ('s, 'q, 'e, 'u) runner \<Rightarrow> bool" where
  "runner_frame I R \<longleftrightarrow>
     (\<forall>fn c v w r w'. ctx_wf c \<longrightarrow> wf_world I w \<longrightarrow> R fn c v w = (r, w') \<longrightarrow> evolve I w w')"

lemma evolve_refl: "wf_world I w \<Longrightarrow> evolve I w w"
  by (simp add: evolve_def)

lemma evolve_trans: "evolve I w w' \<Longrightarrow> evolve I w' w'' \<Longrightarrow> evolve I w w''"
  by (auto simp: evolve_def intro: heap_ext_trans)

lemma evolve_wf: "evolve I w w' \<Longrightarrow> wf_world I w'"
  by (simp add: evolve_def)

lemma evolve_core: "evolve I w w' \<Longrightarrow> b < length (w_heap w) \<Longrightarrow> core w' b = core w b"
  by (simp add: evolve_def heap_ext_def core_def w_inst_def)

lemma touch_refl: "wf_world I w \<Longrightarrow> a < length (w_heap w) \<Longrightarrow> touch I a (\<lambda>x. x) w w"
  by (simp add: touch_def)

lemma touch_trans: "touch I a f w w' \<Longrightarrow> touch I a g w' w'' \<Longrightarrow> touch I a (\<lambda>x. g (f x)) w w''"
  unfolding touch_def by (auto simp: less_le_trans)

lemma touch_evolve: "touch I a f w w1 \<Longrightarrow> evolve I w1 w2 \<Longrightarrow> touch I a f w w2"
  unfolding touch_def by (auto simp: evolve_core evolve_wf less_le_trans) (auto simp: evolve_def heap_ext_def)

lemma touchD:
  assumes "touch I a f w w'"
  shows "core w' a = f (core w a)" "wf_world I w'" "a < length (w_heap w')" "a < length (w_heap w)"
    "w_workflows w' = w_workflows w" "w_queue w' = w_queue w" "w_clock w \<le> w_clock w'"
  using assms by (auto simp: touch_def)

lemma touch_cong: "touch I a f w w' \<Longrightarrow> f (core w a) = g (core w a) \<Longrightarrow> touch I a g w w'"
  by (simp add: touch_def)

text \<open>A run on a freshly allocated instance leaves every older instance alone.\<close>

lemma touch_evolve_new:
  assumes "touch I a f w1 w2" "w_heap w1 = w_heap w @ [x]" "a = length (w_heap w)"
    and "w_workflows w1 = w_workflows w" "w_queue w1 = w_queue w" "w_clock w1 = w_clock w"
  shows "evolve I w w2"
proof -
  have "core w1 b = strip_lease (deref (w_heap w) b)" if "b < length (w_heap w)" for b
    using that assms(2) by (simp add: core_def w_inst_def)
  with assms show ?thesis by (auto simp: touch_def evolve_def heap_ext_def core_def w_inst_def)
qed

lemma w_inst_unchanged [simp]:
  "w_inst (observe cb w) b = w_inst w b" "w_inst (emitEvent e c a ty i d w) b = w_inst w b"
  "w_inst (snd (update_instance e a w)) b = w_inst w b" "w_inst (w\<lparr>w_clock := t\<rparr>) b = w_inst w b"
  "w_inst (w\<lparr>w_extern := u\<rparr>) b = w_inst w b" "w_inst (w\<lparr>w_queue := q\<rparr>) b = w_inst w b"
  by (simp_all add: w_inst_def observe_def emitEvent_def update_instance_def split: option.splits prod.splits)

lemma w_heap_unchanged [simp]:
  "w_heap (observe cb w) = w_heap w" "w_heap (emitEvent e c a ty i d w) = w_heap w"
  "w_heap (snd (update_instance e a w)) = w_heap w"
  by (simp_all add: observe_def emitEvent_def update_instance_def split: option.splits prod.splits)

lemma w_clock_unchanged [simp]:
  "w_clock (observe cb w) = w_clock w" "w_clock (emitEvent e c a ty i d w) = w_clock w"
  "w_clock (snd (update_instance e a w)) = w_clock w" "w_clock (set_inst a f w) = w_clock w"
  "w_clock (renewInstanceLease e c j w) = w_clock w" "w_clock (releaseInstanceLease e c j w) = w_clock w"
  by (simp_all add: observe_def emitEvent_def update_instance_def set_inst_def renewInstanceLease_def
      releaseInstanceLease_def split: option.splits prod.splits)

context engine_store
begin

lemma evolve_observe: "wf_world inv w \<Longrightarrow> evolve inv w (observe cb w)"
  by (simp add: evolve_def wf_world_def observe_def)

lemma evolve_emit: "wf_world inv w \<Longrightarrow> evolve inv w (emitEvent e c a ty i d w)"
  by (simp add: evolve_def wf_world_def emitEvent_def split: option.splits)

lemma evolve_clock: "wf_world inv w \<Longrightarrow> w_clock w \<le> t \<Longrightarrow> evolve inv w (w\<lparr>w_clock := t\<rparr>)"
  by (simp add: evolve_def wf_world_def)

lemma evolve_extern: "wf_world inv w \<Longrightarrow> evolve inv w (w\<lparr>w_extern := u\<rparr>)"
  by (simp add: evolve_def wf_world_def)

lemma evolve_update:
  "e_instances e = S \<Longrightarrow> wf_world inv w \<Longrightarrow> a < length (w_heap w) \<Longrightarrow> evolve inv w (snd (update_instance e a w))"
  by (auto simp: evolve_def wf_world_def update_instance_def split: prod.splits intro: update_law)

lemma evolve_acquire:
  "e_instances e = S \<Longrightarrow> wf_world inv w \<Longrightarrow> evolve inv w (snd (acquireInstanceLease e c i w))"
  by (auto simp: evolve_def wf_world_def acquireInstanceLease_def split: prod.splits dest: acquire_frame)

lemma evolve_renew: "e_instances e = S \<Longrightarrow> wf_world inv w \<Longrightarrow> evolve inv w (renewInstanceLease e c i w)"
  by (auto simp: evolve_def wf_world_def renewInstanceLease_def split: prod.splits dest: renew_frame)

lemma evolve_release: "e_instances e = S \<Longrightarrow> wf_world inv w \<Longrightarrow> evolve inv w (releaseInstanceLease e c i w)"
  by (auto simp: evolve_def wf_world_def releaseInstanceLease_def split: prod.splits dest: release_frame)

lemma evolve_load:
  assumes "e_instances e = S" "wf_world inv w" "load_instance e i w = (r, w')"
  shows "evolve inv w w' \<and> (\<forall>a. r = Inr a \<longrightarrow> a < length (w_heap w') \<and> inst_ID (w_inst w' a) = i)"
  using assms get_law [of "w_heap w" "w_store w" i]
  by (auto simp: load_instance_def evolve_def wf_world_def w_inst_def split: prod.splits)

lemma touch_set:
  assumes "wf_world inv w" "a < length (w_heap w)"
    and "\<And>x. inst_ID (f x) = inst_ID x" "\<And>x. strip_lease (f x) = f (strip_lease x)"
  shows "touch inv a f w (set_inst a f w)"
  using assms write_law [of "w_heap w" "w_store w" f a]
  by (auto simp: touch_def wf_world_def set_inst_def core_def w_inst_def deref_assign)

lemma touch_observe: "touch inv a f w w1 \<Longrightarrow> touch inv a f w (observe cb w1)"
  using evolve_observe touch_evolve touchD(2) by blast

lemma touch_emit: "touch inv a f w w1 \<Longrightarrow> touch inv a f w (emitEvent e c b ty i d w1)"
  using evolve_emit touch_evolve touchD(2) by blast

lemma touch_update: "e_instances e = S \<Longrightarrow> touch inv a f w w1 \<Longrightarrow> touch inv a f w (snd (update_instance e a w1))"
  using evolve_update touch_evolve touchD(2,3) by blast

lemma touch_release: "e_instances e = S \<Longrightarrow> touch inv a f w w1 \<Longrightarrow> touch inv a f w (releaseInstanceLease e c i w1)"
  using evolve_release touch_evolve touchD(2) by blast

lemma touch_renew: "e_instances e = S \<Longrightarrow> touch inv a f w w1 \<Longrightarrow> touch inv a f w (renewInstanceLease e c i w1)"
  using evolve_renew touch_evolve touchD(2) by blast

lemmas touch_intros = touch_observe touch_emit touch_update touch_release touch_renew

end

end
