(* ===== verification/Engine_Exec.thy ===== *)
theory Engine_Exec
  imports Engine_Frame
begin

text \<open>
  What \<^verbatim>\<open>executeSteps\<close> does to the instance it runs, for every store that meets
  \<open>engine_store\<close> and every step runner that respects the frame, and the proof that the
  engine's own runner (with child workflows) does.
\<close>

section \<open>The effect of one step\<close>

definition waiting_output :: "goerr \<Rightarrow> WorkflowInstance \<Rightarrow> anyv" where
  "waiting_output err x =
     (case WaitForSignalMeta err of Some (n, rp) \<Rightarrow> WaitMeta ''signal'' rp | None \<Rightarrow> inst_Output x)"

definition cache_result :: "nat \<Rightarrow> anyv \<Rightarrow> WorkflowInstance \<Rightarrow> WorkflowInstance" where
  "cache_result i v x = x\<lparr>inst_StepResults :=
     Some ((case inst_StepResults x of None \<Rightarrow> Map.empty | Some m \<Rightarrow> m)(i \<mapsto> v))\<rparr>"

definition mark_failed :: "goerr \<Rightarrow> WorkflowInstance \<Rightarrow> WorkflowInstance" where
  "mark_failed err x = x\<lparr>inst_Status := StatusFailed, inst_Err := Some err\<rparr>"

definition mark_waiting :: "goerr \<Rightarrow> WorkflowInstance \<Rightarrow> WorkflowInstance" where
  "mark_waiting err x = x\<lparr>inst_Status := StatusWaiting, inst_Err := None, inst_Output := waiting_output err x\<rparr>"

text \<open>The effect of the attempts of step \<open>i\<close> on its instance, by how they end.\<close>

fun step_effect :: "nat \<Rightarrow> step_outcome \<Rightarrow> WorkflowInstance \<Rightarrow> WorkflowInstance" where
  "step_effect i (Advance v) x = cache_result i v x"
| "step_effect i (Stop err) x = (if is_wait err then mark_waiting err x else mark_failed err x)"
| "step_effect i _ x = x"

lemma step_effect_fun [simp]:
  "step_effect i (Advance v) = cache_result i v"
  "step_effect i (Stop err) = (if is_wait err then mark_waiting err else mark_failed err)"
  "step_effect i (StepPanicked s) = (\<lambda>x. x)" "step_effect i StepNoFuel = (\<lambda>x. x)"
  by (simp_all add: fun_eq_iff)

lemma ctx_wf_Err: "ctx_wf c \<Longrightarrow> ctx_Err c now = Some er \<Longrightarrow> \<not> is_wait er"
  by (auto simp: ctx_wf_def ctx_Err_def is_wait_def split: option.splits if_splits)

lemma select_sleep_wf: "ctx_wf c \<Longrightarrow> select_sleep c d now = (Some er, t) \<Longrightarrow> \<not> is_wait er"
  by (auto simp: ctx_wf_def select_sleep_def is_wait_def split: option.splits if_splits)

lemma select_sleep_time: "select_sleep c d now = (r, t) \<Longrightarrow> now \<le> t"
  by (auto simp: select_sleep_def split: option.splits if_splits)

text \<open>
  The effect of a run of steps \<open>i \<dots> i + n - 1\<close> on its instance: identity and input are kept,
  cached results are kept and only indices of the run are added; the run advances through all
  its steps, or stops at the first step that has no result, which \<open>CurrentStep\<close> names.
\<close>

definition same_identity :: "WorkflowInstance \<Rightarrow> WorkflowInstance \<Rightarrow> bool" where
  "same_identity x y \<longleftrightarrow> inst_ID y = inst_ID x \<and> inst_Name y = inst_Name x \<and> inst_Version y = inst_Version x \<and>
     inst_Fingerprint y = inst_Fingerprint x \<and> inst_Input y = inst_Input x"

definition keeps_results :: "WorkflowInstance \<Rightarrow> WorkflowInstance \<Rightarrow> bool" where
  "keeps_results x y \<longleftrightarrow> (\<forall>k v. cached x k = Some v \<longrightarrow> cached y k = Some v)"

definition stopped :: "goerr \<Rightarrow> WorkflowInstance \<Rightarrow> bool" where
  "stopped err y \<longleftrightarrow>
     (if is_wait err then inst_Status y = StatusWaiting \<and> inst_Err y = None
      else inst_Status y = StatusFailed \<and> inst_Err y = Some err)"

fun loop_post :: "nat \<Rightarrow> nat \<Rightarrow> anyv \<Rightarrow> step_outcome \<Rightarrow> WorkflowInstance \<Rightarrow> WorkflowInstance \<Rightarrow> bool" where
  "loop_post i n v (Advance u) x y \<longleftrightarrow>
     inst_Status y = inst_Status x \<and> inst_Err y = inst_Err x \<and> inst_Output y = inst_Output x \<and>
     (\<forall>k. i \<le> k \<and> k < i + n \<longrightarrow> cached y k \<noteq> None) \<and>
     u = (if n = 0 then v else the (cached y (i + n - 1)))"
| "loop_post i n v (Stop err) x y \<longleftrightarrow>
     stopped err y \<and> i \<le> inst_CurrentStep y \<and> inst_CurrentStep y < i + n \<and>
     cached y (inst_CurrentStep y) = None \<and>
     (\<forall>k. i \<le> k \<and> k < inst_CurrentStep y \<longrightarrow> cached y k \<noteq> None) \<and>
     (\<forall>k > inst_CurrentStep y. cached y k = cached x k)"
| "loop_post i n v _ x y \<longleftrightarrow> True"

definition run_post :: "nat \<Rightarrow> nat \<Rightarrow> anyv \<Rightarrow> step_outcome \<Rightarrow> WorkflowInstance \<Rightarrow> WorkflowInstance \<Rightarrow> bool" where
  "run_post i n v r x y \<longleftrightarrow> same_identity x y \<and> keeps_results x y \<and>
     (\<forall>k. k < i \<or> i + n \<le> k \<longrightarrow> cached y k = cached x k) \<and> loop_post i n v r x y"

lemma cached_upd [simp]:
  "cached (x\<lparr>inst_CurrentStep := k\<rparr>) j = cached x j" "cached (mark_failed err x) j = cached x j"
  "cached (mark_waiting err x) j = cached x j"
  "cached (cache_result i v x) j = (if j = i then Some v else cached x j)"
  by (auto simp: cached_def mark_failed_def mark_waiting_def cache_result_def split: option.splits)

lemma same_identity_refl [simp]: "same_identity x x"
  by (simp add: same_identity_def)

lemma same_identity_trans: "same_identity x y \<Longrightarrow> same_identity y z \<Longrightarrow> same_identity x z"
  by (simp add: same_identity_def)

lemma same_identity_upd [simp]:
  "same_identity x (y\<lparr>inst_CurrentStep := k\<rparr>) = same_identity x y"
  "same_identity x (mark_failed err y) = same_identity x y"
  "same_identity x (mark_waiting err y) = same_identity x y"
  "same_identity x (cache_result i v y) = same_identity x y"
  by (simp_all add: same_identity_def mark_failed_def mark_waiting_def cache_result_def)

lemma stopped_effect:
  "stopped err (if is_wait err then mark_waiting err x else mark_failed err x)"
  by (simp add: stopped_def mark_waiting_def mark_failed_def)

text \<open>One step in front of a run.\<close>

lemma loop_post_front:
  assumes "loop_post (Suc i) n u r z y" "cached y i = Some u"
    and "inst_Status z = inst_Status x" "inst_Err z = inst_Err x" "inst_Output z = inst_Output x"
    and "\<And>k. i < k \<Longrightarrow> cached z k = cached x k"
  shows "loop_post i (Suc n) v r x y"
proof (cases r)
  case (Advance v')
  have "cached y k \<noteq> None" if "i \<le> k" "k < i + Suc n" for k
    using assms(1,2) Advance that by (cases "k = i") auto
  with Advance assms show ?thesis by auto
next
  case (Stop err)
  have "cached y k \<noteq> None" if "i \<le> k" "k < inst_CurrentStep y" for k
    using assms(1,2) Stop that by (cases "k = i") auto
  moreover have "cached y k = cached x k" if "inst_CurrentStep y < k" for k
    using assms(1) assms(6) [of k] Stop that by auto
  ultimately show ?thesis using Stop assms(1-5) by auto
qed auto

lemma run_post_skip:
  assumes "cached x i = Some u" "run_post (Suc i) n u r (x\<lparr>inst_CurrentStep := Suc i\<rparr>) y"
  shows "run_post i (Suc n) v r x y"
proof -
  have "cached y i = Some u" using assms by (auto simp: run_post_def)
  then have "loop_post i (Suc n) v r x y"
    using assms(2) by (intro loop_post_front [of i n u r "x\<lparr>inst_CurrentStep := Suc i\<rparr>"]) (auto simp: run_post_def)
  with assms show ?thesis by (auto simp: run_post_def same_identity_def keeps_results_def)
qed

lemma run_post_advance:
  assumes "cached x i = None" "run_post (Suc i) n u r (cache_result i u (x\<lparr>inst_CurrentStep := i\<rparr>)) y"
  shows "run_post i (Suc n) v r x y"
proof -
  let ?z = "cache_result i u (x\<lparr>inst_CurrentStep := i\<rparr>)"
  have rp: "same_identity ?z y" "keeps_results ?z y" "loop_post (Suc i) n u r ?z y"
    and old: "\<And>k. k < Suc i \<or> Suc i + n \<le> k \<Longrightarrow> cached y k = cached ?z k"
    using assms(2) by (auto simp: run_post_def)
  from old [of i] have "cached y i = Some u" by simp
  then have "loop_post i (Suc n) v r x y"
    using rp(3) by (intro loop_post_front [of i n u r ?z]) (simp_all, simp_all add: cache_result_def)
  moreover have "same_identity x y" using rp(1) by (simp add: same_identity_def cache_result_def)
  moreover have "keeps_results x y"
    using rp(2) assms(1) unfolding keeps_results_def
    by (metis cached_upd(1,4) option.distinct(1))
  moreover have "cached y k = cached x k" if "k < i \<or> i + Suc n \<le> k" for k
    using old [of k] that by auto
  ultimately show ?thesis by (simp add: run_post_def)
qed

lemma run_post_stop:
  assumes "cached x i = None"
  shows "run_post i (Suc n) v (Stop err) x (step_effect i (Stop err) (x\<lparr>inst_CurrentStep := i\<rparr>))"
proof -
  let ?y = "step_effect i (Stop err) (x\<lparr>inst_CurrentStep := i\<rparr>)"
  have "inst_CurrentStep ?y = i" by (simp add: mark_failed_def mark_waiting_def)
  moreover have "stopped err ?y" using stopped_effect [of err] by auto
  moreover have "same_identity x ?y \<and> (\<forall>k. cached ?y k = cached x k)" by simp
  ultimately show ?thesis using assms by (auto simp: run_post_def keeps_results_def simp del: step_effect_fun)
qed

text \<open>How the attempts of a step end: the last thing they do, by the outcome they report.\<close>

inductive settled :: "('s, 'q, 'e) engineImpl \<Rightarrow> addr \<Rightarrow> nat \<Rightarrow> string \<Rightarrow> step_outcome
     \<Rightarrow> ('s, 'q, 'e, 'u) world \<Rightarrow> ('s, 'q, 'e, 'u) world \<Rightarrow> bool"
  for e :: "('s, 'q, 'e) engineImpl" and a i name where
  succeed: "settled e a i name (Advance v) w (succeed_step e c a i name v w)"
| cancel: "\<not> is_wait err \<Longrightarrow> settled e a i name (Stop err) w (cancel_step e c a i name notify err w)"
| fail: "\<not> is_wait err \<Longrightarrow> settled e a i name (Stop err) w (fail_step e c a i name err w)"
| park_signal: "WaitForSignalMeta err = Some (n, rp) \<Longrightarrow> settled e a i name (Stop err) w (park_signal e c a i name rp w)"
| park_children: "WaitForSignalMeta err = None \<Longrightarrow> AsWaitForChildren err \<Longrightarrow>
    settled e a i name (Stop err) w (park_children e c a i name w)"
| park_any_child: "WaitForSignalMeta err = None \<Longrightarrow> IsWaitForAnyChildError err \<Longrightarrow>
    settled e a i name (Stop err) w (park_any_child e a w)"
| panicked: "settled e a i name (StepPanicked s) w w"
| no_fuel: "settled e a i name StepNoFuel w w"

context engine_store
begin

lemma touch_cancel:
  assumes "e_instances e = S" "wf_world inv w" "a < length (w_heap w)"
  shows "touch inv a (mark_failed err) w (cancel_step e c a i name notify err w)"
proof -
  have "touch inv a (mark_failed err) w (set_inst a (\<lambda>x. x\<lparr>inst_Status := StatusFailed, inst_Err := Some err\<rparr>) w)"
    using touch_set [of w a "mark_failed err"] assms by (simp add: mark_failed_def [abs_def])
  then show ?thesis using assms(1)
    by (cases notify) (simp_all add: cancel_step_def Let_def touch_intros)
qed

lemma touch_succeed:
  assumes "e_instances e = S" "wf_world inv w" "a < length (w_heap w)"
  shows "touch inv a (cache_result i v) w (succeed_step e c a i name v w)"
proof -
  have "touch inv a (cache_result i v) w (set_inst a (cache_result i v) w)"
    using touch_set [of w a "cache_result i v"] assms by (simp add: cache_result_def [abs_def])
  then show ?thesis using assms(1)
    by (simp add: succeed_step_def cache_result_def [abs_def] Let_def touch_intros)
qed

lemma touch_fail:
  assumes "e_instances e = S" "wf_world inv w" "a < length (w_heap w)"
  shows "touch inv a (mark_failed err) w (fail_step e c a i name err w)"
proof -
  have "touch inv a (mark_failed err) w (set_inst a (\<lambda>x. x\<lparr>inst_Status := StatusFailed, inst_Err := Some err\<rparr>) w)"
    using touch_set [of w a "mark_failed err"] assms by (simp add: mark_failed_def [abs_def])
  then show ?thesis using assms(1) by (simp add: fail_step_def Let_def touch_intros)
qed

lemma touch_park:
  assumes "e_instances e = S" "wf_world inv w" "a < length (w_heap w)"
  shows "WaitForSignalMeta err = Some (n, rp) \<Longrightarrow>
      touch inv a (mark_waiting err) w (park_signal e c a i name rp w)"
    and "WaitForSignalMeta err = None \<Longrightarrow> touch inv a (mark_waiting err) w (park_children e c a i name w)"
    and "WaitForSignalMeta err = None \<Longrightarrow> touch inv a (mark_waiting err) w (park_any_child e a w)"
proof -
  let ?f = "\<lambda>x. x\<lparr>inst_Status := StatusWaiting, inst_Err := None, inst_Output := WaitMeta ''signal'' rp\<rparr>"
  let ?g = "\<lambda>x. x\<lparr>inst_Status := StatusWaiting, inst_Err := None\<rparr>"
  have f: "touch inv a ?f w (set_inst a ?f w)" using touch_set [of w a ?f] assms by simp
  have g: "touch inv a ?g w (set_inst a ?g w)" using touch_set [of w a ?g] assms by simp
  show "touch inv a (mark_waiting err) w (park_signal e c a i name rp w)"
    if "WaitForSignalMeta err = Some (n, rp)"
    using f assms(1) that
    by (simp add: park_signal_def Let_def touch_intros mark_waiting_def [abs_def] waiting_output_def)
  have mg: "touch inv a (mark_waiting err) w (set_inst a ?g w)" if "WaitForSignalMeta err = None"
    using g by (rule touch_cong) (simp add: mark_waiting_def waiting_output_def that)
  then show "touch inv a (mark_waiting err) w (park_children e c a i name w)"
    if "WaitForSignalMeta err = None"
    using assms(1) that by (simp add: park_children_def Let_def touch_intros)
  show "touch inv a (mark_waiting err) w (park_any_child e a w)" if "WaitForSignalMeta err = None"
    using mg assms(1) that by (simp add: park_any_child_def Let_def touch_intros)
qed

lemma evolve_invoke:
  assumes "runner_frame inv R" "wf_world inv w" "invoke_step R c a i step v w = (r, w')" "ctx_wf c"
  shows "evolve inv w w'"
proof -
  let ?w1 = "observe (OnStepStart (w_inst w a) (step_Name step) i) w"
  obtain r2 w2 where R: "R (step_Fn step) c v ?w1 = (r2, w2)" by (cases "R (step_Fn step) c v ?w1")
  have 1: "evolve inv w ?w1" using assms(2) by (rule evolve_observe)
  then have "wf_world inv ?w1" by (rule evolve_wf)
  then have "evolve inv ?w1 w2" using assms(1,4) R unfolding runner_frame_def by blast
  with 1 have 2: "evolve inv w w2" by (rule evolve_trans)
  moreover have "evolve inv w (observe cb w2)" for cb
    using evolve_trans [OF 2 evolve_observe [OF evolve_wf [OF 2]]] .
  ultimately show ?thesis
    using assms(3) R by (auto simp: invoke_step_def Let_def split: res.splits)
qed

lemma touch_after: "evolve inv w w1 \<Longrightarrow> a < length (w_heap w) \<Longrightarrow> touch inv a f w1 w2 \<Longrightarrow> touch inv a f w w2"
  unfolding touch_def by (auto simp: evolve_def heap_ext_def core_def w_inst_def)

lemma attempt_loop_settles:
  assumes R: "runner_frame inv R" and c: "ctx_wf c"
  shows "wf_world inv w \<Longrightarrow> attempt_loop e R c a i step rs left backoff v w = (r, w') \<Longrightarrow>
    \<exists>w1. evolve inv w w1 \<and> settled e a i (step_Name step) r w1 w'"
proof (induction left arbitrary: backoff w rule: less_induct)
  case (less left backoff w)
  note al = less.prems(2) [unfolded attempt_loop.simps [of e R c a i step rs left backoff v w]]
  show ?case
  proof (cases "ctx_Err c (w_clock w)")
    case (Some er)
    with al evolve_refl [OF less.prems(1)] show ?thesis by (auto intro: settled.cancel [OF ctx_wf_Err [OF c Some]])
  next
    case None
    obtain x w1 where inv1: "invoke_step R (WithEngine c) a i step v w = (x, w1)"
      by (cases "invoke_step R (WithEngine c) a i step v w")
    have ev: "evolve inv w w1" using evolve_invoke [OF R less.prems(1) inv1] c by simp
    note wf1 = evolve_wf [OF ev]
    show ?thesis
    proof (cases "\<exists>err. x = Done (Inl err) \<and> \<not> is_wait err \<and> left > 0")
      case False
      then have "settled e a i (step_Name step) r w1 w'"
        using al None inv1
        by (auto simp: is_wait_def split: res.splits sum.splits option.splits if_splits nat.splits
            intro!: settled.intros)
      with ev show ?thesis by blast
    next
      case True
      then obtain err left' where x: "x = Done (Inl err)" and nw: "\<not> is_wait err" and left: "left = Suc left'"
        by (metis gr0_implies_Suc)
      have m: "WaitForSignalMeta err = None" "\<not> AsWaitForChildren err" "\<not> IsWaitForAnyChildError err"
        using nw unfolding is_wait_def by blast+
      have again: ?thesis
        if w2: "evolve inv w1 w2" and "attempt_loop e R c a i step rs left' b v w2 = (r, w')" for b w2
        using less.IH [OF _ evolve_wf [OF w2] that(2)] left evolve_trans [OF evolve_trans [OF ev w2]] by blast
      show ?thesis
      proof (cases "backoff > 0")
        case False
        with al None inv1 x m left again [OF evolve_refl [OF wf1]] show ?thesis by simp
      next
        case True
        obtain se t where ss: "select_sleep c (attempt_delay rs backoff) (w_clock w1) = (se, t)"
          by (cases "select_sleep c (attempt_delay rs backoff) (w_clock w1)")
        note ev2 = evolve_clock [OF wf1 select_sleep_time [OF ss]]
        show ?thesis
        proof (cases se)
          case None
          with al \<open>ctx_Err c (w_clock w) = None\<close> inv1 x m left True ss again [OF ev2] show ?thesis by simp
        next
          case (Some er)
          have "settled e a i (step_Name step) (Stop er) (w1\<lparr>w_clock := t\<rparr>)
              (cancel_step e c a i (step_Name step) False er (w1\<lparr>w_clock := t\<rparr>))"
            by (rule settled.cancel [OF select_sleep_wf [OF c ss [unfolded Some]]])
          with al None inv1 x m left True ss Some evolve_trans [OF ev ev2] show ?thesis by auto
        qed
      qed
    qed
  qed
qed

lemma settled_touch:
  assumes "settled e a i name r w w'" "e_instances e = S" "wf_world inv w" "a < length (w_heap w)"
  shows "touch inv a (step_effect i r) w w'"
  using assms
proof cases
  case (park_signal err n rp c)
  then show ?thesis using touch_park(1) [OF assms(2-4)] by (auto simp: is_wait_def)
qed (auto simp: is_wait_def touch_refl intro: touch_succeed touch_cancel touch_fail touch_park(2,3))

lemma attempt_loop_touch:
  assumes "e_instances e = S" "runner_frame inv R" "ctx_wf c" "wf_world inv w" "a < length (w_heap w)"
    and "attempt_loop e R c a i step rs left backoff v w = (r, w')"
  shows "touch inv a (step_effect i r) w w'"
proof -
  from attempt_loop_settles [OF assms(2-4,6)] obtain w1 where w1: "evolve inv w w1"
    "settled e a i (step_Name step) r w1 w'" by blast
  have "a < length (w_heap w1)" using w1(1) assms(5) by (auto simp: evolve_def heap_ext_def)
  from touch_after [OF w1(1) assms(5) settled_touch [OF w1(2) assms(1) evolve_wf [OF w1(1)] this]] show ?thesis .
qed

end

section \<open>The effect of a run\<close>

context engine_store
begin

lemma touch_skip:
  assumes "e_instances e = S" "wf_world inv w" "a < length (w_heap w)"
  shows "touch inv a (\<lambda>x. x\<lparr>inst_CurrentStep := Suc i\<rparr>) w (skip_cached e a i w)"
  using touch_update [OF assms(1) touch_set [OF assms(2,3), of "\<lambda>x. x\<lparr>inst_CurrentStep := Suc i\<rparr>"]]
  by (simp add: skip_cached_def)

lemma touch_enter:
  assumes "e_instances e = S" "wf_world inv w" "a < length (w_heap w)"
  shows "touch inv a (\<lambda>x. x\<lparr>inst_CurrentStep := i\<rparr>) w (enter_step e c a i name w)"
  using touch_emit [OF touch_update [OF assms(1) touch_set [OF assms(2,3), of "\<lambda>x. x\<lparr>inst_CurrentStep := i\<rparr>"]]]
  by (simp add: enter_step_def)

lemma step_loop_post:
  assumes e: "e_instances e = S" and R: "runner_frame inv R" and c: "ctx_wf c"
  shows "wf_world inv w \<Longrightarrow> a < length (w_heap w) \<Longrightarrow> step_loop e R c a i steps v w = (r, w') \<Longrightarrow>
    \<exists>f. touch inv a f w w' \<and> run_post i (length steps) v r (core w a) (core w' a)"
proof (induction steps arbitrary: i v w)
  case Nil
  then show ?case
    by (auto simp: run_post_def keeps_results_def intro!: exI [of _ "\<lambda>x. x"] touch_refl)
next
  case (Cons step steps)
  define w1 where "w1 = renewInstanceLease e c (inst_ID (w_inst w a)) w"
  have t1: "touch inv a (\<lambda>x. x) w w1"
    unfolding w1_def by (rule touch_renew [OF e touch_refl [OF Cons.prems(1,2)]])
  note w1 = touchD [OF t1]
  show ?case
  proof (cases "cached (w_inst w1 a) i")
    case (Some u)
    have t2: "touch inv a (\<lambda>x. x\<lparr>inst_CurrentStep := Suc i\<rparr>) w1 (skip_cached e a i w1)"
      by (rule touch_skip [OF e w1(2,3)])
    note w2 = touchD [OF t2]
    from Cons.prems(3) Some have "step_loop e R c a (Suc i) steps u (skip_cached e a i w1) = (r, w')"
      by (simp add: w1_def Let_def)
    from Cons.IH [OF w2(2,3) this] obtain f where f: "touch inv a f (skip_cached e a i w1) w'"
      "run_post (Suc i) (length steps) u r (core (skip_cached e a i w1) a) (core w' a)" by blast
    have "cached (core w a) i = Some u" using Some w1(1) by (metis cached_core)
    with f(2) w1(1) w2(1) have "run_post i (length (step # steps)) v r (core w a) (core w' a)"
      using run_post_skip by simp
    with touch_trans [OF t1 touch_trans [OF t2 f(1)]] show ?thesis by blast
  next
    case None
    define w2 where "w2 = enter_step e c a i (step_Name step) w1"
    have t2: "touch inv a (\<lambda>x. x\<lparr>inst_CurrentStep := i\<rparr>) w1 w2"
      unfolding w2_def by (rule touch_enter [OF e w1(2,3)])
    note w2 = touchD [OF t2]
    obtain x w3 where ra: "run_attempts e R c a i step v w2 = (x, w3)"
      by (cases "run_attempts e R c a i step v w2")
    have t3: "touch inv a (step_effect i x) w2 w3"
      using ra attempt_loop_touch [OF e R c w2(2,3)] unfolding run_attempts_def Let_def by blast
    note w3 = touchD [OF t3]
    have none: "cached (core w a) i = None" using None w1(1) by (metis cached_core)
    have c3: "core w3 a = step_effect i x ((core w a)\<lparr>inst_CurrentStep := i\<rparr>)" using w1(1) w2(1) w3(1) by simp
    note t123 = touch_trans [OF t1 touch_trans [OF t2 t3]]
    have loop: "(case x of Advance u \<Rightarrow> step_loop e R c a (Suc i) steps u w3 | _ \<Rightarrow> (x, w3)) = (r, w')"
      using Cons.prems(3) None ra by (auto simp: w1_def w2_def Let_def split: step_outcome.splits)
    show ?thesis
    proof (cases x)
      case (Advance u)
      with loop have "step_loop e R c a (Suc i) steps u w3 = (r, w')" by simp
      from Cons.IH [OF w3(2,3) this] obtain f where f: "touch inv a f w3 w'"
        "run_post (Suc i) (length steps) u r (core w3 a) (core w' a)" by blast
      have "run_post i (length (step # steps)) v r (core w a) (core w' a)"
        using run_post_advance [OF none] f(2) c3 Advance by simp
      with touch_trans [OF t123 f(1)] show ?thesis by blast
    next
      case (Stop err)
      with loop c3 run_post_stop [OF none, of "length steps" v err] t123 show ?thesis by auto
    next
      case (StepPanicked s)
      with loop c3 t123 show ?thesis by (auto simp: run_post_def keeps_results_def)
    next
      case StepNoFuel
      with loop c3 t123 show ?thesis by (auto simp: run_post_def keeps_results_def)
    qed
  qed
qed

end

section \<open>The effect of executeSteps\<close>

definition exec_post :: "nat \<Rightarrow> nat \<Rightarrow> anyv \<Rightarrow> goerr option \<Rightarrow> WorkflowInstance \<Rightarrow> WorkflowInstance \<Rightarrow> bool" where
  "exec_post s n v erro x y \<longleftrightarrow> same_identity x y \<and> keeps_results x y \<and>
     (\<forall>k. k < s \<or> n \<le> k \<longrightarrow> cached y k = cached x k) \<and>
     (case erro of
        None \<Rightarrow> inst_Status y = StatusCompleted \<and> inst_CurrentStep y = n \<and> inst_Err y = inst_Err x \<and>
          inst_Output y = (if n \<le> s then v else the (cached y (n - 1))) \<and>
          (\<forall>k. s \<le> k \<and> k < n \<longrightarrow> cached y k \<noteq> None)
      | Some err \<Rightarrow> stopped err y \<and> s \<le> inst_CurrentStep y \<and> inst_CurrentStep y < n \<and>
          cached y (inst_CurrentStep y) = None \<and>
          (\<forall>k. s \<le> k \<and> k < inst_CurrentStep y \<longrightarrow> cached y k \<noteq> None) \<and>
          (\<forall>k > inst_CurrentStep y. cached y k = cached x k))"

context engine_store
begin

lemma touch_complete:
  assumes "e_instances e = S" "wf_world inv w" "a < length (w_heap w)"
  shows "touch inv a (\<lambda>x. x\<lparr>inst_Status := StatusCompleted, inst_Output := v, inst_CurrentStep := n\<rparr>) w
    (complete_workflow e c a n v w)"
proof -
  let ?f = "\<lambda>x. x\<lparr>inst_Status := StatusCompleted, inst_Output := v, inst_CurrentStep := n\<rparr>"
  have "touch inv a ?f w (set_inst a ?f w)" using touch_set [of w a ?f] assms by simp
  then show ?thesis using assms(1) by (simp add: complete_workflow_def Let_def touch_intros)
qed

lemma executeSteps_touch:
  assumes e: "e_instances e = S" and R: "runner_frame inv R" and c: "ctx_wf c"
    and w: "wf_world inv w" "a < length (w_heap w)"
    and ex: "executeSteps e R c def a s v w = (r, w')"
  shows "\<exists>f. touch inv a f w w' \<and>
    (\<forall>ao erro. r = Done (ao, erro) \<longrightarrow>
       ao = Some a \<and> exec_post s (length (def_Steps def)) v erro (core w a) (core w' a))"
proof -
  let ?n = "length (def_Steps def)"
  obtain x w1 where sl: "step_loop e R c a s (drop s (def_Steps def)) v w = (x, w1)"
    by (cases "step_loop e R c a s (drop s (def_Steps def)) v w")
  from step_loop_post [OF e R c w sl] obtain f where f: "touch inv a f w w1"
    "run_post s (?n - s) v x (core w a) (core w1 a)" by auto
  note w1 = touchD [OF f(1)]
  show ?thesis
  proof (cases x)
    case (Advance u)
    note tc = touch_complete [OF e w1(2,3), where v = u and n = ?n and c = c]
    have w': "w' = complete_workflow e c a ?n u w1" "r = Done (Some a, None)"
      using ex sl Advance by (simp_all add: executeSteps_def)
    have "core w' a = (core w1 a)\<lparr>inst_Status := StatusCompleted, inst_Output := u, inst_CurrentStep := ?n\<rparr>"
      using touchD(1) [OF tc] w' by simp
    then have "exec_post s ?n v None (core w a) (core w' a)"
      using f(2) Advance unfolding exec_post_def run_post_def same_identity_def keeps_results_def
      by (cases "?n \<le> s") (auto simp: cached_def)
    then show ?thesis using touch_trans [OF f(1) tc] w' by blast
  next
    case (Stop err)
    then have w': "w' = w1" "r = Done (Some a, Some err)" using ex sl by (simp_all add: executeSteps_def)
    have "exec_post s ?n v (Some err) (core w a) (core w' a)"
      using f(2) Stop w' unfolding exec_post_def run_post_def by (auto split: if_splits)
    then show ?thesis using f(1) w' by blast
  qed (use ex sl f(1) in \<open>auto simp: executeSteps_def\<close>)
qed

end

section \<open>The runner respects the frame\<close>

lemma loop_iter_frame:
  assumes "\<And>v w r w'. wf_world I w \<Longrightarrow> f v w = (r, w') \<Longrightarrow> evolve I w w'"
  shows "wf_world I w \<Longrightarrow> loop_iter n c f v w = (r, w') \<Longrightarrow> evolve I w w'"
proof (induction n arbitrary: v w)
  case 0
  then show ?case by (auto simp: loop_iter.simps [of 0] evolve_refl split: if_splits)
next
  case (Suc n)
  obtain x w1 where x: "f v w = (x, w1)" by (cases "f v w")
  have 1: "evolve I w w1" using assms [OF Suc.prems(1) x] .
  have "evolve I w w'" if "loop_iter n c f u w1 = (r, w')" for u
    using evolve_trans [OF 1 Suc.IH [OF evolve_wf [OF 1] that]] .
  then show ?case using Suc.prems 1 x
    by (auto simp: loop_iter.simps [of "Suc n"] evolve_refl split: if_splits res.splits sum.splits)
qed

context engine_store
begin

lemma evolve_GetInstance:
  assumes "e_instances e = S" "wf_world inv w" "GetInstance e i w = (r, w')"
  shows "evolve inv w w'"
proof -
  obtain x w1 where x: "load_instance e i w = (x, w1)" by (cases "load_instance e i w")
  have 1: "evolve inv w w1" using evolve_load [OF assms(1,2) x] by blast
  have "evolve inv w (releaseInstanceLease e d j w1)" for d j
    using evolve_trans [OF 1 evolve_release [OF assms(1) evolve_wf [OF 1]]] .
  with 1 assms(3) x show ?thesis
    by (auto simp: GetInstance_def Let_def split: sum.splits if_splits)
qed

lemma run_fn_frame:
  assumes e: "e_instances e = S"
    and child: "\<And>c name v w r w'. ctx_wf c \<Longrightarrow> wf_world inv w \<Longrightarrow> child c name v w = (r, w') \<Longrightarrow> evolve inv w w'"
  shows "runner_frame inv (run_fn e n child)"
proof -
  have "evolve inv w w'"
    if "interp (engine_effects e child c) n p w = (r, w')" "wf_world inv w" and c: "ctx_wf c" for p c w r w'
    using that(1,2)
  proof (induction p arbitrary: w r w')
    case (Work d p)
    have 1: "evolve inv w (w\<lparr>w_clock := w_clock w + int d\<rparr>)" using evolve_clock [OF Work.prems(2)] by simp
    from Work.prems(1) have "interp (engine_effects e child c) n p (w\<lparr>w_clock := w_clock w + int d\<rparr>) = (r, w')"
      by (simp add: engine_effects_def)
    from evolve_trans [OF 1 Work.IH [OF this evolve_wf [OF 1]]] show ?case .
  next
    case (Extern f k)
    have 1: "evolve inv w (w\<lparr>w_extern := f (w_extern w)\<rparr>)" using evolve_extern [OF Extern.prems(2)] .
    from Extern.prems(1) have
      "interp (engine_effects e child c) n (k (w_extern w)) (w\<lparr>w_extern := f (w_extern w)\<rparr>) = (r, w')"
      by (simp add: engine_effects_def)
    from evolve_trans [OF 1 Extern.IH [OF rangeI this evolve_wf [OF 1]]] show ?case .
  next
    case (SelectSleep d k)
    obtain er t where s: "select_sleep c d (w_clock w) = (er, t)" by (cases "select_sleep c d (w_clock w)")
    have 1: "evolve inv w (w\<lparr>w_clock := t\<rparr>)"
      using evolve_clock [OF SelectSleep.prems(2) select_sleep_time [OF s]] .
    from SelectSleep.prems(1) s have "interp (engine_effects e child c) n (k er) (w\<lparr>w_clock := t\<rparr>) = (r, w')"
      by (simp add: engine_effects_def)
    from evolve_trans [OF 1 SelectSleep.IH [OF rangeI this evolve_wf [OF 1]]] show ?case .
  next
    case (EngineRun name v k)
    obtain x w1 where x: "child c name v w = (x, w1)" by (cases "child c name v w")
    have 1: "evolve inv w w1" using child [OF c EngineRun.prems(2) x] .
    have "evolve inv w w'" if "interp (engine_effects e child c) n (k y) w1 = (r, w')" for y
      using evolve_trans [OF 1 EngineRun.IH [OF rangeI that evolve_wf [OF 1]]] .
    with 1 x EngineRun.prems(1) show ?case
      by (auto simp: engine_effects_def split: res.splits prod.splits)
  next
    case (EngineGetInstance i k)
    obtain x w1 where x: "GetInstance e i w = (x, w1)" by (cases "GetInstance e i w")
    have 1: "evolve inv w w1" using evolve_GetInstance [OF e EngineGetInstance.prems(2) x] .
    have "evolve inv w w'" if "interp (engine_effects e child c) n (k y) w1 = (r, w')" for y
      using evolve_trans [OF 1 EngineGetInstance.IH [OF rangeI that evolve_wf [OF 1]]] .
    with x EngineGetInstance.prems(1) show ?case
      by (auto simp: engine_effects_def split: sum.splits)
  next
    case (Loop cd b v k)
    let ?f = "\<lambda>y. interp (engine_effects e child c) n (b y)"
    obtain x w1 where x: "loop_iter n cd ?f v w = (x, w1)" by (cases "loop_iter n cd ?f v w")
    have 1: "evolve inv w w1"
      using loop_iter_frame [OF _ Loop.prems(2) x] Loop.IH(1) [OF rangeI] by blast
    have "evolve inv w w'" if "interp (engine_effects e child c) n (k y) w1 = (r, w')" for y
      using evolve_trans [OF 1 Loop.IH(2) [OF rangeI that evolve_wf [OF 1]]] .
    with 1 x Loop.prems(1) show ?case by (auto split: res.splits)
  next
    case (TimeNow k)
    from TimeNow.prems(1) show ?case by (intro TimeNow.IH [OF rangeI _ TimeNow.prems(2)]) simp
  next
    case (EngineCtx k)
    from EngineCtx.prems(1) show ?case by (intro EngineCtx.IH [OF rangeI _ EngineCtx.prems(2)]) simp
  qed (auto simp: evolve_refl)
  then show ?thesis
    by (auto simp: runner_frame_def run_fn_def evolve_refl split: option.splits)
qed

end

section \<open>Creating and running instances\<close>

lemma nextInstanceID_sel:
  assumes "nextInstanceID w = (i, w')"
  shows "w_heap w' = w_heap w" "w_store w' = w_store w" "w_workflows w' = w_workflows w"
    "w_queue w' = w_queue w" "w_clock w' = w_clock w"
  using assms by (auto simp: nextInstanceID_def Let_def)

context engine_store
begin

text \<open>A new instance is allocated at the end of the heap; the rest of the heap is as before.\<close>

lemma create_instance_new:
  assumes e: "e_instances e = S" and wf: "wf_world inv w"
    and cr: "create_instance e def st v w = ((a, erro), w')"
  shows "a = length (w_heap w)"
    "\<exists>w1 f. touch inv a f w1 w' \<and> w_heap w1 = w_heap w @ [new_instance (fst (nextInstanceID w)) def st v] \<and>
       w_workflows w1 = w_workflows w \<and> w_queue w1 = w_queue w \<and> w_clock w1 = w_clock w \<and>
       (erro = None \<longrightarrow> f = (\<lambda>x. x))"
proof -
  obtain i w1 where id: "nextInstanceID w = (i, w1)" by (cases "nextInstanceID w")
  note sel = nextInstanceID_sel [OF id]
  let ?x = "new_instance i def st v"
  define w2 where "w2 = w1\<lparr>w_heap := w_heap w1 @ [?x]\<rparr>"
  define w3 where "w3 = observe (OnWorkflowStart (w_inst w2 (length (w_heap w)))) w2"
  obtain er s where sv: "is_SaveInstance S (length (w_heap w)) (w_heap w3) (w_store w3) = (er, s)"
    by (cases "is_SaveInstance S (length (w_heap w)) (w_heap w3) (w_store w3)")
  define w4 where "w4 = w3\<lparr>w_store := s\<rparr>"
  have unf: "create_instance e def st v w =
    (case er of
       Some er \<Rightarrow> ((length (w_heap w), Some er),
         observe (OnWorkflowFailed (w_inst (set_inst (length (w_heap w)) (mark_failed er) w4) (length (w_heap w))) er)
           (set_inst (length (w_heap w)) (mark_failed er) w4))
     | None \<Rightarrow> ((length (w_heap w), None), w4))"
    using id sv e
    by (cases er) (simp_all add: create_instance_def alloc_def Let_def sel w4_def w3_def w2_def mark_failed_def [abs_def])
  have h: "w_heap w2 = w_heap w @ [?x]" "w_heap w4 = w_heap w @ [?x]" by (simp_all add: w2_def w3_def w4_def sel)
  have wf2: "wf_world inv w2" using alloc_law [of "w_heap w" "w_store w" ?x] wf
    by (simp add: wf_world_def w2_def sel)
  have "inv (w_heap w2, s)"
    using save_law [of "w_heap w3" "w_store w3" "length (w_heap w)" er s] sv wf2 h
    by (simp add: w3_def wf_world_def observe_def)
  then have t4: "touch inv (length (w_heap w)) (\<lambda>x. x) w2 w4"
    by (simp add: touch_def wf_world_def w4_def w3_def observe_def h core_def w_inst_def)
  note w4 = touchD [OF t4]
  have tf: "touch inv (length (w_heap w)) (mark_failed er) w2
      (observe cb (set_inst (length (w_heap w)) (mark_failed er) w4))" for er cb
    using touch_observe [OF touch_trans [OF t4 touch_set [OF w4(2,3), of "mark_failed er"]]]
    by (simp add: mark_failed_def [abs_def])
  show "a = length (w_heap w)" using cr unf by (simp split: option.splits)
  moreover have "w_workflows w2 = w_workflows w" "w_queue w2 = w_queue w" "w_clock w2 = w_clock w"
    by (simp_all add: w2_def sel)
  ultimately show "\<exists>w1 f. touch inv a f w1 w' \<and>
      w_heap w1 = w_heap w @ [new_instance (fst (nextInstanceID w)) def st v] \<and>
      w_workflows w1 = w_workflows w \<and> w_queue w1 = w_queue w \<and> w_clock w1 = w_clock w \<and>
      (erro = None \<longrightarrow> f = (\<lambda>x. x))"
    using cr unf t4 tf h id by (intro exI [of _ w2]) (auto split: option.splits)
qed

lemma evolve_Run:
  assumes e: "e_instances e = S" and R: "runner_frame inv R" and c: "ctx_wf c"
    and wf: "wf_world inv w" and run: "Run e R c name v w = (r, w')"
  shows "evolve inv w w'"
proof (cases "GetLatestWorkflow name (w_workflows w)")
  case (Inl er)
  with run wf show ?thesis by (simp add: Run_def evolve_refl)
next
  case (Inr def)
  obtain a erro w2 where cr: "create_instance e def StatusRunning v w = ((a, erro), w2)"
    by (metis prod.exhaust)
  from create_instance_new [OF e wf cr] obtain w1 f where a: "a = length (w_heap w)"
    and t: "touch inv a f w1 w2" "w_heap w1 = w_heap w @ [new_instance (fst (nextInstanceID w)) def StatusRunning v]"
    and same: "w_workflows w1 = w_workflows w" "w_queue w1 = w_queue w" "w_clock w1 = w_clock w" by blast
  show ?thesis
  proof (cases erro)
    case (Some er)
    with run Inr cr touch_evolve_new [OF t a same] show ?thesis by (simp add: Run_def)
  next
    case None
    let ?w3 = "emitEvent e c a EventWorkflowStarted (- 1) '''' w2"
    have t3: "touch inv a f w1 ?w3" using touch_emit [OF t(1)] .
    have ex: "executeSteps e R c def a 0 v ?w3 = (r, w')" using run Inr cr None by (simp add: Run_def)
    from executeSteps_touch [OF e R c touchD(2,3) [OF t3] ex] obtain g where "touch inv a g ?w3 w'" by blast
    from touch_evolve_new [OF touch_trans [OF t3 this] t(2) a same] show ?thesis .
  qed
qed

end

text \<open>The engine's own runner, and with it every operation of the engine, respects the frame.\<close>

context engine_store
begin

lemma step_runner_frame:
  assumes "e_instances e = S"
  shows "runner_frame inv (step_runner e n d)"
proof (induction d)
  case 0
  show ?case unfolding step_runner.simps
    by (rule run_fn_frame [OF assms]) (auto simp: evolve_refl)
next
  case (Suc d)
  show ?case unfolding step_runner.simps
    by (rule run_fn_frame [OF assms]) (rule evolve_Run [OF assms Suc])
qed

end

end
