(* ===== verification/Memory_Queue.thy ===== *)
theory Memory_Queue
  imports Task_Queue
begin

text \<open>
  \<^verbatim>\<open>internal/taskqueue/inmemory_queue.go\<close>: the lease-based queue on a slice and a map, its
  invariant, and the proof that it meets the contract \<open>task_queue\<close>.
\<close>

section \<open>Model\<close>

record leasedTask =
  lt_task :: Task
  lt_owner :: string
  lt_expiry :: time

text \<open>\<open>mq_nextID\<close> is an \<^verbatim>\<open>int64\<close> counter.\<close>

record InMemoryQueue =
  mq_nextID :: int
  mq_ready :: "Task list"
  mq_inflight :: "(string \<times> leasedTask) list"

definition NewInMemoryQueue :: InMemoryQueue where
  "NewInMemoryQueue = \<lparr>mq_nextID = 0, mq_ready = [], mq_inflight = []\<rparr>"

definition InMemory_Enqueue :: "time \<Rightarrow> goerr option \<Rightarrow> Task \<Rightarrow> InMemoryQueue \<Rightarrow> goerr option \<times> InMemoryQueue" where
  "InMemory_Enqueue now cerr t q =
     (case cerr of
        Some e \<Rightarrow> (Some e, q)
      | None \<Rightarrow>
          let (t1, q1) = (if task_ID t = ''''
                then let n = signed_take_bit 63 (mq_nextID q + 1) in (t\<lparr>task_ID := FormatInt n\<rparr>, q\<lparr>mq_nextID := n\<rparr>)
                else (t, q))
          in (None, q1\<lparr>mq_ready := mq_ready q1 @ [t1]\<rparr>))"

text \<open>The loop over \<^verbatim>\<open>q.inflight\<close> that moves tasks with an expired lease back to \<^verbatim>\<open>q.ready\<close>.\<close>

fun requeueExpired :: "time \<Rightarrow> (string \<times> leasedTask) list \<Rightarrow> InMemoryQueue \<Rightarrow> InMemoryQueue" where
  "requeueExpired now [] q = q"
| "requeueExpired now ((i, lt) # rest) q =
     requeueExpired now rest
       (if lt_expiry lt \<le> now
        then q\<lparr>mq_inflight := AList.delete i (mq_inflight q), mq_ready := mq_ready q @ [lt_task lt]\<rparr>
        else q)"

text \<open>The index of the first runnable task.\<close>

fun findRunnable :: "time \<Rightarrow> Task list \<Rightarrow> nat option" where
  "findRunnable now [] = None"
| "findRunnable now (t # ts) =
     (if IsZero (task_NotBefore t) \<or> \<not> now < task_NotBefore t then Some 0
      else map_option Suc (findRunnable now ts))"

definition InMemory_checkTTL :: "duration \<Rightarrow> goerr option" where
  "InMemory_checkTTL ttl = (if ttl \<le> 0 then Some (ErrMsg ''leaseTTL must be > 0'') else None)"

definition InMemory_DequeuePoll :: "time \<Rightarrow> string \<Rightarrow> duration \<Rightarrow> InMemoryQueue
     \<Rightarrow> (goerr + Task option) \<times> InMemoryQueue" where
  "InMemory_DequeuePoll now owner ttl q =
     (let q1 = requeueExpired now (mq_inflight q) q in
      case findRunnable now (mq_ready q1) of
        None \<Rightarrow> (Inr None, q1)
      | Some idx \<Rightarrow>
          let t = mq_ready q1 ! idx in
          (Inr (Some t),
           q1\<lparr>mq_ready := take idx (mq_ready q1) @ drop (Suc idx) (mq_ready q1),
              mq_inflight := AList.update (task_ID t)
                \<lparr>lt_task = t, lt_owner = owner, lt_expiry = now + ttl\<rparr> (mq_inflight q1)\<rparr>))"

definition InMemory_RenewLease :: "time \<Rightarrow> string \<Rightarrow> string \<Rightarrow> duration \<Rightarrow> InMemoryQueue
     \<Rightarrow> goerr option \<times> InMemoryQueue" where
  "InMemory_RenewLease now taskID owner ttl q =
     (if ttl \<le> 0 then (Some (ErrMsg ''leaseTTL must be > 0''), q)
      else case map_of (mq_inflight q) taskID of
        None \<Rightarrow> (Some (ErrMsg ''task not inflight''), q)
      | Some lt \<Rightarrow>
          if lt_owner lt \<noteq> owner then (Some (ErrMsg ''task leased by another owner''), q)
          else (None, q\<lparr>mq_inflight := AList.update taskID (lt\<lparr>lt_expiry := now + ttl\<rparr>) (mq_inflight q)\<rparr>))"

definition InMemory_Ack :: "goerr option \<Rightarrow> string \<Rightarrow> string \<Rightarrow> InMemoryQueue \<Rightarrow> goerr option \<times> InMemoryQueue" where
  "InMemory_Ack cerr taskID owner q =
     (case map_of (mq_inflight q) taskID of
        None \<Rightarrow> (None, q)
      | Some lt \<Rightarrow>
          if lt_owner lt \<noteq> owner then (Some (ErrMsg ''task leased by another owner''), q)
          else (None, q\<lparr>mq_inflight := AList.delete taskID (mq_inflight q)\<rparr>))"

definition InMemory_Nack :: "goerr option \<Rightarrow> string \<Rightarrow> string \<Rightarrow> time \<Rightarrow> int \<Rightarrow> InMemoryQueue
     \<Rightarrow> goerr option \<times> InMemoryQueue" where
  "InMemory_Nack cerr taskID owner notBefore attempts q =
     (case map_of (mq_inflight q) taskID of
        None \<Rightarrow> (None, q)
      | Some lt \<Rightarrow>
          if lt_owner lt \<noteq> owner then (Some (ErrMsg ''task leased by another owner''), q)
          else (None, q\<lparr>mq_inflight := AList.delete taskID (mq_inflight q),
                 mq_ready := mq_ready q @
                   [(lt_task lt)\<lparr>task_NotBefore := notBefore, task_Attempts := attempts\<rparr>]\<rparr>))"

definition InMemory_Len :: "InMemoryQueue \<Rightarrow> nat" where
  "InMemory_Len q = length (mq_ready q) + length (mq_inflight q)"

definition memoryQueue :: "InMemoryQueue Queue" where
  "memoryQueue = \<lparr>q_Enqueue = InMemory_Enqueue, q_checkTTL = InMemory_checkTTL,
     q_DequeuePoll = InMemory_DequeuePoll, q_pollInterval = 10 * Millisecond,
     q_RenewLease = InMemory_RenewLease, q_Ack = InMemory_Ack, q_Nack = InMemory_Nack,
     q_Len = InMemory_Len\<rparr>"

declare InMemory_Enqueue_def [queue_simps] InMemory_DequeuePoll_def [queue_simps]
  InMemory_RenewLease_def [queue_simps] InMemory_Ack_def [queue_simps]
  InMemory_Nack_def [queue_simps] memoryQueue_def [queue_simps]

section \<open>Invariant and view\<close>

definition ready_entry :: "Task \<Rightarrow> string \<times> (Task \<times> lease)" where
  "ready_entry t = (task_ID t, t, Free)"

fun inflight_entry :: "string \<times> leasedTask \<Rightarrow> string \<times> (Task \<times> lease)" where
  "inflight_entry (i, lt) = (i, lt_task lt, Leased (lt_owner lt) (lt_expiry lt))"

definition mq_entries :: "InMemoryQueue \<Rightarrow> (string \<times> (Task \<times> lease)) list" where
  "mq_entries q = map ready_entry (mq_ready q) @ map inflight_entry (mq_inflight q)"

definition mq_view :: "InMemoryQueue \<Rightarrow> table" where
  "mq_view q = map_of (mq_entries q)"

text \<open>
  No identifier occurs twice (neither in \<^verbatim>\<open>ready\<close> nor across \<^verbatim>\<open>ready\<close> and \<^verbatim>\<open>inflight\<close>), and the
  in-flight map is keyed by the task's own identifier.
\<close>

definition mq_inv :: "InMemoryQueue \<Rightarrow> bool" where
  "mq_inv q \<longleftrightarrow> distinct (keys (mq_entries q)) \<and>
     (\<forall>(i, lt) \<in> set (mq_inflight q). task_ID (lt_task lt) = i)"

text \<open>
  \<^verbatim>\<open>Enqueue\<close> does not keep this by itself: it takes an identifier the caller has set as it is, and the counter
  may come to one that is in use. The identifier a task is stored under, and that it is new:
\<close>

definition mq_assigned :: "InMemoryQueue \<Rightarrow> Task \<Rightarrow> string" where
  "mq_assigned q t = (if task_ID t = '''' then FormatInt (signed_take_bit 63 (mq_nextID q + 1)) else task_ID t)"

definition mq_fresh :: "InMemoryQueue \<Rightarrow> Task \<Rightarrow> bool" where
  "mq_fresh q t \<longleftrightarrow> mq_assigned q t \<notin> set (keys (mq_entries q))"

text \<open>
  If the counter has issued all identifiers and has not come to the end of its range, it
  issues a new one.
\<close>

definition mq_issued :: "InMemoryQueue \<Rightarrow> bool" where
  "mq_issued q \<longleftrightarrow> 0 \<le> mq_nextID q \<and> set (keys (mq_entries q)) \<subseteq> FormatInt ` {1..mq_nextID q}"

lemma keys_mq_entries:
  "keys (mq_entries q) = map task_ID (mq_ready q) @ keys (mq_inflight q)"
  by (simp add: mq_entries_def keys_def ready_entry_def comp_def) (auto intro: map_cong)

lemma mq_view_iff: "mq_inv q \<Longrightarrow> mq_view q i = Some e \<longleftrightarrow> (i, e) \<in> set (mq_entries q)"
  by (simp add: mq_view_def mq_inv_def keys_def)

lemma mq_view_None: "mq_view q i = None \<longleftrightarrow> i \<notin> set (keys (mq_entries q))"
  by (simp add: mq_view_def map_of_None_keys)

lemma mq_inv_empty: "mq_inv NewInMemoryQueue"
  by (simp add: mq_inv_def NewInMemoryQueue_def mq_entries_def)

lemma mq_inflight_distinct: "mq_inv q \<Longrightarrow> distinct (keys (mq_inflight q))"
  by (simp add: mq_inv_def keys_mq_entries)

lemma mq_entries_expand:
  "(i, e) \<in> set (mq_entries q) \<longleftrightarrow>
     (\<exists>t \<in> set (mq_ready q). i = task_ID t \<and> e = (t, Free)) \<or>
     (\<exists>lt. (i, lt) \<in> set (mq_inflight q) \<and> e = (lt_task lt, Leased (lt_owner lt) (lt_expiry lt)))"
proof
  assume "(i, e) \<in> set (mq_entries q)"
  then show "(\<exists>t \<in> set (mq_ready q). i = task_ID t \<and> e = (t, Free)) \<or>
     (\<exists>lt. (i, lt) \<in> set (mq_inflight q) \<and> e = (lt_task lt, Leased (lt_owner lt) (lt_expiry lt)))"
    by (auto simp: mq_entries_def ready_entry_def)
next
  assume "(\<exists>t \<in> set (mq_ready q). i = task_ID t \<and> e = (t, Free)) \<or>
     (\<exists>lt. (i, lt) \<in> set (mq_inflight q) \<and> e = (lt_task lt, Leased (lt_owner lt) (lt_expiry lt)))"
  then show "(i, e) \<in> set (mq_entries q)"
    by (auto simp: mq_entries_def ready_entry_def intro: rev_image_eqI)
qed

lemma leasedTask_eta [simp]:
  "\<lparr>lt_task = lt_task lt, lt_owner = lt_owner lt, lt_expiry = lt_expiry lt\<rparr> = lt"
  by simp

lemma mq_view_inflight:
  assumes "mq_inv q"
  shows "mq_view q i = Some (t, Leased w x) \<longleftrightarrow>
    map_of (mq_inflight q) i = Some \<lparr>lt_task = t, lt_owner = w, lt_expiry = x\<rparr>"
proof -
  have "mq_view q i = Some (t, Leased w x) \<longleftrightarrow> (i, \<lparr>lt_task = t, lt_owner = w, lt_expiry = x\<rparr>) \<in> set (mq_inflight q)"
    unfolding mq_view_iff [OF assms] mq_entries_expand
    by fastforce
  also have "\<dots> \<longleftrightarrow> map_of (mq_inflight q) i = Some \<lparr>lt_task = t, lt_owner = w, lt_expiry = x\<rparr>"
    using mq_inflight_distinct [OF assms] by (simp add: keys_def)
  finally show ?thesis .
qed

lemma leased_by_inflight:
  assumes "mq_inv q"
  shows "leased_by (mq_view q) i w \<longleftrightarrow> (\<exists>lt. map_of (mq_inflight q) i = Some lt \<and> lt_owner lt = w)"
  unfolding leased_by_def mq_view_inflight [OF assms]
  by (metis leasedTask.select_convs(2) leasedTask.surjective old.unit.exhaust)

lemma mq_view_eqI:
  assumes "mq_inv q" and "\<And>i e. (i, e) \<in> set (mq_entries q) \<longleftrightarrow> v i = Some e"
  shows "mq_view q = v"
proof
  fix i
  have "mq_view q i = Some e \<longleftrightarrow> v i = Some e" for e
    using assms(2) [of i e] mq_view_iff [OF assms(1), of i e] by simp
  then show "mq_view q i = v i" by (metis option.exhaust)
qed

section \<open>The operations preserve the invariant and act on the view\<close>

lemma mq_issued_fresh:
  assumes "mq_issued q" "mq_nextID q < 2 ^ 63 - 1" "task_ID t = ''''"
  shows "mq_fresh q t"
proof -
  have n: "signed_take_bit 63 (mq_nextID q + 1) = mq_nextID q + 1"
    using assms(1,2) by (simp add: mq_issued_def signed_take_bit_int_eq_self)
  have "FormatInt (mq_nextID q + 1) \<notin> FormatInt ` {1..mq_nextID q}" by (auto simp: FormatInt_inject)
  with assms(1,3) n show ?thesis by (auto simp: mq_fresh_def mq_assigned_def mq_issued_def)
qed

lemma InMemory_Enqueue_assigned:
  assumes "InMemory_Enqueue now None t q = (r, q')"
  shows "r = None" "mq_ready q' = mq_ready q @ [t\<lparr>task_ID := mq_assigned q t\<rparr>]" "mq_inflight q' = mq_inflight q"
    "mq_nextID q' = (if task_ID t = '''' then signed_take_bit 63 (mq_nextID q + 1) else mq_nextID q)"
  using assms by (auto simp: InMemory_Enqueue_def mq_assigned_def Let_def split: if_splits)

lemma mem_enqueue:
  assumes "mq_inv q" "mq_fresh q t" "InMemory_Enqueue now None t q = (r, q')"
  defines "i \<equiv> mq_assigned q t"
  shows "r = None" "mq_inv q'" "mq_view q i = None" "mq_view q' = (mq_view q)(i \<mapsto> (t\<lparr>task_ID := i\<rparr>, Free))"
proof -
  note q' = InMemory_Enqueue_assigned [OF assms(3), folded i_def]
  have fresh: "i \<notin> set (keys (mq_entries q))" using assms(2) by (simp add: mq_fresh_def i_def)
  show inv: "mq_inv q'" using fresh assms(1) by (auto simp: mq_inv_def keys_mq_entries q')
  show "r = None" by (rule q')
  show none: "mq_view q i = None" using fresh by (simp add: mq_view_None)
  show "mq_view q' = (mq_view q)(i \<mapsto> (t\<lparr>task_ID := i\<rparr>, Free))"
  proof (rule mq_view_eqI [OF inv])
    fix j e
    have "(j, e) \<in> set (mq_entries q') \<longleftrightarrow> (j, e) = (i, (t\<lparr>task_ID := i\<rparr>, Free)) \<or> (j, e) \<in> set (mq_entries q)"
      by (auto simp: mq_entries_expand q')
    also have "\<dots> \<longleftrightarrow> ((mq_view q)(i \<mapsto> (t\<lparr>task_ID := i\<rparr>, Free))) j = Some e"
      using none by (auto simp: mq_view_iff [OF assms(1), symmetric])
    finally show "(j, e) \<in> set (mq_entries q') \<longleftrightarrow> ((mq_view q)(i \<mapsto> (t\<lparr>task_ID := i\<rparr>, Free))) j = Some e" .
  qed
qed

lemma mq_map_of_inflight: "mq_inv q \<Longrightarrow> map_of (mq_inflight q) i = Some lt \<longleftrightarrow> (i, lt) \<in> set (mq_inflight q)"
  using mq_inflight_distinct [of q] by (simp add: keys_def)

lemma mq_inflight_not_ready:
  "mq_inv q \<Longrightarrow> (i, lt) \<in> set (mq_inflight q) \<Longrightarrow> t \<in> set (mq_ready q) \<Longrightarrow> task_ID t \<noteq> i"
  by (auto simp: mq_inv_def keys_mq_entries dest: in_keysI)

lemma mem_ack:
  assumes "mq_inv q" "InMemory_Ack cerr i owner q = (r, q')"
  shows "mq_inv q' \<and> (leased_by (mq_view q) i owner \<longrightarrow> r = None) \<and>
     mq_view q' = (if leased_by (mq_view q) i owner then (mq_view q)(i := None) else mq_view q)"
proof (cases "\<exists>lt. map_of (mq_inflight q) i = Some lt \<and> lt_owner lt = owner")
  case True
  then obtain lt where lt: "map_of (mq_inflight q) i = Some lt" "lt_owner lt = owner" by blast
  then have q': "q' = q\<lparr>mq_inflight := AList.delete i (mq_inflight q)\<rparr>" and r: "r = None"
    using assms(2) by (simp_all add: InMemory_Ack_def)
  have inv: "mq_inv q'"
    using assms(1) by (auto simp: mq_inv_def keys_mq_entries q' distinct_keys_delete dest: delete_inD)
  have "mq_view q' = (mq_view q)(i := None)"
  proof (rule mq_view_eqI [OF inv])
    fix j e
    have "(j, e) \<in> set (mq_entries q') \<longleftrightarrow> j \<noteq> i \<and> (j, e) \<in> set (mq_entries q)"
      using mq_inflight_not_ready [OF assms(1)] lt(1)
      by (auto simp: mq_entries_expand q' in_delete_iff mq_map_of_inflight [OF assms(1)])
    then show "(j, e) \<in> set (mq_entries q') \<longleftrightarrow> ((mq_view q)(i := None)) j = Some e"
      by (auto simp: mq_view_iff [OF assms(1)])
  qed
  with inv True r show ?thesis by (simp add: leased_by_inflight [OF assms(1)])
next
  case False
  with assms have "q' = q" by (auto simp: InMemory_Ack_def split: option.splits if_splits)
  with False assms(1) show ?thesis by (auto simp: leased_by_inflight)
qed

lemma mem_nack:
  assumes "mq_inv q" "InMemory_Nack cerr i owner nb n q = (r, q')"
  shows "mq_inv q' \<and> (leased_by (mq_view q) i owner \<longrightarrow> r = None) \<and> mq_view q' = (if leased_by (mq_view q) i owner
     then (mq_view q)(i \<mapsto> ((fst (the (mq_view q i)))\<lparr>task_NotBefore := nb, task_Attempts := n\<rparr>, Free))
     else mq_view q)"
proof (cases "\<exists>lt. map_of (mq_inflight q) i = Some lt \<and> lt_owner lt = owner")
  case True
  then obtain lt where lt: "map_of (mq_inflight q) i = Some lt" "lt_owner lt = owner" by blast
  define t' where "t' = (lt_task lt)\<lparr>task_NotBefore := nb, task_Attempts := n\<rparr>"
  from lt have q': "q' = q\<lparr>mq_inflight := AList.delete i (mq_inflight q), mq_ready := mq_ready q @ [t']\<rparr>" and r: "r = None"
    using assms(2) by (simp_all add: InMemory_Nack_def t'_def)
  have lt_in: "(i, lt) \<in> set (mq_inflight q)" using lt(1) by (simp add: mq_map_of_inflight [OF assms(1)])
  then have t': "task_ID t' = i" using assms(1) by (auto simp: mq_inv_def t'_def)
  have notready: "i \<notin> task_ID ` set (mq_ready q)" using mq_inflight_not_ready [OF assms(1) lt_in] by auto
  have inv: "mq_inv q'"
    using assms(1) notready t' in_keysI [OF lt_in]
    by (auto simp: mq_inv_def keys_mq_entries q' distinct_keys_delete dest: delete_inD)
  have v: "mq_view q i = Some (lt_task lt, Leased owner (lt_expiry lt))"
    using lt by (auto simp: mq_view_inflight [OF assms(1)])
  have "mq_view q' = (mq_view q)(i \<mapsto> (t', Free))"
  proof (rule mq_view_eqI [OF inv])
    fix j e
    have "(j, e) \<in> set (mq_entries q') \<longleftrightarrow> (if j = i then e = (t', Free) else (j, e) \<in> set (mq_entries q))"
      using notready t' by (auto simp: mq_entries_expand q' in_delete_iff)
    then show "(j, e) \<in> set (mq_entries q') \<longleftrightarrow> ((mq_view q)(i \<mapsto> (t', Free))) j = Some e"
      by (auto simp: mq_view_iff [OF assms(1)])
  qed
  with inv True v r show ?thesis by (simp add: leased_by_inflight [OF assms(1)] t'_def)
next
  case False
  with assms have "q' = q" by (auto simp: InMemory_Nack_def split: option.splits if_splits)
  with False assms(1) show ?thesis by (auto simp: leased_by_inflight)
qed

lemma mem_renew:
  assumes "mq_inv q" "0 < ttl" "InMemory_RenewLease now i owner ttl q = (r, q')"
  shows "mq_inv q' \<and> mq_view q' = (if leased_by (mq_view q) i owner
     then (mq_view q)(i \<mapsto> (fst (the (mq_view q i)), Leased owner (now + ttl))) else mq_view q)"
proof (cases "\<exists>lt. map_of (mq_inflight q) i = Some lt \<and> lt_owner lt = owner")
  case True
  then obtain lt where lt: "map_of (mq_inflight q) i = Some lt" "lt_owner lt = owner" by blast
  define lt' where "lt' = lt\<lparr>lt_expiry := now + ttl\<rparr>"
  from lt have q': "q' = q\<lparr>mq_inflight := AList.update i lt' (mq_inflight q)\<rparr>"
    using assms(2,3) by (simp add: InMemory_RenewLease_def lt'_def)
  have lt_in: "(i, lt) \<in> set (mq_inflight q)" using lt(1) by (simp add: mq_map_of_inflight [OF assms(1)])
  note d = mq_inflight_distinct [OF assms(1)]
  have notready: "i \<notin> task_ID ` set (mq_ready q)" using mq_inflight_not_ready [OF assms(1) lt_in] by auto
  have inv: "mq_inv q'"
    using assms(1) notready in_keysI [OF lt_in] lt_in d
    by (auto simp: mq_inv_def keys_mq_entries q' distinct_keys_update in_update_iff lt'_def split: if_splits)
  have v: "mq_view q i = Some (lt_task lt, Leased owner (lt_expiry lt))"
    using lt by (auto simp: mq_view_inflight [OF assms(1)])
  have "mq_view q' = (mq_view q)(i \<mapsto> (lt_task lt, Leased owner (now + ttl)))"
  proof (rule mq_view_eqI [OF inv])
    fix j e
    have "(j, e) \<in> set (mq_entries q') \<longleftrightarrow>
        (if j = i then e = (lt_task lt, Leased owner (now + ttl)) else (j, e) \<in> set (mq_entries q))"
      using notready lt(2) by (auto simp: mq_entries_expand q' in_update_iff [OF d] lt'_def)
    then show "(j, e) \<in> set (mq_entries q') \<longleftrightarrow>
        ((mq_view q)(i \<mapsto> (lt_task lt, Leased owner (now + ttl)))) j = Some e"
      by (auto simp: mq_view_iff [OF assms(1)])
  qed
  with inv True v show ?thesis by (simp add: leased_by_inflight [OF assms(1)])
next
  case False
  with assms have "q' = q" by (auto simp: InMemory_RenewLease_def split: option.splits if_splits)
  with False assms(1) show ?thesis by (auto simp: leased_by_inflight)
qed

text \<open>The loop over the in-flight map in closed form.\<close>

definition expired :: "time \<Rightarrow> string \<times> leasedTask \<Rightarrow> bool" where
  "expired now e \<longleftrightarrow> lt_expiry (snd e) \<le> now"

lemma expired_iff [simp]: "expired now (i, lt) \<longleftrightarrow> lt_expiry lt \<le> now"
  by (simp add: expired_def)

lemma requeueExpired_gen:
  "distinct (keys xs) \<Longrightarrow> requeueExpired now xs q =
     q\<lparr>mq_inflight := filter (\<lambda>e. fst e \<notin> set (keys (filter (expired now) xs))) (mq_inflight q),
       mq_ready := mq_ready q @ map (lt_task \<circ> snd) (filter (expired now) xs)\<rparr>"
proof (induction xs arbitrary: q)
  case (Cons x xs)
  obtain i lt where x: "x = (i, lt)" by (cases x)
  show ?case
  proof (cases "lt_expiry lt \<le> now")
    case True
    then have "filter (\<lambda>e. fst e \<notin> set (keys (filter (expired now) xs))) (AList.delete i (mq_inflight q)) =
      filter (\<lambda>e. fst e \<notin> set (keys (filter (expired now) (x # xs)))) (mq_inflight q)"
      by (auto simp: AList.delete_eq x intro: filter_cong)
    with True Cons show ?thesis by (simp add: x)
  next
    case False
    with Cons show ?thesis by (simp add: x)
  qed
qed simp

lemma requeueExpired_closed:
  assumes "distinct (keys (mq_inflight q))"
  shows "requeueExpired now (mq_inflight q) q =
     q\<lparr>mq_inflight := filter (\<lambda>e. \<not> expired now e) (mq_inflight q),
       mq_ready := mq_ready q @ map (lt_task \<circ> snd) (filter (expired now) (mq_inflight q))\<rparr>"
proof -
  have "fst e \<in> set (keys (filter (expired now) (mq_inflight q))) \<longleftrightarrow> expired now e"
    if "e \<in> set (mq_inflight q)" for e
  proof (cases e)
    case (Pair i lt)
    show ?thesis
    proof
      assume "fst e \<in> set (keys (filter (expired now) (mq_inflight q)))"
      then obtain lt' where "(i, lt') \<in> set (mq_inflight q)" "lt_expiry lt' \<le> now"
        by (auto simp: Pair keys_def)
      with distinct_keys_unique [OF assms, of i lt lt'] that Pair show "expired now e" by simp
    next
      assume "expired now e"
      with that have "e \<in> set (filter (expired now) (mq_inflight q))" by simp
      then show "fst e \<in> set (keys (filter (expired now) (mq_inflight q)))"
        by (simp add: keys_def)
    qed
  qed
  then have "filter (\<lambda>e. fst e \<notin> set (keys (filter (expired now) (mq_inflight q)))) (mq_inflight q) =
      filter (\<lambda>e. \<not> expired now e) (mq_inflight q)"
    by (intro filter_cong) auto
  with requeueExpired_gen [OF assms] show ?thesis by simp
qed

lemma mem_requeue:
  fixes now :: time
  assumes "mq_inv q"
  defines "q1 \<equiv> requeueExpired now (mq_inflight q) q"
  shows "mq_inv q1" "lapse now (mq_view q i) (mq_view q1 i)"
    "mq_view q1 i = Some (t, Leased w x) \<Longrightarrow> now < x" "mq_nextID q1 = mq_nextID q"
proof -
  note q1 = requeueExpired_closed [OF mq_inflight_distinct [OF assms(1)], of now, folded q1_def]
  have tid: "task_ID (lt_task lt) = j" if "(j, lt) \<in> set (mq_inflight q)" for j lt
    using assms(1) that by (auto simp: mq_inv_def)
  have map_id: "map (task_ID \<circ> (lt_task \<circ> snd)) (filter (expired now) (mq_inflight q)) =
      keys (filter (expired now) (mq_inflight q))"
    by (auto simp: keys_def tid)
  have ms: "mset (keys (mq_entries q1)) = mset (keys (mq_entries q))"
    unfolding keys_mq_entries q1
    using mset_keys_partition [of "expired now" "mq_inflight q"] by (simp add: map_id add_ac)
  have "distinct (keys (mq_entries q1)) = distinct (keys (mq_entries q))"
    by (rule mset_eq_imp_distinct_iff [OF ms])
  moreover have set_eq: "set (keys (mq_entries q1)) = set (keys (mq_entries q))"
    by (rule mset_eq_setD [OF ms])
  moreover have "\<forall>(i, lt) \<in> set (mq_inflight q1). task_ID (lt_task lt) = i"
    using tid by (auto simp: q1)
  moreover have "mq_nextID q1 = mq_nextID q" by (simp add: q1)
  ultimately show inv: "mq_inv q1" using assms(1) unfolding mq_inv_def by simp
  show "mq_nextID q1 = mq_nextID q" by (simp add: q1)
  show "now < x" if "mq_view q1 i = Some (t, Leased w x)"
    using that unfolding mq_view_iff [OF inv] mq_entries_expand by (auto simp: q1)
  show "lapse now (mq_view q i) (mq_view q1 i)"
  proof (cases "mq_view q1 i")
    case None
    with set_eq show ?thesis using mq_view_None [of q i] mq_view_None [of q1 i] by simp
  next
    case (Some e)
    then have "(i, e) \<in> set (mq_entries q1)" by (simp add: mq_view_iff [OF inv])
    then have "(i, e) \<in> set (mq_entries q) \<or>
      (\<exists>lt. (i, lt) \<in> set (mq_inflight q) \<and> lt_expiry lt \<le> now \<and> e = (lt_task lt, Free))"
      using tid by (auto simp: mq_entries_expand q1)
    then show ?thesis
    proof
      assume "(i, e) \<in> set (mq_entries q)"
      then have "mq_view q i = Some e" by (simp add: mq_view_iff [OF assms(1)])
      with Some show ?thesis by simp
    next
      assume "\<exists>lt. (i, lt) \<in> set (mq_inflight q) \<and> lt_expiry lt \<le> now \<and> e = (lt_task lt, Free)"
      then obtain lt where lt: "(i, lt) \<in> set (mq_inflight q)" "lt_expiry lt \<le> now" "e = (lt_task lt, Free)"
        by blast
      then have "mq_view q i = Some (lt_task lt, Leased (lt_owner lt) (lt_expiry lt))"
        by (auto simp: mq_view_iff [OF assms(1)] mq_entries_expand)
      with Some lt show ?thesis by (auto simp: lapse_def)
    qed
  qed
qed

lemma findRunnable_Some:
  "findRunnable now ts = Some k \<Longrightarrow>
     k < length ts \<and> runnable now (ts ! k) \<and> (\<forall>j < k. \<not> runnable now (ts ! j))"
proof (induction ts arbitrary: k)
  case (Cons t ts)
  show ?case
  proof (cases "runnable now t")
    case True
    with Cons.prems show ?thesis by (auto simp: runnable_def)
  next
    case False
    with Cons.prems obtain m where "findRunnable now ts = Some m" "k = Suc m"
      by (auto simp: runnable_def)
    with Cons.IH [of m] False show ?thesis by (auto simp: less_Suc_eq_0_disj)
  qed
qed simp

lemma findRunnable_None: "findRunnable now ts = None \<Longrightarrow> t \<in> set ts \<Longrightarrow> \<not> runnable now t"
  by (induction ts) (auto simp: runnable_def split: if_splits)

lemma mem_poll_None:
  assumes "mq_inv q" "InMemory_DequeuePoll now owner ttl q = (Inr None, q')"
  shows "mq_inv q'" "mq_view q i = Some (t, l) \<Longrightarrow> available now l \<Longrightarrow> \<not> runnable now t"
    "lapse now (mq_view q i) (mq_view q' i)"
proof -
  from assms(2) have q': "q' = requeueExpired now (mq_inflight q) q"
    and none: "findRunnable now (mq_ready q') = None"
    by (auto simp: InMemory_DequeuePoll_def Let_def split: option.splits)
  note req = mem_requeue [OF assms(1), of now, folded q']
  show "mq_inv q'" and lapse: "lapse now (mq_view q i) (mq_view q' i)" by (rule req)+
  show "\<not> runnable now t" if "mq_view q i = Some (t, l)" "available now l"
  proof -
    from lapse that lapse_task [of now t l] obtain l' where l': "mq_view q' i = Some (t, l')" by auto
    with lapse that have "available now l'" using lapse_available [of now t l t l'] by simp
    with l' req(3) [of i t] have "mq_view q' i = Some (t, Free)" by (cases l') auto
    then have "t \<in> set (mq_ready q')" by (auto simp: mq_view_iff [OF req(1)] mq_entries_expand)
    with none show ?thesis by (rule findRunnable_None)
  qed
qed

text \<open>Claiming the ready task at position \<open>k\<close>.\<close>

lemma mem_claim:
  fixes w :: string and x :: time
  assumes "mq_inv q" "k < length (mq_ready q)"
  defines "t \<equiv> mq_ready q ! k"
  defines "q' \<equiv> q\<lparr>mq_ready := take k (mq_ready q) @ drop (Suc k) (mq_ready q),
     mq_inflight := AList.update (task_ID t) \<lparr>lt_task = t, lt_owner = w, lt_expiry = x\<rparr> (mq_inflight q)\<rparr>"
  shows "mq_inv q'" "mq_view q (task_ID t) = Some (t, Free)"
    "mq_view q' = (mq_view q)(task_ID t \<mapsto> (t, Leased w x))"
proof -
  define a b where "a = take k (mq_ready q)" and "b = drop (Suc k) (mq_ready q)"
  have ready: "mq_ready q = a @ t # b"
    unfolding a_def b_def t_def using assms(2) by (rule id_take_nth_drop)
  have q': "mq_ready q' = a @ b" "mq_nextID q' = mq_nextID q"
    "mq_inflight q' = AList.update (task_ID t) \<lparr>lt_task = t, lt_owner = w, lt_expiry = x\<rparr> (mq_inflight q)"
    by (simp_all add: q'_def a_def b_def)
  note d = mq_inflight_distinct [OF assms(1)]
  have dist: "task_ID t \<notin> set (map task_ID a) \<union> set (map task_ID b) \<union> set (keys (mq_inflight q))"
    "distinct (map task_ID a @ map task_ID b)"
    "(set (map task_ID a) \<union> set (map task_ID b)) \<inter> set (keys (mq_inflight q)) = {}"
    using assms(1) unfolding mq_inv_def keys_mq_entries ready by auto
  have "set (keys (mq_entries q')) = set (keys (mq_entries q))"
    unfolding keys_mq_entries ready q' by auto
  moreover have "distinct (keys (mq_entries q'))"
    using dist distinct_keys_update [OF d] unfolding keys_mq_entries q' by auto
  moreover have "\<forall>(i, lt) \<in> set (mq_inflight q'). task_ID (lt_task lt) = i"
    using assms(1) by (auto simp: q' in_update_iff [OF d] mq_inv_def split: if_splits)
  ultimately show inv: "mq_inv q'" using assms(1) unfolding mq_inv_def q' by simp
  show "mq_view q (task_ID t) = Some (t, Free)"
    by (auto simp: mq_view_iff [OF assms(1)] mq_entries_expand ready)
  show "mq_view q' = (mq_view q)(task_ID t \<mapsto> (t, Leased w x))"
  proof (rule mq_view_eqI [OF inv])
    fix j e
    have "(j, e) \<in> set (mq_entries q') \<longleftrightarrow>
        (if j = task_ID t then e = (t, Leased w x) else (j, e) \<in> set (mq_entries q))"
      using dist(1) by (auto simp: mq_entries_expand q' ready in_update_iff [OF d])
    then show "(j, e) \<in> set (mq_entries q') \<longleftrightarrow>
        ((mq_view q)(task_ID t \<mapsto> (t, Leased w x))) j = Some e"
      by (auto simp: mq_view_iff [OF assms(1)])
  qed
qed

lemma mem_poll_Some:
  assumes "mq_inv q" "InMemory_DequeuePoll now owner ttl q = (Inr (Some t), q')"
  shows "mq_inv q'"
    "\<exists>l. mq_view q (task_ID t) = Some (t, l) \<and> available now l \<and> runnable now t \<and>
        mq_view q' (task_ID t) = Some (t, Leased owner (now + ttl)) \<and>
        (\<forall>i. i \<noteq> task_ID t \<longrightarrow> lapse now (mq_view q i) (mq_view q' i))"
proof -
  define q1 where "q1 = requeueExpired now (mq_inflight q) q"
  note req = mem_requeue [OF assms(1), of now, folded q1_def]
  from assms(2) obtain k where k: "findRunnable now (mq_ready q1) = Some k" "t = mq_ready q1 ! k"
    and q': "q' = q1\<lparr>mq_ready := take k (mq_ready q1) @ drop (Suc k) (mq_ready q1),
       mq_inflight := AList.update (task_ID t)
         \<lparr>lt_task = t, lt_owner = owner, lt_expiry = now + ttl\<rparr> (mq_inflight q1)\<rparr>"
    by (auto simp: InMemory_DequeuePoll_def Let_def q1_def split: option.splits)
  from findRunnable_Some [OF k(1)] have len: "k < length (mq_ready q1)" and run: "runnable now t"
    by (auto simp: k(2))
  note claim = mem_claim(1) [OF req(1) len, where w = owner and x = "now + ttl", folded k(2), folded q']
    mem_claim(2) [OF req(1) len, folded k(2)]
    mem_claim(3) [OF req(1) len, where w = owner and x = "now + ttl", folded k(2), folded q']
  show "mq_inv q'" by (rule claim)
  have "lapse now (mq_view q (task_ID t)) (Some (t, Free))"
    using req(2) [of "task_ID t"] claim(2) by simp
  then obtain l where "mq_view q (task_ID t) = Some (t, l)" "available now l"
    unfolding lapse_def using available.simps by (metis prod.inject option.inject)
  moreover have "lapse now (mq_view q i) (mq_view q' i)" if "i \<noteq> task_ID t" for i
    using req(2) [of i] that by (simp add: claim(3))
  ultimately show "\<exists>l. mq_view q (task_ID t) = Some (t, l) \<and> available now l \<and> runnable now t \<and>
        mq_view q' (task_ID t) = Some (t, Leased owner (now + ttl)) \<and>
        (\<forall>i. i \<noteq> task_ID t \<longrightarrow> lapse now (mq_view q i) (mq_view q' i))"
    using run by (auto simp: claim(3))
qed

lemma mem_poll_total: "InMemory_DequeuePoll now owner ttl q = (r, q') \<Longrightarrow> \<exists>m. r = Inr m"
  by (auto simp: InMemory_DequeuePoll_def Let_def split: option.splits)

section \<open>The in-memory queue meets the contract\<close>

interpretation mem_queue: task_queue memoryQueue mq_view mq_inv "\<lambda>_. True" "\<lambda>_. True" "\<lambda>_. True" mq_fresh
proof (unfold_locales, goal_cases)
  case (5 q)
  show ?case by (simp add: mq_view_def finite_dom_map_of)
next
  case (7 now q t r q')
  let ?i = "mq_assigned q t"
  have "r = None" "mq_inv q'" "mq_view q ?i = None" "mq_view q' = (mq_view q)(?i \<mapsto> (t\<lparr>task_ID := ?i\<rparr>, Free))"
    using 7 mem_enqueue [of q t now r q'] by (simp_all add: memoryQueue_def)
  moreover have "same_job (t\<lparr>task_ID := ?i\<rparr>) t" "scheduled (\<lambda>t. t) now t (t\<lparr>task_ID := ?i\<rparr>)"
    by (simp_all add: same_job_def scheduled_def)
  ultimately show ?case by (metis (no_types))
next
  case (8 now q ttl owner t q')
  then show ?case
    using mem_poll_Some [of q now owner ttl t q'] by (auto simp: memoryQueue_def)
next
  case (9 now q ttl owner q')
  then show ?case
    using mem_poll_None [of q now owner ttl q'] by (auto simp: memoryQueue_def)
next
  case (10 now q ttl owner r q')
  then obtain m where m: "r = Inr m" and "InMemory_DequeuePoll now owner ttl q = (Inr m, q')"
    using mem_poll_total [of now owner ttl q r q'] by (auto simp: memoryQueue_def)
  with 10(1) show ?case
    using mem_poll_Some(1) [of q now owner ttl _ q'] mem_poll_None(1) [of q now owner ttl q']
    by (cases m) auto
next
  case (11 now q ttl owner i r q')
  then show ?case using mem_renew [of q ttl now i owner r q'] by (simp add: memoryQueue_def)
next
  case (12 now q owner i r q')
  then show ?case using mem_ack [of q None i owner r q'] by (simp add: memoryQueue_def)
next
  case (13 now q owner i nb n r q')
  then show ?case using mem_nack [of q None i owner nb n r q'] by (simp add: memoryQueue_def prod.rel_eq option.rel_eq)
qed simp_all

text \<open>\<^verbatim>\<open>Len\<close> counts the stored tasks.\<close>

lemma InMemory_Len_view:
  assumes "mq_inv q"
  shows "InMemory_Len q = card (dom (mq_view q))"
proof -
  have "card (dom (mq_view q)) = length (keys (mq_entries q))"
    using assms unfolding mq_view_def set_keys [symmetric] mq_inv_def by (simp add: distinct_card)
  then show ?thesis by (simp add: InMemory_Len_def mq_entries_def)
qed

end
