(* ===== verification/Gob_Codec.thy ===== *)
theory Gob_Codec
  imports Api_Types
begin

text \<open>
  The gob codecs of the database back ends: \<^verbatim>\<open>internal/persistence/codec.go\<close>,
  \<^verbatim>\<open>internal/taskqueue/codec.go\<close> and the payload codec of \<^verbatim>\<open>internal/taskqueue/sqlite_queue.go\<close>.
  A byte slice is modelled by what the gob stream in it says: the value, and whether it was
  sent as an interface value (with the name of its dynamic type) or as a concrete value.
\<close>

section \<open>Streams\<close>

datatype gobval =
    GobAny anyv
  | GobMap "nat \<rightharpoonup> anyv"
  | GobTask Task

datatype gobstream =
    GobInterface gobval
  | GobConcrete gobval
  | GobCorrupt string

text \<open>An empty (or nil) byte slice is \<open>None\<close>.\<close>

type_synonym bytes = "gobstream option"

text \<open>
  What is known about the application's types: the names it registered with \<^verbatim>\<open>gob.Register\<close>,
  the fields a receiver rebuilds for a value of a user-defined struct (gob sends exported
  fields only; \<open>None\<close> if the value cannot be sent), and the errors \<^verbatim>\<open>Encode\<close> returns for a
  value and for a map of step results it cannot send.
\<close>

record gob =
  gob_registered :: "string \<Rightarrow> bool"
  gob_struct :: "string \<Rightarrow> anyv list \<Rightarrow> anyv list option"
  gob_error :: "anyv \<Rightarrow> goerr"
  gob_map_error :: "(nat \<rightharpoonup> anyv) \<Rightarrow> goerr"

text \<open>
  The names that are always registered: gob's own basic types, and those of the \<^verbatim>\<open>init\<close>
  functions of \<^verbatim>\<open>pkg/api/workflow.go\<close> and \<^verbatim>\<open>pkg/worker/worker.go\<close>.
\<close>

definition registered_by_init :: "string list" where
  "registered_by_init = [''bool'', ''int'', ''string'', ''[]string'', ''api.SignalPayload'',
     ''api.TimeoutPayload'', ''api.WaitMeta'', ''map[int]interface {}'', ''api.StartWorkflowPayload'']"

definition gob_knows :: "gob \<Rightarrow> string \<Rightarrow> bool" where
  "gob_knows G n \<longleftrightarrow> n \<in> set registered_by_init \<or> gob_registered G n"

text \<open>
  The names of the dynamic types in the interface values of a value. An error in a
  \<^verbatim>\<open>ParallelResult\<close> is an interface value too; no error type is ever registered.
\<close>

fun gob_names :: "anyv \<Rightarrow> string list" where
  "gob_names VNil = []"
| "gob_names (VList vs) = ''[]interface {}'' # concat (map gob_names vs)"
| "gob_names (SignalPayload n d) = ''api.SignalPayload'' # gob_names d"
| "gob_names (StartWorkflowPayload d) = ''api.StartWorkflowPayload'' # gob_names d"
| "gob_names (ParallelResults rs) = ''[]api.ParallelResult'' # concat (map (\<lambda>(i, v, e). gob_names v) rs)"
| "gob_names v = [type_name v]"

text \<open>What a receiver rebuilds.\<close>

fun gob_image :: "gob \<Rightarrow> anyv \<Rightarrow> anyv option" where
  "gob_image G (VList vs) = map_option VList (those (map (gob_image G) vs))"
| "gob_image G (VStruct t fs) = map_option (VStruct t) (gob_struct G t fs)"
| "gob_image G (SignalPayload n d) = map_option (SignalPayload n) (gob_image G d)"
| "gob_image G (StartWorkflowPayload d) = map_option StartWorkflowPayload (gob_image G d)"
| "gob_image G (ParallelResults rs) =
     (if \<exists>(i, v, e) \<in> set rs. e \<noteq> None then None
      else map_option ParallelResults
        (those (map (\<lambda>(i, v, e). map_option (\<lambda>v'. (i, v', e)) (gob_image G v)) rs)))"
| "gob_image G v = Some v"

text \<open>A value that can be sent as an interface value and arrives unchanged.\<close>

definition gob_ok :: "gob \<Rightarrow> anyv \<Rightarrow> bool" where
  "gob_ok G v \<longleftrightarrow> list_all (gob_knows G) (gob_names v) \<and> gob_image G v = Some v"

section \<open>Encoding\<close>

text \<open>\<^verbatim>\<open>enc.Encode(&iv)\<close> for \<^verbatim>\<open>iv any\<close>.\<close>

definition gob_Encode_iface :: "gob \<Rightarrow> anyv \<Rightarrow> goerr + gobstream" where
  "gob_Encode_iface G v =
     (if list_all (gob_knows G) (gob_names v)
      then (case gob_image G v of Some v' \<Rightarrow> Inr (GobInterface (GobAny v')) | None \<Rightarrow> Inl (gob_error G v))
      else Inl (gob_error G v))"

definition EncodeValue :: "gob \<Rightarrow> anyv \<Rightarrow> goerr + bytes" where
  "EncodeValue G v =
     (if v = VNil then Inr None
      else case gob_Encode_iface G v of Inl e \<Rightarrow> Inl e | Inr d \<Rightarrow> Inr (Some d))"

text \<open>
  \<^verbatim>\<open>EncodeValue(inst.StepResults)\<close>: the argument is a non-nil interface even for a nil map,
  which gob sends like an empty one.
\<close>

definition EncodeStepResults :: "gob \<Rightarrow> (nat \<rightharpoonup> anyv) option \<Rightarrow> goerr + bytes" where
  "EncodeStepResults G r =
     (let m = (case r of None \<Rightarrow> Map.empty | Some m \<Rightarrow> m) in
      if \<forall>v \<in> ran m. list_all (gob_knows G) (gob_names v) \<and> gob_image G v \<noteq> None
      then Inr (Some (GobInterface (GobMap (\<lambda>k. Option.bind (m k) (gob_image G)))))
      else Inl (gob_map_error G m))"

definition encodePayload :: "gob \<Rightarrow> anyv \<Rightarrow> goerr + bytes" where
  "encodePayload G v =
     (if v = VNil then Inr None
      else case gob_Encode_iface G v of Inl e \<Rightarrow> Inl e | Inr d \<Rightarrow> Inr (Some d))"

section \<open>Decoding\<close>

text \<open>The target types \<^verbatim>\<open>T\<close> of \<^verbatim>\<open>DecodeValue\<close> in the sources.\<close>

datatype gotype = TAny | TMapIntAny

fun isInterfaceType :: "gotype \<Rightarrow> bool" where
  "isInterfaceType TAny = True"
| "isInterfaceType TMapIntAny = False"

fun gobval_type :: "gobval \<Rightarrow> string" where
  "gobval_type (GobAny v) = type_name v"
| "gobval_type (GobMap m) = ''map[int]interface {}''"
| "gobval_type (GobTask t) = ''taskqueue.Task''"

fun gobval_known :: "gob \<Rightarrow> gobval \<Rightarrow> bool" where
  "gobval_known G (GobAny v) = list_all (gob_knows G) (gob_names v)"
| "gobval_known G (GobMap m) = (\<forall>v \<in> ran m. list_all (gob_knows G) (gob_names v))"
| "gobval_known G (GobTask t) = False"

text \<open>\<^verbatim>\<open>dec.Decode(&iv)\<close> for \<^verbatim>\<open>iv any\<close>.\<close>

fun gob_Decode_iface :: "gob \<Rightarrow> gobstream \<Rightarrow> goerr + gobval" where
  "gob_Decode_iface G (GobInterface v) =
     (if gobval_known G v then Inr v
      else Inl (ErrMsg (''gob: name not registered for interface: '' @ quote (gobval_type v))))"
| "gob_Decode_iface G (GobConcrete v) =
     Inl (ErrMsg (''gob: local interface type *interface {} can only be decoded from remote interface type; '' @
                  ''received concrete type '' @ gobval_type v))"
| "gob_Decode_iface G (GobCorrupt s) = Inl (ErrMsg s)"

text \<open>\<^verbatim>\<open>dec.Decode(dst)\<close> for a destination of a concrete type, given by its name.\<close>

fun gob_Decode_as :: "gob \<Rightarrow> string \<Rightarrow> gobstream \<Rightarrow> goerr + gobval" where
  "gob_Decode_as G t (GobConcrete v) =
     (if gobval_type v = t then Inr v
      else Inl (ErrMsg (''gob: decoding into local type *'' @ t @ '', received remote type '' @ gobval_type v)))"
| "gob_Decode_as G t (GobInterface v) =
     Inl (ErrMsg (''gob: decoding into local type *'' @ t @ '', received remote type interface''))"
| "gob_Decode_as G t (GobCorrupt s) = Inl (ErrMsg s)"

text \<open>\<^verbatim>\<open>strings.Contains\<close>.\<close>

fun has_prefix :: "string \<Rightarrow> string \<Rightarrow> bool" where
  "has_prefix [] s = True"
| "has_prefix (c # cs) [] = False"
| "has_prefix (c # cs) (d # ds) = (c = d \<and> has_prefix cs ds)"

fun Contains :: "string \<Rightarrow> string \<Rightarrow> bool" where
  "Contains [] sub = (sub = [])"
| "Contains (c # s) sub = (has_prefix sub (c # s) \<or> Contains s sub)"

definition mustRetryAsConcrete :: "goerr \<Rightarrow> bool" where
  "mustRetryAsConcrete e \<longleftrightarrow>
     Contains (Error e) ''can only be decoded from remote interface'' \<and>
     Contains (Error e) ''received concrete type''"

text \<open>The dynamic type test \<^verbatim>\<open>iv.(T)\<close>.\<close>

fun assert_type :: "gotype \<Rightarrow> gobval \<Rightarrow> bool" where
  "assert_type TAny v = True"
| "assert_type TMapIntAny (GobMap m) = True"
| "assert_type TMapIntAny v = False"

definition tryDecodeAsAny :: "gob \<Rightarrow> gotype \<Rightarrow> gobstream \<Rightarrow> goerr + gobval" where
  "tryDecodeAsAny G T data =
     (case gob_Decode_iface G data of
        Inl e \<Rightarrow> Inl e
      | Inr v \<Rightarrow>
          if assert_type T v then Inr v
          else Inl (ErrMsg (''gob: decoded interface payload of type '' @ gobval_type v @ '' not assignable to target'')))"

definition tryDecodeAsT :: "gob \<Rightarrow> gotype \<Rightarrow> gobstream \<Rightarrow> goerr + gobval" where
  "tryDecodeAsT G T data =
     (case T of TAny \<Rightarrow> gob_Decode_iface G data | TMapIntAny \<Rightarrow> gob_Decode_as G ''map[int]interface {}'' data)"

text \<open>The candidates in the order they are tried.\<close>

definition common_types :: "string list" where
  "common_types = [''string'', ''[]uint8'', ''int'', ''int64'', ''float64'', ''bool'',
     ''map[string]interface {}'', ''map[int]interface {}'', ''[]interface {}'', ''[]string'', ''[]int'']"

fun try_candidates :: "gob \<Rightarrow> gotype \<Rightarrow> gobstream \<Rightarrow> string list \<Rightarrow> goerr + gobval" where
  "try_candidates G T data [] = Inl (ErrMsg ''no matching common concrete type for interface target'')"
| "try_candidates G T data (c # cs) =
     (case gob_Decode_as G c data of
        Inr v \<Rightarrow> if isInterfaceType T \<or> assert_type T v then Inr v else try_candidates G T data cs
      | Inl _ \<Rightarrow> try_candidates G T data cs)"

definition tryDecodeCommonConcreteAsAny :: "gob \<Rightarrow> gotype \<Rightarrow> gobstream \<Rightarrow> goerr + gobval" where
  "tryDecodeCommonConcreteAsAny G T data = try_candidates G T data common_types"

text \<open>\<open>Inr None\<close> is the zero value of \<^verbatim>\<open>T\<close>, which an empty slice gives.\<close>

definition DecodeValue :: "gob \<Rightarrow> gotype \<Rightarrow> bytes \<Rightarrow> goerr + gobval option" where
  "DecodeValue G T data =
     (case data of
        None \<Rightarrow> Inr None
      | Some d \<Rightarrow>
          let concrete =
            (case tryDecodeAsT G T d of
               Inr v \<Rightarrow> Inr (Some v)
             | Inl e \<Rightarrow>
                 if \<not> isInterfaceType T then Inl e
                 else (case tryDecodeCommonConcreteAsAny G T d of
                         Inr v \<Rightarrow> Inr (Some v)
                       | Inl e \<Rightarrow> Inl e))
          in (case tryDecodeAsAny G T d of
                Inr v \<Rightarrow> Inr (Some v)
              | Inl e \<Rightarrow> if \<not> mustRetryAsConcrete e then Inl e else concrete))"

text \<open>
  A decoded value as the contents of an \<^verbatim>\<open>any\<close>. Maps with integer keys are no values of their own
  there; like a value of any other type the code does not look into, one is its type name.
\<close>

fun any_of :: "gobval \<Rightarrow> anyv" where
  "any_of (GobAny v) = v"
| "any_of v = VStruct (gobval_type v) []"

definition decodePayload :: "gob \<Rightarrow> bytes \<Rightarrow> goerr + anyv" where
  "decodePayload G data =
     (case data of
        None \<Rightarrow> Inr VNil
      | Some d \<Rightarrow> map_sum id any_of (gob_Decode_iface G d))"

text \<open>The task codec: \<^verbatim>\<open>Payload\<close> is the one interface field of a task.\<close>

definition EncodeTask :: "gob \<Rightarrow> Task \<Rightarrow> goerr + gobstream" where
  "EncodeTask G t =
     (if list_all (gob_knows G) (gob_names (task_Payload t))
      then (case gob_image G (task_Payload t) of
              Some v \<Rightarrow> Inr (GobConcrete (GobTask (t\<lparr>task_Payload := v\<rparr>)))
            | None \<Rightarrow> Inl (gob_error G (task_Payload t)))
      else Inl (gob_error G (task_Payload t)))"

definition DecodeTask :: "gob \<Rightarrow> gobstream \<Rightarrow> goerr + Task" where
  "DecodeTask G data =
     (case gob_Decode_as G ''taskqueue.Task'' data of
        Inl e \<Rightarrow> Inl e
      | Inr (GobTask t) \<Rightarrow>
          if list_all (gob_knows G) (gob_names (task_Payload t)) then Inr t
          else Inl (ErrMsg (''gob: name not registered for interface: '' @ quote (type_name (task_Payload t))))
      | Inr v \<Rightarrow> Inl (ErrMsg (''gob: type mismatch: no fields matched compiling decoder for '' @ gobval_type v)))"

section \<open>Round trips\<close>

lemma those_map_Some: "those (map f xs) = Some ys \<longleftrightarrow> list_all2 (\<lambda>x y. f x = Some y) xs ys"
  by (induction xs arbitrary: ys) (auto simp: list_all2_Cons1 split: option.splits)

lemma gob_image_list: "gob_image G (VList vs) = Some v' \<longleftrightarrow>
    (\<exists>ws. v' = VList ws \<and> list_all2 (\<lambda>x y. gob_image G x = Some y) vs ws)"
  by (auto simp: those_map_Some)

lemma gob_image_results: "gob_image G (ParallelResults rs) = Some v' \<longleftrightarrow> (\<exists>ws. v' = ParallelResults ws \<and>
    list_all2 (\<lambda>r w. fst w = fst r \<and> gob_image G (fst (snd r)) = Some (fst (snd w)) \<and> snd (snd r) = None \<and> snd (snd w) = None) rs ws)"
proof (cases "\<exists>(i, v, e) \<in> set rs. e \<noteq> None")
  case True
  then obtain k where k: "k < length rs" "snd (snd (rs ! k)) \<noteq> None" by (auto simp: in_set_conv_nth)
  from True have "gob_image G (ParallelResults rs) = None" by (simp only: gob_image.simps if_True)
  with k show ?thesis by (auto simp: list_all2_conv_all_nth)
next
  case False
  have "list_all2 (\<lambda>r w. \<exists>z. gob_image G (fst (snd r)) = Some z \<and> (fst r, z, snd (snd r)) = w) rs ws \<longleftrightarrow>
    list_all2 (\<lambda>r w. fst w = fst r \<and> gob_image G (fst (snd r)) = Some (fst (snd w)) \<and> snd (snd r) = None \<and> snd (snd w) = None) rs ws" for ws
    using False by (intro list.rel_cong refl) (auto simp: prod_eq_iff)
  with False show ?thesis by (simp only: gob_image.simps if_False map_option_eq_Some those_map_Some) (auto simp: case_prod_beta)
qed

text \<open>What arrives names the same types as what was sent.\<close>

lemma gob_names_image: "gob_image G v = Some v' \<Longrightarrow> gob_names v' = gob_names v"
proof (induction v arbitrary: v' rule: gob_names.induct)
  case (2 vs)
  then obtain ws where ws: "v' = VList ws" "list_all2 (\<lambda>x y. gob_image G x = Some y) vs ws"
    unfolding gob_image_list by blast
  have "list_all2 (\<lambda>y x. y = x) (map gob_names ws) (map gob_names vs)"
    using ws(2) 2(1) by (auto simp: list_all2_conv_all_nth)
  with ws(1) show ?case by (simp add: list.rel_eq)
next
  case (5 rs)
  then obtain ws where ws: "v' = ParallelResults ws" "list_all2 (\<lambda>r w. fst w = fst r \<and>
      gob_image G (fst (snd r)) = Some (fst (snd w)) \<and> snd (snd r) = None \<and> snd (snd w) = None) rs ws"
    unfolding gob_image_results by blast
  have "list_all2 (\<lambda>y x. y = x) (map (\<lambda>(i, v, e). gob_names v) ws) (map (\<lambda>(i, v, e). gob_names v) rs)"
    using ws(2) 5(1) by (auto simp: list_all2_conv_all_nth case_prod_beta) (metis nth_mem prod.collapse)
  with ws(1) show ?case by (simp add: list.rel_eq)
qed auto

text \<open>
  Sending a value that was received gives the same value again; this only depends on the structs of the
  application.
\<close>

definition gob_stable :: "gob \<Rightarrow> bool" where
  "gob_stable G \<longleftrightarrow> (\<forall>v v'. gob_image G v = Some v' \<longrightarrow> gob_image G v' = Some v')"

lemma gob_stableI:
  assumes "\<And>n fs gs. gob_struct G n fs = Some gs \<Longrightarrow> gob_struct G n gs = Some gs"
  shows "gob_stable G"
proof -
  have "gob_image G v' = Some v'" if "gob_image G v = Some v'" for v v'
    using that
  proof (induction v arbitrary: v' rule: gob_names.induct)
    case (2 vs)
    then obtain ws where ws: "v' = VList ws" "list_all2 (\<lambda>x y. gob_image G x = Some y) vs ws"
      unfolding gob_image_list by blast
    have "list_all2 (\<lambda>x y. gob_image G x = Some y) ws ws"
      using ws(2) 2(1) by (auto simp: list_all2_conv_all_nth) (metis nth_mem)
    then show ?case unfolding ws(1) gob_image_list by blast
  next
    case (5 rs)
    then obtain ws where ws: "v' = ParallelResults ws" "list_all2 (\<lambda>r w. fst w = fst r \<and>
        gob_image G (fst (snd r)) = Some (fst (snd w)) \<and> snd (snd r) = None \<and> snd (snd w) = None) rs ws"
      unfolding gob_image_results by blast
    have "list_all2 (\<lambda>r w. fst w = fst r \<and>
        gob_image G (fst (snd r)) = Some (fst (snd w)) \<and> snd (snd r) = None \<and> snd (snd w) = None) ws ws"
      using ws(2) 5(1) by (auto simp: list_all2_conv_all_nth) (metis nth_mem prod.collapse)
    then show ?case unfolding ws(1) gob_image_results by blast
  qed (auto simp: assms)
  then show ?thesis by (simp add: gob_stable_def)
qed

lemma gob_ok_Encode [simp]: "gob_ok G v \<Longrightarrow> gob_Encode_iface G v = Inr (GobInterface (GobAny v))"
  by (simp add: gob_ok_def gob_Encode_iface_def)

lemma DecodeValue_iface:
  "gobval_known G v \<Longrightarrow> assert_type T v \<Longrightarrow> DecodeValue G T (Some (GobInterface v)) = Inr (Some v)"
  by (simp add: DecodeValue_def tryDecodeAsAny_def Let_def)

lemma EncodeValue_DecodeValue:
  assumes "EncodeValue G v = Inr b"
  shows "DecodeValue G TAny b = Inr (if v = VNil then None else map_option GobAny (gob_image G v))"
  using assms gob_names_image [of G v]
  by (auto simp: EncodeValue_def gob_Encode_iface_def DecodeValue_def [of _ _ None] DecodeValue_iface
      split: if_splits option.splits)

lemma encodePayload_decodePayload:
  assumes "encodePayload G v = Inr b"
  shows "gob_image G v \<noteq> None \<and> decodePayload G b = Inr (the (gob_image G v))"
  using assms gob_names_image [of G v]
  by (auto simp: encodePayload_def gob_Encode_iface_def decodePayload_def split: if_splits option.splits)

lemma EncodeTask_DecodeTask:
  assumes "EncodeTask G t = Inr b"
  shows "gob_image G (task_Payload t) \<noteq> None \<and>
    DecodeTask G b = Inr (t\<lparr>task_Payload := the (gob_image G (task_Payload t))\<rparr>)"
  using assms gob_names_image [of G "task_Payload t"]
  by (auto simp: EncodeTask_def DecodeTask_def split: if_splits option.splits)

lemma EncodeStepResults_DecodeValue:
  assumes "EncodeStepResults G r = Inr b"
  shows "DecodeValue G TMapIntAny b = Inr (Some (GobMap (\<lambda>k. Option.bind (Option.bind r (\<lambda>m. m k)) (gob_image G))))"
proof -
  define m where "m = (case r of None \<Rightarrow> Map.empty | Some m \<Rightarrow> m)"
  have ok: "\<forall>v \<in> ran m. list_all (gob_knows G) (gob_names v)"
    and b: "b = Some (GobInterface (GobMap (\<lambda>k. Option.bind (m k) (gob_image G))))"
    using assms by (auto simp: EncodeStepResults_def m_def Let_def split: if_splits)
  have "list_all (gob_knows G) (gob_names v')" if "v' \<in> ran (\<lambda>k. Option.bind (m k) (gob_image G))" for v'
  proof -
    from that obtain k v where "m k = Some v" "gob_image G v = Some v'" by (auto simp: ran_def bind_eq_Some_conv)
    with ok gob_names_image [of G v v'] show ?thesis by (auto simp: ran_def)
  qed
  then have "DecodeValue G TMapIntAny b = Inr (Some (GobMap (\<lambda>k. Option.bind (m k) (gob_image G))))"
    unfolding b by (intro DecodeValue_iface) auto
  moreover have "m k = Option.bind r (\<lambda>m. m k)" for k by (cases r) (simp_all add: m_def)
  ultimately show ?thesis by simp
qed

text \<open>Values whose type gob knows by itself always survive.\<close>

lemma gob_ok_basic [simp]:
  "gob_ok G VNil" "gob_ok G (VBool b)" "gob_ok G (VInt i)" "gob_ok G (VString s)" "gob_ok G (VStrings ss)"
  "gob_ok G (TimeoutPayload r)" "gob_ok G (WaitMeta k b)"
  by (simp_all add: gob_ok_def gob_knows_def registered_by_init_def)

lemma gob_ok_wrapped [simp]:
  "gob_ok G (SignalPayload n v) = gob_ok G v" "gob_ok G (StartWorkflowPayload v) = gob_ok G v"
  by (auto simp: gob_ok_def gob_knows_def registered_by_init_def)

section \<open>Payloads encoded as concrete values\<close>

lemma mustRetry_message:
  "mustRetryAsConcrete (ErrMsg (''gob: local interface type *interface {} can only be decoded from remote interface type; '' @
     ''received concrete type '' @ n))"
  by (simp add: mustRetryAsConcrete_def)

lemma DecodeValue_legacy:
  assumes "gobval_type (GobAny v) \<in> set common_types"
  shows "DecodeValue G TAny (Some (GobConcrete (GobAny v))) = Inr (Some (GobAny v))"
proof -
  have "try_candidates G TAny (GobConcrete (GobAny v)) cs = Inr (GobAny v)" if "type_name v \<in> set cs" for cs
    using that by (induction cs) auto
  then show ?thesis
    using assms mustRetry_message [of "type_name v"]
    by (simp add: DecodeValue_def Let_def tryDecodeAsAny_def tryDecodeAsT_def tryDecodeCommonConcreteAsAny_def)
qed

end
