(* ===== verification/Sqlite_Queue.thy ===== *)
theory Sqlite_Queue
  imports Task_Queue Gob_Codec
begin

text \<open>
  \<^verbatim>\<open>internal/taskqueue/sqlite_queue.go\<close>: the task table, one definition per statement the
  queue executes, and the proof that the queue meets the contract \<open>task_queue\<close> for every
  application (\<open>G\<close> says what gob does with its types). Times are stored as 64-bit
  nanoseconds, so the contract holds for clock readings in that range.
\<close>

section \<open>Model\<close>

record task_row =
  tr_id :: int
  tr_type :: TaskType
  tr_workflow_name :: string
  tr_instance_id :: string
  tr_signal_name :: string
  tr_payload :: bytes
  tr_enqueued_at :: int
  tr_not_before :: int
  tr_attempts :: int
  tr_leased_by :: string
  tr_lease_expires_at :: int

text \<open>The table and the \<^verbatim>\<open>AUTOINCREMENT\<close> counter of its primary key.\<close>

record task_table =
  tt_seq :: int
  tt_rows :: "task_row list"

text \<open>\<^verbatim>\<open>initSchema\<close> on a new database.\<close>

definition NewSQLiteQueue :: task_table where
  "NewSQLiteQueue = \<lparr>tt_seq = 0, tt_rows = []\<rparr>"

text \<open>
  \<^verbatim>\<open>INSERT INTO tasks\<close>. A statement fails with the context's error when the context is done, and with
  \<^verbatim>\<open>SQLITE_FULL\<close> when the key space is used up.
\<close>

definition maxRowID :: int where
  "maxRowID = 2 ^ 63 - 1"

definition SQLite_Enqueue :: "gob \<Rightarrow> time \<Rightarrow> goerr option \<Rightarrow> Task \<Rightarrow> task_table \<Rightarrow> goerr option \<times> task_table" where
  "SQLite_Enqueue G now cerr t q =
     (case encodePayload G (task_Payload t) of
        Inl e \<Rightarrow> (Some e, q)
      | Inr payloadBytes \<Rightarrow>
          let enqueuedAt = UnixNano now;
              notBefore = (if IsZero (task_NotBefore t) then enqueuedAt else UnixNano (task_NotBefore t))
          in (case cerr of
                Some e \<Rightarrow> (Some e, q)
              | None \<Rightarrow>
                  if tt_seq q = maxRowID then (Some (ErrMsg ''database or disk is full (13)''), q)
                  else (None, q\<lparr>tt_seq := tt_seq q + 1, tt_rows := tt_rows q @
                    [\<lparr>tr_id = tt_seq q + 1, tr_type = task_Type t, tr_workflow_name = task_WorkflowName t,
                      tr_instance_id = task_InstanceID t, tr_signal_name = task_SignalName t,
                      tr_payload = payloadBytes, tr_enqueued_at = enqueuedAt, tr_not_before = notBefore,
                      tr_attempts = task_Attempts t, tr_leased_by = '''', tr_lease_expires_at = 0\<rparr>]\<rparr>)))"

text \<open>\<^verbatim>\<open>WHERE not_before <= ? AND (leased_by = '' OR lease_expires_at <= ?)\<close>\<close>

definition row_claimable :: "int \<Rightarrow> task_row \<Rightarrow> bool" where
  "row_claimable now r \<longleftrightarrow> tr_not_before r \<le> now \<and> (tr_leased_by r = '''' \<or> tr_lease_expires_at r \<le> now)"

text \<open>\<^verbatim>\<open>ORDER BY not_before, id LIMIT 1\<close>\<close>

definition row_before :: "task_row \<Rightarrow> task_row \<Rightarrow> bool" where
  "row_before r s \<longleftrightarrow> tr_not_before r < tr_not_before s \<or> tr_not_before r = tr_not_before s \<and> tr_id r \<le> tr_id s"

fun first_row :: "task_row list \<Rightarrow> task_row option" where
  "first_row [] = None"
| "first_row (r # rs) =
     (case first_row rs of
        None \<Rightarrow> Some r
      | Some s \<Rightarrow> if row_before r s then Some r else Some s)"

text \<open>\<^verbatim>\<open>UPDATE tasks SET ... WHERE ...\<close>\<close>

definition update_rows :: "(task_row \<Rightarrow> bool) \<Rightarrow> (task_row \<Rightarrow> task_row) \<Rightarrow> task_table \<Rightarrow> task_table" where
  "update_rows P f q = q\<lparr>tt_rows := map (\<lambda>r. if P r then f r else r) (tt_rows q)\<rparr>"

definition row_task :: "task_row \<Rightarrow> anyv \<Rightarrow> Task" where
  "row_task r payload =
     \<lparr>task_ID = FormatInt (tr_id r), task_Type = tr_type r, task_WorkflowName = tr_workflow_name r,
      task_InstanceID = tr_instance_id r, task_SignalName = tr_signal_name r, task_Payload = payload,
      task_EnqueuedAt = tr_enqueued_at r, task_NotBefore = tr_not_before r, task_Attempts = tr_attempts r\<rparr>"

definition SQLite_DequeuePoll :: "gob \<Rightarrow> time \<Rightarrow> string \<Rightarrow> duration \<Rightarrow> task_table
     \<Rightarrow> (goerr + Task option) \<times> task_table" where
  "SQLite_DequeuePoll G now owner leaseTTL q =
     (let nowInt = UnixNano now; expiresInt = UnixNano (now + leaseTTL) in
      case first_row (filter (row_claimable nowInt) (tt_rows q)) of
        None \<Rightarrow> (Inr None, q)
      | Some r \<Rightarrow>
          let q' = update_rows (\<lambda>s. tr_id s = tr_id r)
                     (\<lambda>s. s\<lparr>tr_leased_by := owner, tr_lease_expires_at := expiresInt\<rparr>) q
          in (case decodePayload G (tr_payload r) of
                Inl e \<Rightarrow> (Inl e, q')
              | Inr decoded \<Rightarrow> (Inr (Some (row_task r decoded)), q')))"

text \<open>The error of \<^verbatim>\<open>strconv.ParseInt\<close>.\<close>

definition parse_error :: "string \<Rightarrow> goerr" where
  "parse_error s =
     (let ds = (case s of [] \<Rightarrow> [] | c # cs \<Rightarrow> if c = CHR ''-'' \<or> c = CHR ''+'' then cs else s)
      in ErrMsg (''strconv.ParseInt: parsing '' @ quote s @ '': '' @
           (if ds \<noteq> [] \<and> list_all is_digit ds then ''value out of range'' else ''invalid syntax'')))"

definition held_row :: "int \<Rightarrow> string \<Rightarrow> task_row \<Rightarrow> bool" where
  "held_row k owner r \<longleftrightarrow> tr_id r = k \<and> tr_leased_by r = owner"

definition SQLite_RenewLease :: "time \<Rightarrow> string \<Rightarrow> string \<Rightarrow> duration \<Rightarrow> task_table \<Rightarrow> goerr option \<times> task_table" where
  "SQLite_RenewLease now taskID owner leaseTTL q =
     (case ParseInt taskID of
        None \<Rightarrow> (Some (parse_error taskID), q)
      | Some k \<Rightarrow>
          let expires = UnixNano (now + leaseTTL);
              n = length (filter (held_row k owner) (tt_rows q));
              q' = update_rows (held_row k owner) (\<lambda>r. r\<lparr>tr_lease_expires_at := expires\<rparr>) q
          in (if n = 0 then Some (ErrMsg ''task leased by another owner'') else None, q'))"

definition SQLite_Ack :: "goerr option \<Rightarrow> string \<Rightarrow> string \<Rightarrow> task_table \<Rightarrow> goerr option \<times> task_table" where
  "SQLite_Ack cerr taskID owner q =
     (case ParseInt taskID of
        None \<Rightarrow> (Some (parse_error taskID), q)
      | Some k \<Rightarrow>
          (case cerr of
             Some e \<Rightarrow> (Some e, q)
           | None \<Rightarrow> (None, q\<lparr>tt_rows := filter (\<lambda>r. \<not> held_row k owner r) (tt_rows q)\<rparr>)))"

definition SQLite_Nack :: "goerr option \<Rightarrow> string \<Rightarrow> string \<Rightarrow> time \<Rightarrow> int \<Rightarrow> task_table \<Rightarrow> goerr option \<times> task_table" where
  "SQLite_Nack cerr taskID owner notBefore attempts q =
     (case ParseInt taskID of
        None \<Rightarrow> (Some (parse_error taskID), q)
      | Some k \<Rightarrow>
          (case cerr of
             Some e \<Rightarrow> (Some e, q)
           | None \<Rightarrow> (None, update_rows (held_row k owner)
               (\<lambda>r. r\<lparr>tr_leased_by := '''', tr_lease_expires_at := 0, tr_not_before := UnixNano notBefore,
                     tr_attempts := attempts\<rparr>) q)))"

definition SQLite_Len :: "task_table \<Rightarrow> nat" where
  "SQLite_Len q = length (tt_rows q)"

definition SQLite_checkTTL :: "duration \<Rightarrow> goerr option" where
  "SQLite_checkTTL ttl = (if ttl \<le> 0 then Some (ErrMsg ''leaseTTL must be > 0'') else None)"

definition sqliteQueue :: "gob \<Rightarrow> task_table Queue" where
  "sqliteQueue G = \<lparr>q_Enqueue = SQLite_Enqueue G, q_checkTTL = SQLite_checkTTL,
     q_DequeuePoll = SQLite_DequeuePoll G, q_pollInterval = 20 * Millisecond,
     q_RenewLease = SQLite_RenewLease, q_Ack = SQLite_Ack, q_Nack = SQLite_Nack, q_Len = SQLite_Len\<rparr>"

section \<open>Invariant and view\<close>

definition row_lease :: "task_row \<Rightarrow> lease" where
  "row_lease r = (if tr_leased_by r = '''' then Free else Leased (tr_leased_by r) (tr_lease_expires_at r))"

definition row_value :: "gob \<Rightarrow> task_row \<Rightarrow> Task \<times> lease" where
  "row_value G r = (row_task r (case decodePayload G (tr_payload r) of Inr v \<Rightarrow> v | Inl _ \<Rightarrow> VNil), row_lease r)"

definition sq_view :: "gob \<Rightarrow> task_table \<Rightarrow> table" where
  "sq_view G q = map_of (map (\<lambda>r. (FormatInt (tr_id r), row_value G r)) (tt_rows q))"

text \<open>Keys are unique and were issued by the counter, times are 64-bit, and every payload decodes.\<close>

definition int64 :: "int \<Rightarrow> bool" where
  "int64 t \<longleftrightarrow> - (2 ^ 63) \<le> t \<and> t < 2 ^ 63"

definition sq_inv :: "gob \<Rightarrow> task_table \<Rightarrow> bool" where
  "sq_inv G q \<longleftrightarrow> distinct (map tr_id (tt_rows q)) \<and> tt_seq q \<le> maxRowID \<and>
     (\<forall>r \<in> set (tt_rows q). 0 < tr_id r \<and> tr_id r \<le> tt_seq q \<and> int64 (tr_not_before r) \<and>
        (\<exists>v. decodePayload G (tr_payload r) = Inr v)) \<and> 0 \<le> tt_seq q"

lemma UnixNano_int64 [simp]: "int64 t \<Longrightarrow> UnixNano t = t"
  by (simp add: int64_def UnixNano_id)

lemma zero_time_not_int64: "int64 t \<Longrightarrow> \<not> IsZero t"
  by (simp add: int64_def IsZero_def zero_time_def)

section \<open>Rows by identifier\<close>

definition row_of :: "task_table \<Rightarrow> string \<Rightarrow> task_row option" where
  "row_of q = map_of (map (\<lambda>r. (FormatInt (tr_id r), r)) (tt_rows q))"

lemma sq_view_row_of: "sq_view G q i = map_option (row_value G) (row_of q i)"
proof -
  have "map_of (map (\<lambda>r. (FormatInt (tr_id r), row_value G r)) rs) i =
      map_option (row_value G) (map_of (map (\<lambda>r. (FormatInt (tr_id r), r)) rs) i)" for rs
    by (induction rs) auto
  then show ?thesis by (simp add: sq_view_def row_of_def)
qed

lemma row_of_Some: "row_of q i = Some r \<Longrightarrow> r \<in> set (tt_rows q) \<and> i = FormatInt (tr_id r)"
  by (auto simp: row_of_def dest: map_of_SomeD)

lemma row_of_mem:
  assumes "distinct (map tr_id (tt_rows q))" "r \<in> set (tt_rows q)"
  shows "row_of q (FormatInt (tr_id r)) = Some r"
proof -
  have "distinct (map fst (map (\<lambda>r. (FormatInt (tr_id r), r)) (tt_rows q)))"
    using assms(1) by (simp add: comp_def distinct_map inj_on_def)
  with assms(2) show ?thesis unfolding row_of_def by (intro map_of_is_SomeI) auto
qed

lemma row_of_update:
  assumes "\<And>r. tr_id (f r) = tr_id r"
  shows "row_of (update_rows P f q) i = map_option (\<lambda>r. if P r then f r else r) (row_of q i)"
proof -
  have "map_of (map (\<lambda>r. (FormatInt (tr_id r), r)) (map (\<lambda>r. if P r then f r else r) rs)) i =
      map_option (\<lambda>r. if P r then f r else r) (map_of (map (\<lambda>r. (FormatInt (tr_id r), r)) rs) i)" for rs
    by (induction rs) (auto simp: assms)
  then show ?thesis by (simp add: row_of_def update_rows_def)
qed

lemma row_of_delete:
  assumes "distinct (map tr_id (tt_rows q))"
  shows "row_of (q\<lparr>tt_rows := filter (\<lambda>r. \<not> P r) (tt_rows q)\<rparr>) i =
    (case row_of q i of Some r \<Rightarrow> if P r then None else Some r | None \<Rightarrow> None)"
proof -
  have "map_of (map (\<lambda>r. (FormatInt (tr_id r), r)) (filter (\<lambda>r. \<not> P r) rs)) i =
      (case map_of (map (\<lambda>r. (FormatInt (tr_id r), r)) rs) i of Some r \<Rightarrow> if P r then None else Some r | None \<Rightarrow> None)"
    if "distinct (map tr_id rs)" for rs
    using that
  proof (induction rs)
    case (Cons r rs)
    have "map_of (map (\<lambda>r. (FormatInt (tr_id r), r)) rs) (FormatInt (tr_id r)) = None"
      using Cons.prems by (auto simp: map_of_eq_None_iff image_image)
    with Cons show ?case by (auto split: option.splits)
  qed simp
  from this [OF assms] show ?thesis by (simp add: row_of_def)
qed

lemma sq_inv_update:
  assumes "sq_inv G q" "\<And>r. tr_id (f r) = tr_id r" "\<And>r. tr_payload (f r) = tr_payload r"
    and "\<And>r. int64 (tr_not_before r) \<Longrightarrow> int64 (tr_not_before (f r))"
  shows "sq_inv G (update_rows P f q)"
proof -
  let ?g = "\<lambda>r. if P r then f r else r"
  have id: "tr_id \<circ> ?g = tr_id" by (auto simp: assms(2))
  have "sq_inv G (q\<lparr>tt_rows := map ?g (tt_rows q)\<rparr>)"
    using assms(1) unfolding sq_inv_def by (simp add: id) (auto simp: assms(2-4))
  then show ?thesis by (simp add: update_rows_def)
qed

lemma row_of_parses:
  assumes "sq_inv G q" "row_of q i = Some r"
  shows "ParseInt i = Some (tr_id r)" "tr_id r \<le> tt_seq q"
proof -
  have "i = FormatInt (tr_id r)" "0 < tr_id r" "tr_id r \<le> tt_seq q" "tt_seq q \<le> maxRowID"
    using row_of_Some [OF assms(2)] assms(1) by (auto simp: sq_inv_def)
  then show "ParseInt i = Some (tr_id r)" "tr_id r \<le> tt_seq q"
    by (simp_all add: ParseInt_FormatInt_eq maxRowID_def)
qed

lemma leased_by_row:
  assumes "owner \<noteq> ''''"
  shows "leased_by (sq_view G q) i owner \<longleftrightarrow> (\<exists>r. row_of q i = Some r \<and> tr_leased_by r = owner)"
  using assms by (auto simp: leased_by_def sq_view_row_of row_value_def row_lease_def)

text \<open>An operation on the row of a canonical identifier the caller holds touches that row only.\<close>

lemma held_row_iff:
  assumes "sq_inv G q" "canonical_id i" "ParseInt i = Some k" "row_of q j = Some r"
  shows "held_row k owner r \<longleftrightarrow> j = i \<and> tr_leased_by r = owner"
proof -
  have "FormatInt k = i" using assms(2,3) by (simp add: canonical_id_def)
  moreover have "j = FormatInt (tr_id r)" using row_of_Some [OF assms(4)] by simp
  ultimately show ?thesis by (auto simp: held_row_def)
qed

lemma unparsed_not_leased:
  assumes "sq_inv G q" "ParseInt i = None" "owner \<noteq> ''''"
  shows "\<not> leased_by (sq_view G q) i owner"
  using row_of_parses(1) [OF assms(1), of i] assms(2) by (auto simp: leased_by_row [OF assms(3)])

lemma sq_view_update_held:
  assumes "sq_inv G q" "canonical_id i" "ParseInt i = Some k" "owner \<noteq> ''''"
    and f: "\<And>r. tr_id (f r) = tr_id r"
  shows "sq_view G (update_rows (held_row k owner) f q) =
    (if leased_by (sq_view G q) i owner then (sq_view G q)(i \<mapsto> row_value G (f (the (row_of q i)))) else sq_view G q)"
proof
  fix j
  show "sq_view G (update_rows (held_row k owner) f q) j = (if leased_by (sq_view G q) i owner
      then (sq_view G q)(i \<mapsto> row_value G (f (the (row_of q i)))) else sq_view G q) j"
    using held_row_iff [OF assms(1-3), of j]
    by (cases "row_of q j") (auto simp: sq_view_row_of row_of_update [OF f] leased_by_row [OF assms(4)])
qed

lemma first_row_None: "first_row rs = None \<longleftrightarrow> rs = []"
  by (cases rs) (auto split: option.splits)

lemma first_row_least: "first_row rs = Some r \<Longrightarrow> r \<in> set rs \<and> (\<forall>s \<in> set rs. row_before r s)"
proof (induction rs arbitrary: r)
  case (Cons x rs)
  have refl: "row_before s s" for s by (simp add: row_before_def)
  have total: "\<not> row_before x s \<Longrightarrow> row_before s x" for s by (auto simp: row_before_def)
  have trans: "row_before a b \<Longrightarrow> row_before b c \<Longrightarrow> row_before a c" for a b c by (auto simp: row_before_def)
  show ?case
  proof (cases "first_row rs")
    case None
    then show ?thesis using Cons.prems refl by (simp add: first_row_None)
  next
    case (Some s)
    from Cons.IH [OF Some] Cons.prems Some show ?thesis
      using refl total trans by (auto split: if_splits)
  qed
qed simp

section \<open>The SQLite queue meets the contract\<close>

lemma sq_enqueue:
  assumes "sq_inv G q" "int64 now" "IsZero (task_NotBefore t) \<or> int64 (task_NotBefore t)"
    and e: "SQLite_Enqueue G now None t q = (None, q')"
  shows "sq_inv G q' \<and> sq_view G q (FormatInt (tt_seq q + 1)) = None \<and>
    (\<exists>t'. scheduled (\<lambda>t. t) now t t' \<and> (gob_ok G (task_Payload t) \<longrightarrow> same_job t' t) \<and>
       sq_view G q' = (sq_view G q)(FormatInt (tt_seq q + 1) \<mapsto> (t', Free)))"
proof -
  let ?i = "FormatInt (tt_seq q + 1)"
  from e obtain b where b: "encodePayload G (task_Payload t) = Inr b" and seq: "tt_seq q \<noteq> maxRowID"
    by (auto simp: SQLite_Enqueue_def Let_def split: sum.splits if_splits)
  define r where "r = \<lparr>tr_id = tt_seq q + 1, tr_type = task_Type t, tr_workflow_name = task_WorkflowName t,
    tr_instance_id = task_InstanceID t, tr_signal_name = task_SignalName t, tr_payload = b,
    tr_enqueued_at = now, tr_not_before = (if IsZero (task_NotBefore t) then now else task_NotBefore t),
    tr_attempts = task_Attempts t, tr_leased_by = '''', tr_lease_expires_at = 0\<rparr>"
  have q': "q' = q\<lparr>tt_seq := tt_seq q + 1, tt_rows := tt_rows q @ [r]\<rparr>"
    using e b seq assms(2,3) by (auto simp: SQLite_Enqueue_def Let_def r_def)
  from encodePayload_decodePayload [OF b] obtain v where v: "decodePayload G b = Inr v"
    "gob_image G (task_Payload t) = Some v" by auto
  have ids: "\<forall>s \<in> set (tt_rows q). 0 < tr_id s \<and> tr_id s \<le> tt_seq q" using assms(1) by (auto simp: sq_inv_def)
  have inv: "sq_inv G q'"
    using assms seq v(1) ids unfolding q' by (fastforce simp: sq_inv_def r_def maxRowID_def int64_def)
  have none: "row_of q ?i = None"
    using row_of_Some [of q ?i] ids by (cases "row_of q ?i") auto
  have row: "row_of q' j = (if j = ?i then Some r else row_of q j)" for j
    using none by (auto simp: row_of_def q' r_def map_add_def split: option.splits)
  have view: "sq_view G q' = (sq_view G q)(?i \<mapsto> (row_task r v, Free))"
    using v(1) by (intro ext) (auto simp: sq_view_row_of row row_value_def row_lease_def r_def)
  have "same_job (row_task r v) t" if "gob_ok G (task_Payload t)"
    using that v(2) by (simp add: gob_ok_def same_job_def row_task_def r_def)
  moreover have "scheduled (\<lambda>t. t) now t (row_task r v)" by (simp add: scheduled_def row_task_def r_def)
  ultimately show ?thesis using inv view none by (auto simp: sq_view_row_of)
qed

lemma row_claimable_view:
  assumes "sq_inv G q" "r \<in> set (tt_rows q)"
  shows "row_claimable now r \<longleftrightarrow> available now (snd (row_value G r)) \<and> runnable now (fst (row_value G r))"
  using assms zero_time_not_int64
  by (auto simp: row_claimable_def row_value_def row_lease_def runnable_def row_task_def sq_inv_def)

lemma sq_poll_idle:
  assumes "sq_inv G q" "first_row (filter (row_claimable now) (tt_rows q)) = None"
    and "sq_view G q i = Some (t, l)" "available now l"
  shows "\<not> runnable now t"
proof -
  from assms(3) obtain r where r: "row_of q i = Some r" "row_value G r = (t, l)" by (auto simp: sq_view_row_of)
  with row_of_Some [OF r(1)] assms(2) have "\<not> row_claimable now r" by (auto simp: first_row_None filter_empty_conv)
  with row_claimable_view [OF assms(1), of r] row_of_Some [OF r(1)] r(2) assms(4) show ?thesis by simp
qed

lemma sq_view_claim:
  assumes "sq_inv G q" "r \<in> set (tt_rows q)" "decodePayload G (tr_payload r) = Inr v" "owner \<noteq> ''''"
  shows "sq_view G (update_rows (\<lambda>s. tr_id s = tr_id r) (\<lambda>s. s\<lparr>tr_leased_by := owner, tr_lease_expires_at := x\<rparr>) q) =
    (sq_view G q)(FormatInt (tr_id r) \<mapsto> (row_task r v, Leased owner x))"
proof
  fix j
  have row: "row_of q (FormatInt (tr_id r)) = Some r" using row_of_mem [OF _ assms(2)] assms(1) by (simp add: sq_inv_def)
  show "sq_view G (update_rows (\<lambda>s. tr_id s = tr_id r) (\<lambda>s. s\<lparr>tr_leased_by := owner, tr_lease_expires_at := x\<rparr>) q) j =
    ((sq_view G q)(FormatInt (tr_id r) \<mapsto> (row_task r v, Leased owner x))) j"
  proof (cases "row_of q j")
    case None
    with row show ?thesis by (auto simp: sq_view_row_of row_of_update)
  next
    case (Some s)
    have j: "j = FormatInt (tr_id s)" using row_of_Some [OF Some] by simp
    have "tr_id s = tr_id r \<longleftrightarrow> s = r"
    proof
      assume "tr_id s = tr_id r"
      then have "row_of q j = Some r" unfolding j using row by (simp only:)
      with Some show "s = r" by simp
    qed simp
    moreover have "tr_id s = tr_id r \<longleftrightarrow> j = FormatInt (tr_id r)" by (simp add: j)
    ultimately show ?thesis using Some assms(3,4)
      by (auto simp: sq_view_row_of row_of_update row_value_def row_lease_def row_task_def)
  qed
qed

lemma sq_poll:
  assumes "sq_inv G q" "int64 now" "int64 (now + ttl)" "owner \<noteq> ''''"
    and p: "SQLite_DequeuePoll G now owner ttl q = (pr, q')"
  shows "pr = Inr None \<and> q' = q \<and> (\<forall>i t l. sq_view G q i = Some (t, l) \<longrightarrow> available now l \<longrightarrow> \<not> runnable now t) \<or>
    (\<exists>t l. pr = Inr (Some t) \<and> sq_inv G q' \<and> sq_view G q (task_ID t) = Some (t, l) \<and> available now l \<and> runnable now t \<and>
       sq_view G q' = (sq_view G q)(task_ID t \<mapsto> (t, Leased owner (now + ttl))))"
proof (cases "first_row (filter (row_claimable now) (tt_rows q))")
  case None
  with p assms(2,3) have "pr = Inr None" "q' = q" by (auto simp: SQLite_DequeuePoll_def Let_def)
  with sq_poll_idle [OF assms(1) None] show ?thesis by blast
next
  case (Some r)
  then have r: "r \<in> set (tt_rows q)" "row_claimable now r" using first_row_least by fastforce+
  from r(1) assms(1) obtain v where v: "decodePayload G (tr_payload r) = Inr v" by (auto simp: sq_inv_def)
  with p Some assms(2,3) have pr: "pr = Inr (Some (row_task r v))"
    and q': "q' = update_rows (\<lambda>s. tr_id s = tr_id r) (\<lambda>s. s\<lparr>tr_leased_by := owner, tr_lease_expires_at := now + ttl\<rparr>) q"
    by (auto simp: SQLite_DequeuePoll_def Let_def)
  have "sq_inv G q'" unfolding q' by (rule sq_inv_update [OF assms(1)]) simp_all
  moreover have "sq_view G q (FormatInt (tr_id r)) = Some (row_task r v, row_lease r)"
    using row_of_mem [OF _ r(1)] assms(1) v by (simp add: sq_view_row_of row_value_def sq_inv_def)
  moreover have "available now (row_lease r)" "runnable now (row_task r v)"
    using row_claimable_view [OF assms(1) r(1)] r(2) v by (simp_all add: row_value_def)
  moreover have "task_ID (row_task r v) = FormatInt (tr_id r)" by (simp add: row_task_def)
  ultimately show ?thesis
    using pr sq_view_claim [OF assms(1) r(1) v assms(4), of "now + ttl"] by (auto simp: q')
qed

lemma sq_renew:
  assumes "sq_inv G q" "int64 (now + ttl)" "owner \<noteq> ''''" "canonical_id i"
    and "SQLite_RenewLease now i owner ttl q = (e, q')"
  shows "sq_inv G q' \<and> sq_view G q' = (if leased_by (sq_view G q) i owner
        then (sq_view G q)(i \<mapsto> (fst (the (sq_view G q i)), Leased owner (now + ttl))) else sq_view G q)"
proof (cases "ParseInt i")
  case None
  with assms unparsed_not_leased [OF assms(1) None assms(3)] show ?thesis by (simp add: SQLite_RenewLease_def)
next
  case (Some k)
  let ?f = "\<lambda>r. r\<lparr>tr_lease_expires_at := now + ttl\<rparr>"
  have q': "q' = update_rows (held_row k owner) ?f q" using assms(2,5) Some by (simp add: SQLite_RenewLease_def Let_def)
  have "sq_inv G q'" unfolding q' by (rule sq_inv_update [OF assms(1)]) simp_all
  moreover have "row_value G (?f (the (row_of q i))) = (fst (the (sq_view G q i)), Leased owner (now + ttl))"
    if "leased_by (sq_view G q) i owner"
    using that assms(3) by (auto simp: leased_by_row sq_view_row_of row_value_def row_lease_def row_task_def)
  ultimately show ?thesis
    using sq_view_update_held [OF assms(1,4) Some assms(3), of ?f] by (auto simp: q')
qed

lemma sq_ack:
  assumes "sq_inv G q" "owner \<noteq> ''''" "canonical_id i" "SQLite_Ack None i owner q = (e, q')"
  shows "sq_inv G q' \<and> (leased_by (sq_view G q) i owner \<longrightarrow> e = None) \<and>
    sq_view G q' = (if leased_by (sq_view G q) i owner then (sq_view G q)(i := None) else sq_view G q)"
proof (cases "ParseInt i")
  case None
  with assms unparsed_not_leased [OF assms(1) None assms(2)] show ?thesis by (simp add: SQLite_Ack_def)
next
  case (Some k)
  have q': "q' = q\<lparr>tt_rows := filter (\<lambda>r. \<not> held_row k owner r) (tt_rows q)\<rparr>" and e: "e = None"
    using assms(4) Some by (simp_all add: SQLite_Ack_def)
  have "sq_inv G q'" using assms(1) by (auto simp: q' sq_inv_def distinct_map_filter)
  moreover have d: "distinct (map tr_id (tt_rows q))" using assms(1) by (simp add: sq_inv_def)
  have "sq_view G q' j = (if leased_by (sq_view G q) i owner then (sq_view G q)(i := None) else sq_view G q) j" for j
    using held_row_iff [OF assms(1,3) Some, of j]
    by (cases "row_of q j") (auto simp: q' sq_view_row_of row_of_delete [OF d] leased_by_row [OF assms(2)])
  ultimately show ?thesis using e by auto
qed

lemma sq_nack:
  assumes "sq_inv G q" "owner \<noteq> ''''" "canonical_id i" "int64 nb" "SQLite_Nack None i owner nb n q = (e, q')"
  shows "sq_inv G q' \<and> (leased_by (sq_view G q) i owner \<longrightarrow> e = None) \<and>
    sq_view G q' = (if leased_by (sq_view G q) i owner
      then (sq_view G q)(i \<mapsto> ((fst (the (sq_view G q i)))\<lparr>task_NotBefore := nb, task_Attempts := n\<rparr>, Free))
      else sq_view G q)"
proof (cases "ParseInt i")
  case None
  with assms unparsed_not_leased [OF assms(1) None assms(2)] show ?thesis by (simp add: SQLite_Nack_def)
next
  case (Some k)
  let ?f = "\<lambda>r. r\<lparr>tr_leased_by := '''', tr_lease_expires_at := 0, tr_not_before := nb, tr_attempts := n\<rparr>"
  have q': "q' = update_rows (held_row k owner) ?f q" and e: "e = None"
    using assms(4,5) Some by (simp_all add: SQLite_Nack_def)
  have "sq_inv G q'" unfolding q' using assms(4) by (intro sq_inv_update [OF assms(1)]) simp_all
  moreover have "row_value G (?f (the (row_of q i))) =
      ((fst (the (sq_view G q i)))\<lparr>task_NotBefore := nb, task_Attempts := n\<rparr>, Free)"
    if "leased_by (sq_view G q) i owner"
    using that assms(2) by (auto simp: leased_by_row sq_view_row_of row_value_def row_lease_def row_task_def)
  ultimately show ?thesis
    using sq_view_update_held [OF assms(1,3) Some assms(2), of ?f] e by (auto simp: q')
qed

interpretation sqlite_queue: task_queue "sqliteQueue G" "sq_view G" "sq_inv G" int64 "gob_ok G" canonical_id "\<lambda>_ _. True"
  for G
proof (unfold_locales, goal_cases)
  case (5 now q)
  show ?case by (simp add: sq_view_def finite_dom_map_of)
next
  case (6 now q i e)
  then show ?case using row_of_Some [of q i] by (auto simp: sq_view_row_of)
next
  case (7 now q t r q')
  show ?case
  proof (cases "r = None")
    case True
    with 7 have "SQLite_Enqueue G now None t q = (None, q')" by (simp add: sqliteQueue_def)
    from sq_enqueue [OF 7(1,2,4) this] True show ?thesis by auto
  next
    case False
    with 7 show ?thesis
      by (auto simp: sqliteQueue_def SQLite_Enqueue_def Let_def split: sum.splits if_splits)
  qed
next
  case (8 now q ttl owner t q')
  then show ?case using sq_poll [of G q now ttl owner "Inr (Some t)" q'] by (auto simp: sqliteQueue_def)
next
  case (9 now q ttl owner q')
  then show ?case using sq_poll [of G q now ttl owner "Inr None" q'] by (auto simp: sqliteQueue_def)
next
  case (10 now q ttl owner pr q')
  then show ?case using sq_poll [of G q now ttl owner pr q'] by (auto simp: sqliteQueue_def)
next
  case (11 now q ttl owner i r q')
  then show ?case using sq_renew [of G q now ttl owner i r q'] by (simp add: sqliteQueue_def)
next
  case (12 now q owner i r q')
  then show ?case using sq_ack [of G q owner i r q'] by (simp add: sqliteQueue_def)
next
  case (13 now q owner i nb n r q')
  then show ?case using sq_nack [of G q owner i nb n r q'] by (simp add: sqliteQueue_def prod.rel_eq option.rel_eq)
qed simp_all

end
