(* ===== verification/Worker.thy ===== *)
theory Worker
  imports Engine_Exec Memory_Queue Sqlite_Queue
begin

text \<open>
  \<^verbatim>\<open>pkg/worker/worker.go\<close>: the worker's configuration, its enqueue helpers, the heartbeat and
  \<^verbatim>\<open>ProcessOne\<close> with its retry logic, over any engine (a record of operations, like the Go
  interface values) and any queue.
\<close>

section \<open>The engine interface a worker uses\<close>

record ('s, 'q, 'e, 'u) WorkerDirect =
  wd_RunInstance :: "ctx \<Rightarrow> string \<Rightarrow> ('s, 'q, 'e, 'u) world \<Rightarrow> ('s, 'q, 'e, 'u) outcome"
  wd_SignalNow :: "ctx \<Rightarrow> string \<Rightarrow> string \<Rightarrow> anyv \<Rightarrow> ('s, 'q, 'e, 'u) world \<Rightarrow> ('s, 'q, 'e, 'u) outcome"
  wd_ResumeNow :: "ctx \<Rightarrow> string \<Rightarrow> ('s, 'q, 'e, 'u) world \<Rightarrow> ('s, 'q, 'e, 'u) outcome"

text \<open>\<open>api_direct\<close> is what the type assertion to \<^verbatim>\<open>api.WorkerDirect\<close> finds.\<close>

record ('s, 'q, 'e, 'u) EngineAPI =
  api_Run :: "ctx \<Rightarrow> string \<Rightarrow> anyv \<Rightarrow> ('s, 'q, 'e, 'u) world \<Rightarrow> ('s, 'q, 'e, 'u) outcome"
  api_Signal :: "ctx \<Rightarrow> string \<Rightarrow> string \<Rightarrow> anyv \<Rightarrow> ('s, 'q, 'e, 'u) world \<Rightarrow> ('s, 'q, 'e, 'u) outcome"
  api_Resume :: "ctx \<Rightarrow> string \<Rightarrow> ('s, 'q, 'e, 'u) world \<Rightarrow> ('s, 'q, 'e, 'u) outcome"
  api_direct :: "('s, 'q, 'e, 'u) WorkerDirect option"

definition engine_api :: "('s, 'q, 'e) engineImpl \<Rightarrow> nat \<Rightarrow> nat \<Rightarrow> ('s, 'q, 'e, 'u) EngineAPI" where
  "engine_api e n d =
     (let R = step_runner e n d in
      \<lparr>api_Run = Run e R, api_Signal = Signal e R, api_Resume = Resume e R,
       api_direct = Some \<lparr>wd_RunInstance = RunInstance e R, wd_SignalNow = SignalNow e R,
                          wd_ResumeNow = ResumeNow e R\<rparr>\<rparr>)"

section \<open>Construction\<close>

record WorkerConfig =
  wc_MaxAttempts :: int
  wc_Backoff :: duration
  wc_DefaultSignalTimeout :: duration
  wc_WorkerID :: string
  wc_LeaseTTL :: duration
  wc_HeartbeatInterval :: duration

record ('s, 'q, 'e, 'u) Worker =
  wk_engine :: "('s, 'q, 'e, 'u) EngineAPI"
  wk_queue :: "'q Queue"
  wk_cfg :: WorkerConfig

text \<open>\<open>rnd\<close> is the identifier \<^verbatim>\<open>randomWorkerID\<close> draws.\<close>

definition NewWithConfig :: "string \<Rightarrow> ('s, 'q, 'e, 'u) EngineAPI \<Rightarrow> 'q Queue \<Rightarrow> WorkerConfig \<Rightarrow> ('s, 'q, 'e, 'u) Worker" where
  "NewWithConfig rnd eng Q cfg =
     \<lparr>wk_engine = eng, wk_queue = Q,
      wk_cfg = cfg\<lparr>wc_MaxAttempts := (if wc_MaxAttempts cfg \<le> 0 then 1 else wc_MaxAttempts cfg),
        wc_WorkerID := (if wc_WorkerID cfg = '''' then ''worker-'' @ rnd else wc_WorkerID cfg),
        wc_LeaseTTL := (if wc_LeaseTTL cfg \<le> 0 then 30 * Second else wc_LeaseTTL cfg),
        wc_HeartbeatInterval := (if wc_HeartbeatInterval cfg < 0 then 0 else wc_HeartbeatInterval cfg)\<rparr>\<rparr>"

definition NewWorker :: "string \<Rightarrow> ('s, 'q, 'e, 'u) EngineAPI \<Rightarrow> 'q Queue \<Rightarrow> ('s, 'q, 'e, 'u) Worker" where
  "NewWorker rnd eng Q = NewWithConfig rnd eng Q
     \<lparr>wc_MaxAttempts = 1, wc_Backoff = 0, wc_DefaultSignalTimeout = 0, wc_WorkerID = '''',
      wc_LeaseTTL = 0, wc_HeartbeatInterval = 0\<rparr>"

section \<open>Enqueueing\<close>

definition EnqueueStartWorkflowAt :: "('s, 'q, 'e, 'u) Worker \<Rightarrow> ctx \<Rightarrow> string \<Rightarrow> anyv \<Rightarrow> time
     \<Rightarrow> ('s, 'q, 'e, 'u) world \<Rightarrow> goerr option \<times> ('s, 'q, 'e, 'u) world" where
  "EnqueueStartWorkflowAt wk c workflowName input t w =
     enqueue_task (wk_queue wk) c (zero_Task\<lparr>task_Type := TaskTypeStartWorkflow, task_WorkflowName := workflowName,
       task_Payload := StartWorkflowPayload input, task_EnqueuedAt := w_clock w, task_NotBefore := t\<rparr>) w"

definition EnqueueStartWorkflow :: "('s, 'q, 'e, 'u) Worker \<Rightarrow> ctx \<Rightarrow> string \<Rightarrow> anyv
     \<Rightarrow> ('s, 'q, 'e, 'u) world \<Rightarrow> goerr option \<times> ('s, 'q, 'e, 'u) world" where
  "EnqueueStartWorkflow wk c workflowName input w =
     enqueue_task (wk_queue wk) c (zero_Task\<lparr>task_Type := TaskTypeStartWorkflow, task_WorkflowName := workflowName,
       task_Payload := StartWorkflowPayload input, task_EnqueuedAt := w_clock w\<rparr>) w"

definition EnqueueSignalAt :: "('s, 'q, 'e, 'u) Worker \<Rightarrow> ctx \<Rightarrow> string \<Rightarrow> string \<Rightarrow> anyv \<Rightarrow> time
     \<Rightarrow> ('s, 'q, 'e, 'u) world \<Rightarrow> goerr option \<times> ('s, 'q, 'e, 'u) world" where
  "EnqueueSignalAt wk c instanceID name payload t w =
     enqueue_task (wk_queue wk) c (zero_Task\<lparr>task_Type := TaskTypeSignal, task_InstanceID := instanceID,
       task_SignalName := name, task_Payload := payload, task_EnqueuedAt := w_clock w, task_NotBefore := t\<rparr>) w"

definition EnqueueSignal :: "('s, 'q, 'e, 'u) Worker \<Rightarrow> ctx \<Rightarrow> string \<Rightarrow> string \<Rightarrow> anyv
     \<Rightarrow> ('s, 'q, 'e, 'u) world \<Rightarrow> goerr option \<times> ('s, 'q, 'e, 'u) world" where
  "EnqueueSignal wk c instanceID name payload w =
     enqueue_task (wk_queue wk) c (zero_Task\<lparr>task_Type := TaskTypeSignal, task_InstanceID := instanceID,
       task_SignalName := name, task_Payload := payload, task_EnqueuedAt := w_clock w\<rparr>) w"

section \<open>Finishing a task\<close>

definition ack_task :: "('s, 'q, 'e, 'u) Worker \<Rightarrow> ctx \<Rightarrow> Task \<Rightarrow> ('s, 'q, 'e, 'u) world
     \<Rightarrow> goerr option \<times> ('s, 'q, 'e, 'u) world" where
  "ack_task wk c task w =
     (let (err, q) = q_Ack (wk_queue wk) (ctx_Err c (w_clock w)) (task_ID task) (wc_WorkerID (wk_cfg wk)) (w_queue w)
      in (err, w\<lparr>w_queue := q\<rparr>))"

definition handleErr :: "('s, 'q, 'e, 'u) Worker \<Rightarrow> ctx \<Rightarrow> Task \<Rightarrow> goerr option \<Rightarrow> ('s, 'q, 'e, 'u) world
     \<Rightarrow> goerr option \<times> ('s, 'q, 'e, 'u) world" where
  "handleErr wk c task err w =
     (case err of
        None \<Rightarrow> ack_task wk c task w
      | Some er \<Rightarrow>
          if task_Attempts task + 1 < wc_MaxAttempts (wk_cfg wk) then
            let nextAttempts = task_Attempts task + 1;
                nb = (if wc_Backoff (wk_cfg wk) > 0 then w_clock w + wc_Backoff (wk_cfg wk) else w_clock w);
                (nerr, q) = q_Nack (wk_queue wk) (ctx_Err c (w_clock w)) (task_ID task) (wc_WorkerID (wk_cfg wk))
                              nb nextAttempts (w_queue w);
                w1 = w\<lparr>w_queue := q\<rparr>
            in (case nerr of
                  Some _ \<Rightarrow>
                    let (_, w2) = ack_task wk c task w1;
                        (_, w3) = enqueue_task (wk_queue wk) c
                                    (task\<lparr>task_Attempts := nextAttempts, task_NotBefore := nb\<rparr>) w2
                    in (Some er, w3)
                | None \<Rightarrow> (None, w1))
          else (Some er, snd (ack_task wk c task w)))"

section \<open>Heartbeats\<close>

definition heartbeat_interval :: "WorkerConfig \<Rightarrow> duration" where
  "heartbeat_interval cfg =
     (let i0 = (if wc_HeartbeatInterval cfg \<le> 0 then wc_LeaseTTL cfg div 3 else wc_HeartbeatInterval cfg);
          i1 = (if i0 < 10 * Millisecond then 10 * Millisecond else i0);
          maxHeartbeat = wc_LeaseTTL cfg div 2
      in if maxHeartbeat > 0 \<and> i1 > maxHeartbeat then maxHeartbeat else i1)"

text \<open>When the ticker fires while a call runs from \<open>t0\<close> to \<open>t1\<close>.\<close>

definition heartbeat_times :: "duration \<Rightarrow> time \<Rightarrow> time \<Rightarrow> time list" where
  "heartbeat_times interval t0 t1 = map (\<lambda>k. t0 + (int k + 1) * interval) [0..<nat ((t1 - t0) div interval)]"

fun heartbeats :: "'q Queue \<Rightarrow> string \<Rightarrow> string \<Rightarrow> duration \<Rightarrow> time list \<Rightarrow> 'q \<Rightarrow> 'q" where
  "heartbeats Q taskID owner ttl [] q = q"
| "heartbeats Q taskID owner ttl (t # ts) q =
     heartbeats Q taskID owner ttl ts (snd (q_RenewLease Q t taskID owner ttl q))"

text \<open>
  The engine call between \<^verbatim>\<open>startHeartbeat\<close> and \<^verbatim>\<open>stopHB\<close>. The renewals of the heartbeat goroutine
  are the only queue operations meanwhile (the direct calls do not use the queue), so they
  are applied to the queue after the call, each with the time it happens at.
\<close>

definition with_heartbeat :: "('s, 'q, 'e, 'u) Worker \<Rightarrow> Task
     \<Rightarrow> (('s, 'q, 'e, 'u) world \<Rightarrow> ('s, 'q, 'e, 'u) outcome) \<Rightarrow> ('s, 'q, 'e, 'u) world \<Rightarrow> ('s, 'q, 'e, 'u) outcome" where
  "with_heartbeat wk task call w =
     (let (r, w1) = call w
      in (r, w1\<lparr>w_queue := heartbeats (wk_queue wk) (task_ID task) (wc_WorkerID (wk_cfg wk)) (wc_LeaseTTL (wk_cfg wk))
               (heartbeat_times (heartbeat_interval (wk_cfg wk)) (w_clock w) (w_clock w1)) (w_queue w1)\<rparr>))"

section \<open>Processing a task\<close>

type_synonym ('s, 'q, 'e, 'u) processed = "(bool \<times> goerr option) res \<times> ('s, 'q, 'e, 'u) world"

definition processed :: "goerr option \<times> ('s, 'q, 'e, 'u) world \<Rightarrow> ('s, 'q, 'e, 'u) processed" where
  "processed r = (Done (True, fst r), snd r)"

definition timeout_task :: "WorkerConfig \<Rightarrow> string \<Rightarrow> string \<Rightarrow> time \<Rightarrow> Task" where
  "timeout_task cfg i sigName now = zero_Task\<lparr>task_Type := TaskTypeSignal, task_InstanceID := i,
     task_SignalName := sigName, task_Payload := TimeoutPayload ''signal timeout'', task_EnqueuedAt := now,
     task_NotBefore := now + wc_DefaultSignalTimeout cfg\<rparr>"

definition finish_start :: "('s, 'q, 'e, 'u) Worker \<Rightarrow> ctx \<Rightarrow> Task \<Rightarrow> addr option \<Rightarrow> goerr option \<Rightarrow> ('s, 'q, 'e, 'u) world
     \<Rightarrow> ('s, 'q, 'e, 'u) processed" where
  "finish_start wk c task inst runErr w =
     (case runErr of
        None \<Rightarrow> processed (handleErr wk c task None w)
      | Some er \<Rightarrow>
          (case (IsWaitForSignalError er, inst) of
             (Some sigName, Some a) \<Rightarrow>
               if wc_DefaultSignalTimeout (wk_cfg wk) > 0 then
                 let w1 = snd (enqueue_task (wk_queue wk) c
                            (timeout_task (wk_cfg wk) (inst_ID (w_inst w a)) sigName (w_clock w)) w)
                 in processed (handleErr wk c task None w1)
               else processed (handleErr wk c task (Some er) w)
           | _ \<Rightarrow> processed (handleErr wk c task (Some er) w)))"

definition process_start :: "('s, 'q, 'e, 'u) Worker \<Rightarrow> ctx \<Rightarrow> Task \<Rightarrow> ('s, 'q, 'e, 'u) world \<Rightarrow> ('s, 'q, 'e, 'u) processed" where
  "process_start wk c task w =
     (case task_Payload task of
        StartWorkflowPayload input \<Rightarrow>
          let call = (if task_InstanceID task \<noteq> ''''
                then (case api_direct (wk_engine wk) of
                        Some de \<Rightarrow> wd_RunInstance de c (task_InstanceID task)
                      | None \<Rightarrow> (\<lambda>w. (Done (None, Some (ErrMsg ''engine does not support RunInstance for queued start'')), w)))
                else api_Run (wk_engine wk) c (task_WorkflowName task) input)
          in (case with_heartbeat wk task call w of
                (Done (inst, runErr), w1) \<Rightarrow> finish_start wk c task inst runErr w1
              | (Panicked s, w1) \<Rightarrow> (Panicked s, w1)
              | (NoFuel, w1) \<Rightarrow> (NoFuel, w1))
      | _ \<Rightarrow> (Done (True, Some (ErrMsg ''invalid payload type for start-workflow task'')), w))"

definition process_signal :: "('s, 'q, 'e, 'u) Worker \<Rightarrow> ctx \<Rightarrow> Task \<Rightarrow> ('s, 'q, 'e, 'u) world \<Rightarrow> ('s, 'q, 'e, 'u) processed" where
  "process_signal wk c task w =
     (let call = (case api_direct (wk_engine wk) of
                    Some de \<Rightarrow> wd_SignalNow de c (task_InstanceID task) (task_SignalName task) (task_Payload task)
                  | None \<Rightarrow> api_Signal (wk_engine wk) c (task_InstanceID task) (task_SignalName task) (task_Payload task))
      in (case with_heartbeat wk task call w of
            (Done (inst, sigErr), w1) \<Rightarrow>
              (case task_Payload task of
                 TimeoutPayload reason \<Rightarrow> processed (handleErr wk c task None (snd (ack_task wk c task w1)))
               | _ \<Rightarrow> processed (handleErr wk c task sigErr w1))
          | (Panicked s, w1) \<Rightarrow> (Panicked s, w1)
          | (NoFuel, w1) \<Rightarrow> (NoFuel, w1)))"

definition process_resume :: "('s, 'q, 'e, 'u) Worker \<Rightarrow> ctx \<Rightarrow> Task \<Rightarrow> ('s, 'q, 'e, 'u) world \<Rightarrow> ('s, 'q, 'e, 'u) processed" where
  "process_resume wk c task w =
     (let call = (case api_direct (wk_engine wk) of
                    Some de \<Rightarrow> wd_ResumeNow de c (task_InstanceID task)
                  | None \<Rightarrow> api_Resume (wk_engine wk) c (task_InstanceID task))
      in (case with_heartbeat wk task call w of
            (Done (inst, resErr), w1) \<Rightarrow> processed (handleErr wk c task resErr w1)
          | (Panicked s, w1) \<Rightarrow> (Panicked s, w1)
          | (NoFuel, w1) \<Rightarrow> (NoFuel, w1)))"

definition task_type_string :: "TaskType \<Rightarrow> string" where
  "task_type_string ty = (case ty of TaskTypeStartWorkflow \<Rightarrow> ''start-workflow'' | TaskTypeSignal \<Rightarrow> ''signal''
     | TaskTypeResume \<Rightarrow> ''resume'' | TaskTypeOther s \<Rightarrow> s)"

definition process_task :: "('s, 'q, 'e, 'u) Worker \<Rightarrow> ctx \<Rightarrow> Task \<Rightarrow> ('s, 'q, 'e, 'u) world \<Rightarrow> ('s, 'q, 'e, 'u) processed" where
  "process_task wk c task w =
     (case task_Type task of
        TaskTypeStartWorkflow \<Rightarrow> process_start wk c task w
      | TaskTypeSignal \<Rightarrow> process_signal wk c task w
      | TaskTypeResume \<Rightarrow> process_resume wk c task w
      | TaskTypeOther s \<Rightarrow>
          (Done (True, Some (ErrMsg (''unknown task type: '' @ task_type_string (task_Type task)))),
           snd (ack_task wk c task w)))"

text \<open>\<open>n\<close> bounds the number of polls \<^verbatim>\<open>Dequeue\<close> makes while it waits for a task.\<close>

definition ProcessOne :: "('s, 'q, 'e, 'u) Worker \<Rightarrow> nat \<Rightarrow> ctx \<Rightarrow> ('s, 'q, 'e, 'u) world \<Rightarrow> ('s, 'q, 'e, 'u) processed" where
  "ProcessOne wk n c w =
     (case Dequeue (wk_queue wk) n c (wc_WorkerID (wk_cfg wk)) (wc_LeaseTTL (wk_cfg wk)) (w_clock w) (w_queue w) of
        None \<Rightarrow> (NoFuel, w)
      | Some (Inl er, t, q) \<Rightarrow> (Done (False, Some er), w\<lparr>w_clock := t, w_queue := q\<rparr>)
      | Some (Inr task, t, q) \<Rightarrow> process_task wk c task (w\<lparr>w_clock := t, w_queue := q\<rparr>))"

section \<open>Heartbeats keep the lease\<close>

lemma heartbeat_interval_pos: "0 < wc_LeaseTTL cfg \<Longrightarrow> 0 < heartbeat_interval cfg"
  by (auto simp: heartbeat_interval_def Let_def Millisecond_def)

lemma heartbeat_interval_le: "2 \<le> wc_LeaseTTL cfg \<Longrightarrow> heartbeat_interval cfg \<le> wc_LeaseTTL cfg div 2"
  by (auto simp: heartbeat_interval_def Let_def)

lemma heartbeat_times_range:
  assumes "0 < iv" "t0 \<le> t1" "t \<in> set (heartbeat_times iv t0 t1)"
  shows "t0 < t \<and> t \<le> t1"
proof -
  from assms(3) obtain k where k: "k < nat ((t1 - t0) div iv)" "t = t0 + (int k + 1) * iv"
    by (auto simp: heartbeat_times_def)
  then have "int k + 1 \<le> (t1 - t0) div iv" by linarith
  then have "(int k + 1) * iv \<le> (t1 - t0) div iv * iv" using assms(1) by (simp add: mult_right_mono)
  also have "\<dots> \<le> t1 - t0" using assms(1) by (metis div_mult_mod_eq le_add_same_cancel1 pos_mod_sign)
  finally show ?thesis using k(2) assms(1) by (simp add: add_pos_nonneg)
qed

text \<open>The last renewal (or the start of the call) is less than an interval before the end.\<close>

lemma heartbeat_times_recent:
  assumes "0 < iv" "t0 \<le> t1"
  shows "t1 < (if heartbeat_times iv t0 t1 = [] then t0 else last (heartbeat_times iv t0 t1)) + iv"
proof -
  define n where "n = nat ((t1 - t0) div iv)"
  have ge: "0 \<le> (t1 - t0) div iv" using assms by (simp add: pos_imp_zdiv_nonneg_iff)
  have "t1 - t0 < ((t1 - t0) div iv + 1) * iv"
    using assms(1) by (metis mult.commute floor_divide_lower div_mult_mod_eq add_strict_left_mono distrib_right
        mult_1 pos_mod_bound)
  then have lt: "t1 < t0 + int n * iv + iv" using ge by (simp add: n_def distrib_right)
  show ?thesis
  proof (cases n)
    case 0
    with lt have "t1 < t0 + iv" by simp
    moreover have "heartbeat_times iv t0 t1 = []" using 0 by (simp add: heartbeat_times_def n_def)
    ultimately show ?thesis by simp
  next
    case (Suc m)
    then have "last (heartbeat_times iv t0 t1) = t0 + int n * iv" "heartbeat_times iv t0 t1 \<noteq> []"
      by (simp_all add: heartbeat_times_def n_def [symmetric] last_map)
    with lt show ?thesis by simp
  qed
qed

context exact_queue
begin

lemma heartbeats_view:
  assumes "inv q" "owner \<noteq> ''''" "0 < ttl" "\<forall>t \<in> set ts. valid t \<and> valid (t + ttl)"
    and "view q i = Some (t0, Leased owner x)"
  shows "inv (heartbeats Q i owner ttl ts q) \<and>
    view (heartbeats Q i owner ttl ts q) =
      (view q)(i \<mapsto> (t0, Leased owner (if ts = [] then x else last ts + ttl)))"
  using assms
proof (induction ts arbitrary: q x)
  case Nil
  then show ?case by auto
next
  case (Cons t ts)
  obtain r q1 where rq: "q_RenewLease Q t i owner ttl q = (r, q1)"
    by (cases "q_RenewLease Q t i owner ttl q")
  have "leased_by (view q) i owner" using Cons.prems(5) by (auto simp: leased_by_def)
  then have q1: "inv q1" "view q1 = (view q)(i \<mapsto> (t0, Leased owner (t + ttl)))"
    using renew_law [OF Cons.prems(1) _ _ Cons.prems(3,2) view_ident [OF Cons.prems(1,5)] rq] Cons.prems(4,5) by auto
  with Cons.IH [of q1 "t + ttl"] Cons.prems rq show ?case by auto
qed

text \<open>A task claimed at \<open>t0\<close> is still leased to its worker at every later moment of the call.\<close>

lemma heartbeat_holds_lease:
  assumes "inv q" "wc_WorkerID cfg \<noteq> ''''" "2 \<le> wc_LeaseTTL cfg" "t0 \<le> t1"
    and "\<forall>t. t0 \<le> t \<and> t \<le> t1 \<longrightarrow> valid t \<and> valid (t + wc_LeaseTTL cfg)"
    and "view q i = Some (task, Leased (wc_WorkerID cfg) (t0 + wc_LeaseTTL cfg))"
    and q': "q' = heartbeats Q i (wc_WorkerID cfg) (wc_LeaseTTL cfg) (heartbeat_times (heartbeat_interval cfg) t0 t1) q"
  shows "\<exists>x. inv q' \<and> view q' = (view q)(i \<mapsto> (task, Leased (wc_WorkerID cfg) x)) \<and> t1 < x"
proof -
  let ?iv = "heartbeat_interval cfg" and ?ttl = "wc_LeaseTTL cfg"
  let ?ts = "heartbeat_times ?iv t0 t1"
  have iv: "0 < ?iv" "?iv \<le> ?ttl" using heartbeat_interval_pos [of cfg] heartbeat_interval_le [of cfg] assms(3) by auto
  have "\<forall>t \<in> set ?ts. valid t \<and> valid (t + ?ttl)"
    using heartbeat_times_range [OF iv(1) assms(4)] assms(5) by (meson less_imp_le)
  with heartbeats_view [OF assms(1,2) _ _ assms(6)] assms(3) q'
  have v: "inv q'" "view q' = (view q)(i \<mapsto> (task, Leased (wc_WorkerID cfg)
      (if ?ts = [] then t0 + ?ttl else last ?ts + ?ttl)))" by auto
  have "t1 < (if ?ts = [] then t0 + ?ttl else last ?ts + ?ttl)"
    using heartbeat_times_recent [OF iv(1) assms(4)] iv(2) by (auto split: if_splits)
  with v show ?thesis by blast
qed

end

section \<open>The fate of a task\<close>

text \<open>Finishing a task changes nothing but the queue.\<close>

lemma handleErr_frame: "handleErr wk c task err w = (r, w') \<Longrightarrow> \<exists>q. w' = w\<lparr>w_queue := q\<rparr>"
  by (auto simp: handleErr_def ack_task_def enqueue_task_def Let_def split: option.splits if_splits prod.splits)

text \<open>
  What happens to the tasks when the handler of \<open>task\<close> is done: removed on success and on the
  last attempt, put back with one more attempt and the backoff otherwise.
\<close>

definition settle :: "WorkerConfig \<Rightarrow> Task \<Rightarrow> goerr option \<Rightarrow> time \<Rightarrow> table \<Rightarrow> table" where
  "settle cfg task err now v =
     (if err \<noteq> None \<and> task_Attempts task + 1 < wc_MaxAttempts cfg
      then v(task_ID task \<mapsto> ((fst (the (v (task_ID task))))\<lparr>
             task_NotBefore := now + max 0 (wc_Backoff cfg), task_Attempts := task_Attempts task + 1\<rparr>, Free))
      else v(task_ID task := None))"

context exact_queue
begin

lemma handleErr_settles:
  assumes "inv (w_queue w)" "wk_queue wk = Q" "wc_WorkerID (wk_cfg wk) \<noteq> ''''"
    and "ctx_Err c (w_clock w) = None" "valid (w_clock w + max 0 (wc_Backoff (wk_cfg wk)))"
    and l: "leased_by (view (w_queue w)) (task_ID task) (wc_WorkerID (wk_cfg wk))"
    and h: "handleErr wk c task err w = (r, w')"
  shows "inv (w_queue w') \<and> view (w_queue w') = settle (wk_cfg wk) task err (w_clock w) (view (w_queue w)) \<and>
    r = (if task_Attempts task + 1 < wc_MaxAttempts (wk_cfg wk) then None else err)"
proof -
  let ?cfg = "wk_cfg wk"
  have can: "ident (task_ID task)" using l view_ident [OF assms(1)] by (auto simp: leased_by_def)
  obtain ra qa where ack: "q_Ack Q None (task_ID task) (wc_WorkerID ?cfg) (w_queue w) = (ra, qa)"
    by (cases "q_Ack Q None (task_ID task) (wc_WorkerID ?cfg) (w_queue w)")
  note al = ack_law [OF assms(1,3) can ack]
  have a: "ack_task wk c task w = (None, w\<lparr>w_queue := qa\<rparr>)" "inv qa"
    "view qa = (view (w_queue w))(task_ID task := None)"
    using al ack assms(2,4) l by (simp_all add: ack_task_def)
  obtain rn qn where nack: "q_Nack Q None (task_ID task) (wc_WorkerID ?cfg) (w_clock w + max 0 (wc_Backoff ?cfg))
      (task_Attempts task + 1) (w_queue w) = (rn, qn)"
    by (cases "q_Nack Q None (task_ID task) (wc_WorkerID ?cfg) (w_clock w + max 0 (wc_Backoff ?cfg))
      (task_Attempts task + 1) (w_queue w)")
  note nl = nack_law [OF assms(1,3) can assms(5) nack]
  have nb: "(if wc_Backoff ?cfg > 0 then w_clock w + wc_Backoff ?cfg else w_clock w) =
      w_clock w + max 0 (wc_Backoff ?cfg)" by simp
  show ?thesis
  proof (cases "err \<noteq> None \<and> task_Attempts task + 1 < wc_MaxAttempts ?cfg")
    case True
    with h nack nl l assms(2,4) show ?thesis
      unfolding handleErr_def nb by (auto simp: Let_def settle_def)
  next
    case False
    with h a show ?thesis by (auto simp: handleErr_def settle_def split: option.splits)
  qed
qed

end

end
