(* ===== verification/Engine_Spec.thy ===== *)
theory Engine_Spec
  imports Engine_Exec
begin

text \<open>
  Reference semantics for runs: a workflow of deterministic steps computes the fold of its
  step functions, whatever the steps do besides; cached steps are never looked at; and a
  step that keeps failing is tried exactly as often and as late as its retry policy says.
\<close>

section \<open>The fold a workflow computes\<close>

text \<open>The first error and where it occurs, or the last output.\<close>

fun run_spec :: "(anyv \<Rightarrow> goerr + anyv) list \<Rightarrow> nat \<Rightarrow> anyv \<Rightarrow> nat \<times> goerr + anyv" where
  "run_spec [] i v = Inr v"
| "run_spec (f # fs) i v = (case f v of Inl err \<Rightarrow> Inl (i, err) | Inr u \<Rightarrow> run_spec fs (Suc i) u)"

text \<open>
  The result of running \<open>fn\<close> is a function of its input alone (its effects on the world are
  not restricted).
\<close>

definition computes :: "(heap \<times> 's \<Rightarrow> bool) \<Rightarrow> ('s, 'q, 'e, 'u) runner \<Rightarrow> 'u StepFunc option \<Rightarrow> (anyv \<Rightarrow> goerr + anyv) \<Rightarrow> bool" where
  "computes I R fn g \<longleftrightarrow> (\<forall>c v w. ctx_cancel c = None \<longrightarrow> wf_world I w \<longrightarrow> fst (R fn c v w) = Done (g v))"

definition spec_outcome :: "nat \<times> goerr + anyv \<Rightarrow> step_outcome" where
  "spec_outcome r = (case r of Inl (k, err) \<Rightarrow> Stop err | Inr v \<Rightarrow> Advance v)"

lemma ctx_cancel_None:
  assumes "ctx_cancel c = None"
  shows "ctx_Err c now = None" "select_sleep c d now = (None, now + max 0 d)" "ctx_wf c"
  using assms by (simp_all add: ctx_Err_def select_sleep_def ctx_wf_def)

lemma invoke_step_result:
  "fst (invoke_step R c a i step v w) = fst (R (step_Fn step) c v (observe (OnStepStart (w_inst w a) (step_Name step) i) w))"
  by (auto simp: invoke_step_def Let_def split: prod.splits res.splits)

context engine_store
begin

lemma attempt_loop_computes:
  assumes e: "e_instances e = S" and R: "runner_frame inv R" and c: "ctx_cancel c = None"
    and g: "computes inv R (step_Fn step) g"
  shows "wf_world inv w \<Longrightarrow> a < length (w_heap w) \<Longrightarrow>
    fst (attempt_loop e R c a i step rs left backoff v w) =
      (case g v of Inl err \<Rightarrow> Stop err | Inr u \<Rightarrow> Advance u)"
proof (induction left arbitrary: backoff w rule: less_induct)
  case (less left backoff w)
  obtain x w1 where i1: "invoke_step R (WithEngine c) a i step v w = (x, w1)"
    by (cases "invoke_step R (WithEngine c) a i step v w")
  have "wf_world inv (observe cb w)" for cb using evolve_wf [OF evolve_observe [OF less.prems(1)]] .
  then have x: "x = Done (g v)"
    using g c i1 invoke_step_result [of R "WithEngine c" a i step v w] by (simp add: computes_def)
  have ev: "evolve inv w w1" using evolve_invoke [OF R less.prems(1) i1] ctx_cancel_None [OF c] by simp
  then have w1: "wf_world inv w1" "a < length (w_heap w1)"
    using less.prems(2) by (auto simp: evolve_def heap_ext_def)
  have w2: "wf_world inv (w1\<lparr>w_clock := t\<rparr>)" "a < length (w_heap (w1\<lparr>w_clock := t\<rparr>))" for t
    using w1 by (simp_all add: wf_world_def)
  show ?case
  proof (cases "g v")
    case (Inr u)
    with i1 x show ?thesis by (subst attempt_loop.simps) (simp add: ctx_cancel_None [OF c])
  next
    case (Inl err)
    with i1 x less.IH w1 w2 show ?thesis
      by (subst attempt_loop.simps) (simp add: ctx_cancel_None [OF c] split: option.splits nat.splits)
  qed
qed

text \<open>A run that starts with a step without a cached result.\<close>

lemma step_loop_head:
  assumes e: "e_instances e = S" and R: "runner_frame inv R" and c: "ctx_cancel c = None"
    and w: "wf_world inv w" "a < length (w_heap w)" and none: "cached (core w a) i = None"
    and g: "computes inv R (step_Fn step) g"
  shows "\<exists>w3. touch inv a (\<lambda>x. step_effect i (spec_outcome (run_spec [g] i v)) (x\<lparr>inst_CurrentStep := i\<rparr>)) w w3 \<and>
    step_loop e R c a i (step # steps) v w =
      (case g v of Inl err \<Rightarrow> (Stop err, w3) | Inr u \<Rightarrow> step_loop e R c a (Suc i) steps u w3)"
proof -
  define w1 where "w1 = renewInstanceLease e c (inst_ID (w_inst w a)) w"
  have t1: "touch inv a (\<lambda>x. x) w w1" unfolding w1_def by (rule touch_renew [OF e touch_refl [OF w]])
  note w1 = touchD [OF t1]
  have none1: "cached (w_inst w1 a) i = None" using none w1(1) by (metis cached_core)
  define w2 where "w2 = enter_step e c a i (step_Name step) w1"
  have t2: "touch inv a (\<lambda>x. x\<lparr>inst_CurrentStep := i\<rparr>) w1 w2"
    unfolding w2_def by (rule touch_enter [OF e w1(2,3)])
  note w2 = touchD [OF t2]
  obtain x w3 where ra: "run_attempts e R c a i step v w2 = (x, w3)"
    by (cases "run_attempts e R c a i step v w2")
  have x: "x = (case g v of Inl err \<Rightarrow> Stop err | Inr u \<Rightarrow> Advance u)"
    using attempt_loop_computes [OF e R c g w2(2,3)] ra by (simp add: run_attempts_def Let_def) (metis fst_conv)
  have t3: "touch inv a (step_effect i x) w2 w3"
    using ra attempt_loop_touch [OF e R ctx_cancel_None(3) [OF c] w2(2,3)] unfolding run_attempts_def Let_def by blast
  have "x = spec_outcome (run_spec [g] i v)" using x by (simp add: spec_outcome_def split: sum.splits)
  moreover have "step_loop e R c a i (step # steps) v w =
      (case x of Advance u \<Rightarrow> step_loop e R c a (Suc i) steps u w3 | _ \<Rightarrow> (x, w3))"
    using none1 ra by (simp add: w1_def w2_def Let_def split: step_outcome.splits)
  ultimately show ?thesis using touch_trans [OF t1 touch_trans [OF t2 t3]] x
    by (intro exI [of _ w3]) (auto simp: spec_outcome_def simp del: step_loop.simps split: sum.splits)
qed

lemma step_loop_computes:
  assumes e: "e_instances e = S" and R: "runner_frame inv R" and c: "ctx_cancel c = None"
  shows "wf_world inv w \<Longrightarrow> a < length (w_heap w) \<Longrightarrow> list_all2 (\<lambda>s g. computes inv R (step_Fn s) g) steps gs \<Longrightarrow>
    (\<forall>k \<ge> i. cached (core w a) k = None) \<Longrightarrow>
    step_loop e R c a i steps v w = (r, w') \<Longrightarrow>
    r = spec_outcome (run_spec gs i v) \<and>
    (\<forall>k err. run_spec gs i v = Inl (k, err) \<longrightarrow> inst_CurrentStep (core w' a) = k)"
proof (induction steps arbitrary: i v w gs)
  case Nil
  then show ?case by (simp add: spec_outcome_def)
next
  case (Cons step steps)
  obtain g gs' where gs: "gs = g # gs'" "computes inv R (step_Fn step) g"
    "list_all2 (\<lambda>s g. computes inv R (step_Fn s) g) steps gs'"
    using Cons.prems(3) by (auto simp: list_all2_Cons1)
  have "cached (core w a) i = None" using Cons.prems(4) by blast
  from step_loop_head [OF e R c Cons.prems(1,2) this gs(2), of v steps] obtain w3 where
    t: "touch inv a (\<lambda>x. step_effect i (spec_outcome (run_spec [g] i v)) (x\<lparr>inst_CurrentStep := i\<rparr>)) w w3"
    and loop: "step_loop e R c a i (step # steps) v w =
      (case g v of Inl err \<Rightarrow> (Stop err, w3) | Inr u \<Rightarrow> step_loop e R c a (Suc i) steps u w3)" by blast
  note w3 = touchD [OF t]
  show ?case
  proof (cases "g v")
    case (Inl err)
    with w3(1) have "inst_CurrentStep (core w3 a) = i"
      by (simp add: spec_outcome_def mark_failed_def mark_waiting_def)
    with Inl loop gs Cons.prems(5) show ?thesis by (auto simp: spec_outcome_def)
  next
    case (Inr u)
    have "\<forall>k \<ge> Suc i. cached (core w3 a) k = None"
      using Cons.prems(4) w3(1) Inr by (simp add: spec_outcome_def del: cached_core)
    moreover have "step_loop e R c a (Suc i) steps u w3 = (r, w')" using loop Inr Cons.prems(5) by simp
    ultimately show ?thesis using Cons.IH [OF w3(2,3) gs(3), of "Suc i"] Inr gs(1) by simp
  qed
qed

end

text \<open>Which error, if any, the fold ends with, and the step it stops at.\<close>

definition spec_err :: "nat \<times> goerr + anyv \<Rightarrow> goerr option" where
  "spec_err r = (case r of Inl (k, err) \<Rightarrow> Some err | Inr v \<Rightarrow> None)"

section \<open>Cached steps are not looked at\<close>

context engine_store
begin

lemma step_loop_ignores_cached:
  assumes e: "e_instances e = S" and R: "runner_frame inv R" and c: "ctx_wf c"
  shows "wf_world inv w \<Longrightarrow> a < length (w_heap w) \<Longrightarrow> length steps = length steps' \<Longrightarrow>
    (\<forall>k < length steps. cached (core w a) (i + k) = None \<longrightarrow> steps ! k = steps' ! k) \<Longrightarrow>
    step_loop e R c a i steps v w = step_loop e R c a i steps' v w"
proof (induction steps arbitrary: i v w steps')
  case (Cons step steps)
  obtain step' rest where s': "steps' = step' # rest" "length steps = length rest"
    using Cons.prems(3) by (cases steps') auto
  have later: "\<forall>k < length steps. cached (core w a) (Suc i + k) = None \<longrightarrow> steps ! k = rest ! k"
  proof (intro allI impI)
    fix k assume "k < length steps" "cached (core w a) (Suc i + k) = None"
    with Cons.prems(4) [rule_format, of "Suc k"] s' show "steps ! k = rest ! k" by simp
  qed
  define w1 where "w1 = renewInstanceLease e c (inst_ID (w_inst w a)) w"
  have t1: "touch inv a (\<lambda>x. x) w w1"
    unfolding w1_def by (rule touch_renew [OF e touch_refl [OF Cons.prems(1,2)]])
  note w1 = touchD [OF t1]
  show ?case
  proof (cases "cached (w_inst w1 a) i")
    case (Some u)
    note w2 = touchD [OF touch_skip [OF e w1(2,3), of i]]
    have "step_loop e R c a (Suc i) steps u (skip_cached e a i w1) = step_loop e R c a (Suc i) rest u (skip_cached e a i w1)"
      by (rule Cons.IH [OF w2(2,3) s'(2)]) (use later w1(1) w2(1) in \<open>simp del: cached_core\<close>)
    with Some s' show ?thesis by (simp add: w1_def Let_def)
  next
    case None
    then have "step' = step" using Cons.prems(4) [rule_format, of 0] s' w1(1) by (simp del: cached_core) (metis cached_core)
    moreover
    note w2 = touchD [OF touch_enter [OF e w1(2,3), of i c "step_Name step"]]
    obtain x w3 where ra: "run_attempts e R c a i step v (enter_step e c a i (step_Name step) w1) = (x, w3)"
      by (cases "run_attempts e R c a i step v (enter_step e c a i (step_Name step) w1)")
    have t3: "touch inv a (step_effect i x) (enter_step e c a i (step_Name step) w1) w3"
      using ra attempt_loop_touch [OF e R c w2(2,3)] unfolding run_attempts_def Let_def by blast
    note w3 = touchD [OF t3]
    have "step_loop e R c a (Suc i) steps u w3 = step_loop e R c a (Suc i) rest u w3" if "x = Advance u" for u
      by (rule Cons.IH [OF w3(2,3) s'(2)]) (use later w1(1) w2(1) w3(1) that in \<open>simp del: cached_core\<close>)
    ultimately show ?thesis using None s' ra
      by (simp add: w1_def Let_def split: step_outcome.splits)
  qed
qed simp

lemma executeSteps_ignores_cached:
  assumes "e_instances e = S" "runner_frame inv R" "ctx_wf c" "wf_world inv w" "a < length (w_heap w)"
    and "length (def_Steps def') = length (def_Steps def)"
    and "\<forall>k < length (def_Steps def). cached (w_inst w a) k = None \<longrightarrow> def_Steps def' ! k = def_Steps def ! k"
  shows "executeSteps e R c def' a start v w = executeSteps e R c def a start v w"
proof -
  have "step_loop e R c a start (drop start (def_Steps def')) v w = step_loop e R c a start (drop start (def_Steps def)) v w"
    by (rule step_loop_ignores_cached [OF assms(1-5)]) (use assms(6,7) in auto)
  then show ?thesis unfolding executeSteps_def assms(6) by simp
qed

end

section \<open>Retries of a failing step\<close>

definition is_start :: "nat \<Rightarrow> callback \<Rightarrow> bool" where
  "is_start i cb = (case cb of OnStepStart x name j \<Rightarrow> j = i | _ \<Rightarrow> False)"

definition starts :: "nat \<Rightarrow> ('s, 'q, 'e, 'u) world \<Rightarrow> nat" where
  "starts i w = length (filter (is_start i) (w_log w))"

lemma starts_simps [simp]:
  "starts i (observe cb w) = starts i w + (if is_start i cb then 1 else 0)"
  "starts i (set_inst a f w) = starts i w" "starts i (emitEvent e c a ty k d w) = starts i w"
  "starts i (snd (update_instance e a w)) = starts i w" "starts i (w\<lparr>w_clock := t\<rparr>) = starts i w"
  "starts i (releaseInstanceLease e c j w) = starts i w" "starts i (renewInstanceLease e c j w) = starts i w"
  by (simp_all add: starts_def observe_def set_inst_def emitEvent_def update_instance_def
      releaseInstanceLease_def renewInstanceLease_def split: option.splits prod.splits)

lemma starts_fail_step [simp]:
  "starts i (fail_step e c a k name err w) = starts i w" "w_clock (fail_step e c a k name err w) = w_clock w"
  by (simp_all add: fail_step_def Let_def is_start_def)

text \<open>A step that fails at once, every time, with an error that does not ask to wait.\<close>

lemma failing_step_attempts:
  assumes c: "ctx_cancel c = None" and nw: "\<not> is_wait err"
    and R: "\<And>c' w. R (step_Fn step) c' v w = (Done (Inl err), w)"
    and al: "attempt_loop e R c a i step rs left backoff v w = (r, w')"
  shows "r = Stop err \<and> starts i w' = starts i w + Suc left \<and>
    w_clock w' = w_clock w + sum_list (retry_delays (e_conv e) rs left backoff)"
proof -
  have nws: "WaitForSignalMeta err = None" "\<not> AsWaitForChildren err" "\<not> IsWaitForAnyChildError err"
    using nw unfolding is_wait_def by blast+
  have inv: "\<exists>w1. invoke_step R (WithEngine c) a i step v w = (Done (Inl err), w1) \<and>
      starts i w1 = Suc (starts i w) \<and> w_clock w1 = w_clock w" for w
    by (simp add: invoke_step_def Let_def R is_start_def)
  show ?thesis using al
  proof (induction left arbitrary: backoff w)
    case 0
    obtain w1 where "invoke_step R (WithEngine c) a i step v w = (Done (Inl err), w1)"
      "starts i w1 = Suc (starts i w)" "w_clock w1 = w_clock w" using inv by blast
    with 0 nws show ?case by (auto simp: attempt_loop.simps [of _ _ _ _ _ _ _ 0] ctx_cancel_None [OF c])
  next
    case (Suc left)
    obtain w1 where w1: "invoke_step R (WithEngine c) a i step v w = (Done (Inl err), w1)"
      "starts i w1 = Suc (starts i w)" "w_clock w1 = w_clock w" using inv by blast
    show ?case
    proof (cases "backoff > 0")
      case True
      let ?w2 = "w1\<lparr>w_clock := w_clock w1 + max 0 (attempt_delay rs backoff)\<rparr>"
      have "0 < attempt_delay rs backoff" using True by (simp add: attempt_delay_def)
      moreover have "attempt_loop e R c a i step rs left (grow_backoff (e_conv e) rs backoff) v ?w2 = (r, w')"
        using Suc.prems w1 nws True
        by (simp add: attempt_loop.simps [of _ _ _ _ _ _ _ "Suc left"] ctx_cancel_None [OF c])
      ultimately show ?thesis using Suc.IH [of "grow_backoff (e_conv e) rs backoff" ?w2] w1 True by simp
    next
      case False
      have "attempt_loop e R c a i step rs left backoff v w1 = (r, w')"
        using Suc.prems w1 nws False
        by (simp add: attempt_loop.simps [of _ _ _ _ _ _ _ "Suc left"] ctx_cancel_None [OF c])
      then show ?thesis using Suc.IH [of backoff w1] w1 False by simp
    qed
  qed
qed

section \<open>Whole runs\<close>

text \<open>What the fold says about the instance at the end of a run.\<close>

definition spec_post :: "nat \<Rightarrow> nat \<times> goerr + anyv \<Rightarrow> WorkflowInstance \<Rightarrow> bool" where
  "spec_post n r y =
     (case r of
        Inr u \<Rightarrow> inst_Status y = StatusCompleted \<and> inst_Output y = u \<and> inst_CurrentStep y = n
      | Inl (k, err) \<Rightarrow> stopped err y \<and> inst_CurrentStep y = k)"

lemma stopped_core [simp]: "stopped err (core w a) = stopped err (w_inst w a)"
  by (simp add: stopped_def)

lemma spec_post_core [simp]: "spec_post n r (core w a) = spec_post n r (w_inst w a)"
  by (simp add: spec_post_def split: sum.split prod.split)

text \<open>What \<open>create_instance\<close> reports and stores is what \<^verbatim>\<open>SaveInstance\<close> of the new object does.\<close>

lemma create_instance_saved:
  assumes "create_instance e def st v w = ((a, erro), w')"
  shows "(erro, w_store w') = is_SaveInstance (e_instances e) (length (w_heap w))
      (w_heap w @ [new_instance (fst (nextInstanceID w)) def st v]) (w_store w)"
    and "erro = Some er \<Longrightarrow> w_inst w' a = mark_failed er (new_instance (fst (nextInstanceID w)) def st v)"
  using assms
  by (auto simp: create_instance_def nextInstanceID_def alloc_def Let_def observe_def set_inst_def mark_failed_def
      w_inst_def deref_assign split: prod.splits option.splits)

context engine_store
begin

lemma executeSteps_computes:
  assumes e: "e_instances e = S" and R: "runner_frame inv R" and c: "ctx_cancel c = None"
    and w: "wf_world inv w" "a < length (w_heap w)"
    and gs: "list_all2 (\<lambda>s g. computes inv R (step_Fn s) g) (def_Steps def) gs"
    and none: "\<forall>k. cached (core w a) k = None"
  shows "\<exists>w' f. executeSteps e R c def a 0 v w = (Done (Some a, spec_err (run_spec gs 0 v)), w') \<and>
    touch inv a f w w' \<and> spec_post (length gs) (run_spec gs 0 v) (core w' a)"
proof -
  obtain x w1 where sl: "step_loop e R c a 0 (def_Steps def) v w = (x, w1)"
    by (cases "step_loop e R c a 0 (def_Steps def) v w")
  have x: "x = spec_outcome (run_spec gs 0 v)"
    "\<And>k err. run_spec gs 0 v = Inl (k, err) \<Longrightarrow> inst_CurrentStep (core w1 a) = k"
    using step_loop_computes [OF e R c w gs _ sl] none by auto
  from step_loop_post [OF e R ctx_cancel_None(3) [OF c] w sl] obtain f where f: "touch inv a f w w1"
    "run_post 0 (length (def_Steps def)) v x (core w a) (core w1 a)" by blast
  have len: "length (def_Steps def) = length gs" using gs by (rule list_all2_lengthD)
  show ?thesis
  proof (cases "run_spec gs 0 v")
    case (Inl ke)
    obtain k err where ke: "ke = (k, err)" by (cases ke)
    then have "spec_post (length gs) (run_spec gs 0 v) (core w1 a)"
      using f(2) x Inl by (simp add: spec_post_def run_post_def spec_outcome_def)
    with f(1) sl x Inl ke show ?thesis by (auto simp: executeSteps_def spec_outcome_def spec_err_def)
  next
    case (Inr u)
    let ?w2 = "complete_workflow e c a (length (def_Steps def)) u w1"
    note tc = touch_complete [OF e touchD(2,3) [OF f(1)], where v = u and n = "length (def_Steps def)" and c = c]
    have "spec_post (length gs) (run_spec gs 0 v) (core ?w2 a)"
      using touchD(1) [OF tc] Inr len by (simp add: spec_post_def)
    with touch_trans [OF f(1) tc] sl x Inr show ?thesis
      by (auto simp: executeSteps_def spec_outcome_def spec_err_def)
  qed
qed

lemma Run_computes:
  assumes e: "e_instances e = S" and R: "runner_frame inv R" and c: "ctx_cancel c = None"
    and wf: "wf_world inv w" and def: "GetLatestWorkflow name (w_workflows w) = Inr def"
    and gs: "list_all2 (\<lambda>s g. computes inv R (step_Fn s) g) (def_Steps def) gs"
    and save: "fst (is_SaveInstance S (length (w_heap w)) (w_heap w @ [new_instance (fst (nextInstanceID w)) def StatusRunning v])
      (w_store w)) = None"
  shows "\<exists>w'. Run e R c name v w = (Done (Some (length (w_heap w)), spec_err (run_spec gs 0 v)), w') \<and>
    evolve inv w w' \<and> spec_post (length gs) (run_spec gs 0 v) (w_inst w' (length (w_heap w)))"
proof -
  obtain a erro w2 where cr: "create_instance e def StatusRunning v w = ((a, erro), w2)"
    by (metis prod.exhaust)
  have erro: "erro = None" using create_instance_saved(1) [OF cr] save e by (metis fst_conv)
  from create_instance_new [OF e wf cr] obtain w1 where a: "a = length (w_heap w)"
    and t: "touch inv a (\<lambda>x. x) w1 w2" "w_heap w1 = w_heap w @ [new_instance (fst (nextInstanceID w)) def StatusRunning v]"
    and same: "w_workflows w1 = w_workflows w" "w_queue w1 = w_queue w" "w_clock w1 = w_clock w"
    using erro by blast
  let ?w3 = "emitEvent e c a EventWorkflowStarted (- 1) '''' w2"
  have t3: "touch inv a (\<lambda>x. x) w1 ?w3" using touch_emit [OF t(1)] .
  have "w_inst w1 a = new_instance (fst (nextInstanceID w)) def StatusRunning v"
    by (simp add: w_inst_def t(2) a)
  then have "cached (core ?w3 a) k = None" for k
    using touchD(1) [OF t3] by (simp del: core_sel cached_core) (simp add: cached_def new_instance_def)
  then obtain w' f where ex: "executeSteps e R c def a 0 v ?w3 = (Done (Some a, spec_err (run_spec gs 0 v)), w')"
    "touch inv a f ?w3 w'" "spec_post (length gs) (run_spec gs 0 v) (core w' a)"
    using executeSteps_computes [OF e R c touchD(2,3) [OF t3] gs] by blast
  have "evolve inv w w'" using touch_evolve_new [OF touch_trans [OF t3 ex(2)] t(2) a same] .
  moreover have "spec_post (length gs) (run_spec gs 0 v) (w_inst w' a)"
    using ex(3) by simp
  ultimately show ?thesis using ex(1) def cr erro a by (auto simp: Run_def)
qed

end

text \<open>Steps that only compute.\<close>

definition pure_step :: "string \<Rightarrow> string \<Rightarrow> (anyv \<Rightarrow> goerr + anyv) \<Rightarrow> RetryPolicy option \<Rightarrow> 'u StepDefinition" where
  "pure_step name fn g retry =
     \<lparr>step_Name = name, step_Fn = Some \<lparr>fn_name = fn, fn_body = (\<lambda>v. Return (g v))\<rparr>, step_Retry = retry\<rparr>"

lemma step_runner_pure:
  "step_runner e n d (Some \<lparr>fn_name = fn, fn_body = (\<lambda>v. Return (g v))\<rparr>) c v w = (Done (g v), w)"
  by (cases d) (simp_all add: run_fn_def step_runner.simps)

lemma computes_pure_step: "computes I (step_runner e n d) (step_Fn (pure_step name fn g retry)) g"
  by (simp add: computes_def pure_step_def step_runner_pure)

lemma strip_new_instance [simp]: "strip_lease (new_instance i def st v) = new_instance i def st v"
  by (simp add: strip_lease_def new_instance_def)

lemma exec_post_core [simp]: "exec_post s n v erro x (core w a) = exec_post s n v erro x (w_inst w a)"
  by (simp add: exec_post_def same_identity_def keeps_results_def split: option.split)

context engine_store
begin

lemma Run_exec_post:
  assumes e: "e_instances e = S" and R: "runner_frame inv R" and c: "ctx_wf c"
    and wf: "wf_world inv w" and def: "GetLatestWorkflow name (w_workflows w) = Inr def"
    and save: "fst (is_SaveInstance S (length (w_heap w)) (w_heap w @ [new_instance (fst (nextInstanceID w)) def StatusRunning v])
      (w_store w)) = None"
    and run: "Run e R c name v w = (Done (ao, erro), w')"
  shows "ao = Some (length (w_heap w)) \<and>
    exec_post 0 (length (def_Steps def)) v erro (new_instance (fst (nextInstanceID w)) def StatusRunning v)
      (w_inst w' (length (w_heap w)))"
proof -
  obtain a ero w2 where cr: "create_instance e def StatusRunning v w = ((a, ero), w2)"
    by (metis prod.exhaust)
  have ero: "ero = None" using create_instance_saved(1) [OF cr] save e by (metis fst_conv)
  from create_instance_new [OF e wf cr] obtain w1 where a: "a = length (w_heap w)"
    and t: "touch inv a (\<lambda>x. x) w1 w2" "w_heap w1 = w_heap w @ [new_instance (fst (nextInstanceID w)) def StatusRunning v]"
    using ero by blast
  let ?w3 = "emitEvent e c a EventWorkflowStarted (- 1) '''' w2"
  have t3: "touch inv a (\<lambda>x. x) w1 ?w3" using touch_emit [OF t(1)] .
  have "core w1 a = new_instance (fst (nextInstanceID w)) def StatusRunning v"
    by (simp add: core_def w_inst_def t(2) a)
  then have c3: "core ?w3 a = new_instance (fst (nextInstanceID w)) def StatusRunning v" using touchD(1) [OF t3] by simp
  have ex: "executeSteps e R c def a 0 v ?w3 = (Done (ao, erro), w')" using run def cr ero by (simp add: Run_def)
  from executeSteps_touch [OF e R c touchD(2,3) [OF t3] ex] c3 a show ?thesis by auto
qed

end

lemma mem_save_ok: "fst (is_SaveInstance memoryStore a h s) = None"
  by (simp add: Mem_SaveInstance_def)

end
