(* ===== verification/Engine_Durable.thy ===== *)
theory Engine_Durable
  imports Engine_Spec
begin

text \<open>
  What the engine leaves in a store that encodes instances. \<^verbatim>\<open>executeSteps\<close> ignores the errors of
  \<^verbatim>\<open>UpdateInstance\<close>, so a write may be lost on the way; the locale \<open>durable_store\<close> is what is needed of
  a store for the last write of a run to be what the store then holds, whatever the steps did before.
\<close>

section \<open>The contract\<close>

text \<open>
  For one instance, with the identifier, version and fingerprint of \<open>key\<close>: \<open>saved\<close> says that the store has
  it, \<open>fresh\<close> that the store has no instance with its identifier, \<open>sent\<close> that its values can be encoded,
  \<open>stored\<close> is what reading it gives, up to the lease, and \<open>reread\<close> is what becomes of an instance that is
  encoded and decoded.
\<close>

definition identity :: "WorkflowInstance \<Rightarrow> string \<times> string \<times> string" where
  "identity x = (inst_ID x, inst_Version x, inst_Fingerprint x)"

lemma identity_upd [simp]:
  "identity (strip_lease x) = identity x" "identity (x\<lparr>inst_Status := st\<rparr>) = identity x"
  "identity (x\<lparr>inst_Err := er\<rparr>) = identity x" "identity (x\<lparr>inst_Output := v\<rparr>) = identity x"
  "identity (x\<lparr>inst_Input := v\<rparr>) = identity x" "identity (x\<lparr>inst_CurrentStep := k\<rparr>) = identity x" "identity (x\<lparr>inst_StepResults := m\<rparr>) = identity x"
  by (simp_all add: identity_def)

locale durable_store = engine_store S inv
  for S :: "'s InstanceStore" and inv :: "heap \<times> 's \<Rightarrow> bool" +
  fixes key :: "string \<times> string \<times> string"
    and fresh :: "'s \<Rightarrow> bool"
    and saved :: "'s \<Rightarrow> bool"
    and sent :: "WorkflowInstance \<Rightarrow> bool"
    and reread :: "WorkflowInstance \<Rightarrow> WorkflowInstance"
    and stored :: "'s \<Rightarrow> WorkflowInstance option"
  assumes save_new: "inv (h, s) \<Longrightarrow> fresh s \<Longrightarrow> a < length h \<Longrightarrow> identity (deref h a) = key \<Longrightarrow>
      sent (strip_lease (deref h a)) \<Longrightarrow> is_SaveInstance S a h s = (err, s') \<Longrightarrow> err = None \<and> saved s'"
    and sent_new: "sent y \<Longrightarrow> same_identity x y \<Longrightarrow> inst_Output x = VNil \<Longrightarrow> inst_StepResults x = Some Map.empty \<Longrightarrow>
      sent x"
    and load_saved: "inv (h, s) \<Longrightarrow> is_GetInstance S (fst key) h s = (Inr a, h') \<Longrightarrow> identity (deref h' a) = key \<Longrightarrow> saved s"
    and save_saved: "inv (h, s) \<Longrightarrow> saved s \<Longrightarrow> is_SaveInstance S a h s = (err, s') \<Longrightarrow> saved s'"
    and update_saved: "inv (h, s) \<Longrightarrow> saved s \<Longrightarrow> is_UpdateInstance S a h s = (err, s') \<Longrightarrow> saved s'"
    and acquire_saved: "inv (h, s) \<Longrightarrow> saved s \<Longrightarrow>
      is_TryAcquireLease S now cerr j owner ttl (h, s) = (rb, h', s') \<Longrightarrow> saved s'"
    and renew_saved: "inv (h, s) \<Longrightarrow> saved s \<Longrightarrow> is_RenewLease S now cerr j owner ttl (h, s) = (err, h', s') \<Longrightarrow> saved s'"
    and update_lost: "\<not> sent (strip_lease (deref h a)) \<Longrightarrow> is_UpdateInstance S a h s = (err, s') \<Longrightarrow> s' = s"
    and release_saved: "inv (h, s) \<Longrightarrow> saved s \<Longrightarrow> is_ReleaseLease S now cerr j owner (h, s) = (err, h', s') \<Longrightarrow>
      saved s' \<and> stored s' = stored s"
    and update_stored: "inv (h, s) \<Longrightarrow> saved s \<Longrightarrow> identity (deref h a) = key \<Longrightarrow> sent (strip_lease (deref h a)) \<Longrightarrow>
      is_UpdateInstance S a h s = (err, s') \<Longrightarrow> stored s' = Some (reread (strip_lease (deref h a)))"

text \<open>The engine keeps a saved instance saved: the contract holds with this as part of the invariant.\<close>

sublocale durable_store \<subseteq> kept: engine_store S "\<lambda>hs. inv hs \<and> saved (snd hs)"
proof (unfold_locales, goal_cases)
  case (1 h s i r h')
  then show ?case using get_law [of h s i r h'] by simp
next
  case (2 h s f rs h')
  then show ?case using list_law [of h s f rs h'] by simp
next
  case (3 h s a err s')
  then show ?case using save_law [of h s a err s'] save_saved [of h s a err s'] by simp
next
  case (4 h s a err s')
  then show ?case using update_law [of h s a err s'] update_saved [of h s a err s'] by simp
next
  case (5 h s now cerr i owner ttl rb h' s')
  then show ?case using acquire_frame [OF _ 5(2)] acquire_saved [OF _ _ 5(2)] by simp
next
  case (6 h s now cerr i owner ttl err h' s')
  then show ?case using renew_frame [OF _ 6(2)] renew_saved [OF _ _ 6(2)] by simp
next
  case (7 h s now cerr i owner err h' s')
  then show ?case using release_frame [OF _ 7(2)] release_saved [OF _ _ 7(2)] by simp
next
  case (8 h s g a)
  then show ?case using write_law by simp
next
  case (9 h s x)
  then show ?case using alloc_law by simp
qed


section \<open>The last write of a run\<close>

lemma wf_world_unchanged [simp]:
  "wf_world I (observe cb w) = wf_world I w" "wf_world I (emitEvent e c a ty k d w) = wf_world I w"
  "w_store (observe cb w) = w_store w" "w_store (emitEvent e c a ty k d w) = w_store w" "w_store (set_inst a f w) = w_store w"
  "core (observe cb w) b = core w b" "core (emitEvent e c a ty k d w) b = core w b"
  by (simp_all add: wf_world_def core_def observe_def emitEvent_def set_inst_def w_inst_def split: option.splits)

lemma mark_waiting_children:
  "WaitForSignalMeta err = None \<Longrightarrow> mark_waiting err x = x\<lparr>inst_Status := StatusWaiting, inst_Err := None\<rparr>"
  by (cases x) (simp add: mark_waiting_def waiting_output_def)

lemma inline_continues:
  assumes "resumeInline e R c i w = (Done (ao, erro), w') \<or> signalInline e R c i name payload w = (Done (ao, erro), w')"
    and "ao \<noteq> None \<or> erro = None" and l: "load_instance e i w = (Inr b, w1)" and acq: "acquireInstanceLease e c i w1 = (ro, w2)"
  obtains f ev detail start w3 where "\<And>x. identity (f x) = identity x" "\<And>x. strip_lease (f x) = f (strip_lease x)"
    "continue_instance e R c b f ev detail start w2 = (Done (ao, erro), w3)"
    "w' = releaseInstanceLease e Background i w3"
  using assms(1)
proof (rule disjE)
  let ?f = "\<lambda>x. x\<lparr>inst_Status := StatusRunning, inst_Err := None, inst_Output := VNil, inst_CurrentStep := 0\<rparr>"
  assume "resumeInline e R c i w = (Done (ao, erro), w')"
  moreover obtain r w3 where ct: "continue_instance e R c b ?f (\<lambda>x. - 1) '''' (\<lambda>x. 0) w2 = (r, w3)" by fastforce
  ultimately have "r = Done (ao, erro)" "w' = releaseInstanceLease e Background i w3"
    using l acq assms(2) by (auto simp: resumeInline_def release_on_exit_def split: if_splits option.splits)
  with ct show thesis by (intro that [of ?f "\<lambda>x. - 1" "''''" "\<lambda>x. 0" w3]) simp_all
next
  let ?f = "\<lambda>x. x\<lparr>inst_Status := StatusRunning, inst_Err := None, inst_Input := SignalPayload name payload, inst_Output := VNil\<rparr>"
  let ?k = "\<lambda>x. int (inst_CurrentStep x)"
  assume "signalInline e R c i name payload w = (Done (ao, erro), w')"
  moreover obtain r w3 where ct: "continue_instance e R c b ?f ?k ''signal'' inst_CurrentStep w2 = (r, w3)" by fastforce
  ultimately have "r = Done (ao, erro)" "w' = releaseInstanceLease e Background i w3"
    using l acq assms(2) by (auto simp: signalInline_def release_on_exit_def split: if_splits option.splits)
  with ct show thesis by (intro that [of ?f ?k "''signal''" inst_CurrentStep w3]) simp_all
qed

text \<open>The operations that return an instance they have executed: on a new one, or on a stored one.\<close>

definition returns_instance :: "('s, 'q, 'e) engineImpl \<Rightarrow> ('s, 'q, 'e, 'u) runner \<Rightarrow> ctx \<Rightarrow> addr
     \<Rightarrow> ('s, 'q, 'e, 'u) world \<Rightarrow> ('s, 'q, 'e, 'u) world \<Rightarrow> bool" where
  "returns_instance e R c a w w' \<longleftrightarrow>
     (\<exists>erro. (\<exists>name v. Run e R c name v w = (Done (Some a, erro), w')) \<or>
        (\<exists>name version v. RunVersion e R c name version v w = (Done (Some a, erro), w')) \<or>
        (\<exists>i. ResumeNow e R c i w = (Done (Some a, erro), w')) \<or>
        (\<exists>i name payload. SignalNow e R c i name payload w = (Done (Some a, erro), w'))) \<or>
     (\<exists>i. RunInstance e R c i w = (Done (Some a, None), w'))"

lemma returns_instance_cases:
  assumes "returns_instance e R c a w w'"
  obtains (new) def name version v erro where
    "GetLatestWorkflow name (w_workflows w) = Inr def \<and> Run e R c name v w = (Done (Some a, erro), w') \<or>
     GetWorkflow name version (w_workflows w) = Inr def \<and> RunVersion e R c name version v w = (Done (Some a, erro), w')"
  | (old) i b h name payload erro where "is_GetInstance (e_instances e) i (w_heap w) (w_store w) = (Inr b, h)"
    "resumeInline e R c i w = (Done (Some a, erro), w') \<or> signalInline e R c i name payload w = (Done (Some a, erro), w') \<or>
      RunInstance e R c i w = (Done (Some a, None), w')"
proof -
  have "(\<exists>b h. is_GetInstance (e_instances e) i (w_heap w) (w_store w) = (Inr b, h))"
    if "resumeInline e R c i w = (Done (Some a, erro), w') \<or> signalInline e R c i name payload w = (Done (Some a, erro), w') \<or>
      RunInstance e R c i w = (Done (Some a, None), w')"
    for i name payload erro
    using that by (cases "is_GetInstance (e_instances e) i (w_heap w) (w_store w)"; cases "fst (is_GetInstance (e_instances e) i (w_heap w) (w_store w))")
      (auto simp: resumeInline_def signalInline_def RunInstance_def load_instance_def)
  moreover have "\<exists>def. GetLatestWorkflow name (w_workflows w) = Inr def" if "Run e R c name v w = (Done (Some a, erro), w')" for name v erro
    using that by (auto simp: Run_def split: sum.splits)
  moreover have "\<exists>def. GetWorkflow name version (w_workflows w) = Inr def"
    if "RunVersion e R c name version v w = (Done (Some a, erro), w')" for name version v erro
    using that by (auto simp: RunVersion_def split: sum.splits)
  ultimately show thesis using assms new old unfolding returns_instance_def ResumeNow_def SignalNow_def by metis
qed

text \<open>What \<^verbatim>\<open>GetInstance\<close> returns, up to the lease.\<close>

definition stored_in :: "'s InstanceStore \<Rightarrow> string \<Rightarrow> 's \<Rightarrow> WorkflowInstance option" where
  "stored_in S j s = (case is_GetInstance S j [] s of (Inl _, _) \<Rightarrow> None | (Inr a, h) \<Rightarrow> Some (strip_lease (deref h a)))"

text \<open>The store holds the instance at \<open>a\<close>, up to its lease and to what encoding it changes.\<close>

definition synced :: "('s \<Rightarrow> WorkflowInstance option) \<Rightarrow> (WorkflowInstance \<Rightarrow> WorkflowInstance)
     \<Rightarrow> ('s, 'q, 'e, 'u) world \<Rightarrow> addr \<Rightarrow> bool" where
  "synced stored reread w a \<longleftrightarrow> stored (w_store w) = Some (reread (core w a))"

context durable_store
begin

lemma synced_observe [simp]: "synced stored reread (observe cb w) a = synced stored reread w a"
  by (simp add: synced_def core_def observe_def w_inst_def)

lemma synced_emit [simp]: "synced stored reread (emitEvent e c b ty k d w) a = synced stored reread w a"
  by (simp add: synced_def core_def emitEvent_def w_inst_def split: option.splits)

lemma stored_release:
  assumes "e_instances e = S" "wf_world (\<lambda>hs. inv hs \<and> saved (snd hs)) w"
  shows "stored (w_store (releaseInstanceLease e c j w)) = stored (w_store w)"
proof -
  obtain r h s where rel: "is_ReleaseLease S (w_clock w) (ctx_Err c (w_clock w)) j (e_engineID e) (w_heap w, w_store w) = (r, h, s)"
    by (metis prod_cases3)
  have "stored s = stored (w_store w)" using release_saved [OF _ _ rel] assms(2) by (simp add: wf_world_def)
  then show ?thesis using rel assms(1) by (simp add: releaseInstanceLease_def)
qed

lemma synced_release:
  assumes "e_instances e = S" "wf_world (\<lambda>hs. inv hs \<and> saved (snd hs)) w" "a < length (w_heap w)" "synced stored reread w a"
  shows "synced stored reread (releaseInstanceLease e c j w) a"
  using assms(4) stored_release [OF assms(1,2)] evolve_core [OF kept.evolve_release [OF assms(1,2)] assms(3)]
  by (simp add: synced_def)

lemma synced_update:
  assumes "e_instances e = S" "wf_world (\<lambda>hs. inv hs \<and> saved (snd hs)) w" "identity (core w a) = key" "sent (core w a)"
  shows "synced stored reread (snd (update_instance e a w)) a"
proof -
  obtain r s where u: "is_UpdateInstance S a (w_heap w) (w_store w) = (r, s)" by fastforce
  from update_stored [OF _ _ _ _ u] assms show ?thesis
    by (simp add: synced_def wf_world_def core_def w_inst_def update_instance_def u)
qed

text \<open>
  A change of the instance, the update and a release of the lease: what every branch that ends a run
  consists of, events and callbacks apart.
\<close>

lemma synced_write:
  assumes e: "e_instances e = S" and w: "wf_world (\<lambda>hs. inv hs \<and> saved (snd hs)) w" "a < length (w_heap w)"
    and i: "identity (core w a) = key" and f: "\<And>x. identity (f x) = identity x" "\<And>x. strip_lease (f x) = f (strip_lease x)"
    and sent: "sent (f (core w a))"
  shows "synced stored reread (snd (update_instance e a (set_inst a f w))) a"
    and "wf_world (\<lambda>hs. inv hs \<and> saved (snd hs)) (snd (update_instance e a (set_inst a f w)))"
    and "a < length (w_heap (snd (update_instance e a (set_inst a f w))))"
proof -
  have "inst_ID (f x) = inst_ID x" for x using f(1) [of x] by (simp add: identity_def)
  note t = kept.touch_set [where f = f, OF w this f(2)]
  note t' = touchD [OF t]
  show "synced stored reread (snd (update_instance e a (set_inst a f w))) a"
    by (rule synced_update [OF e t'(2)]) (simp_all only: t'(1) f(1) i sent)
  note u = touchD [OF kept.touch_update [OF e t]]
  show "wf_world (\<lambda>hs. inv hs \<and> saved (snd hs)) (snd (update_instance e a (set_inst a f w)))"
    and "a < length (w_heap (snd (update_instance e a (set_inst a f w))))" using u(2,3) .
qed

lemma settled_synced:
  assumes "settled e a k name (Stop err) w w'" and e: "e_instances e = S"
    and w: "wf_world (\<lambda>hs. inv hs \<and> saved (snd hs)) w" "a < length (w_heap w)" "identity (core w a) = key"
    and sent: "sent (core w' a)"
  shows "synced stored reread w' a"
proof -
  have sent: "is_wait err \<Longrightarrow> sent (mark_waiting err (core w a))" "\<not> is_wait err \<Longrightarrow> sent (mark_failed err (core w a))"
    using sent touchD(1) [OF kept.settled_touch [OF assms(1) e w(1,2)]] by simp_all
  note wr = synced_write [OF e w]
  from assms(1) show ?thesis
  proof cases
    case (cancel c notify)
    from wr(1) [of "\<lambda>x. x\<lparr>inst_Status := StatusFailed, inst_Err := Some err\<rparr>"] sent(2) cancel(2)
    show ?thesis unfolding cancel(1) by (cases notify) (simp_all add: cancel_step_def mark_failed_def Let_def)
  next
    case (fail c)
    from wr [of "\<lambda>x. x\<lparr>inst_Status := StatusFailed, inst_Err := Some err\<rparr>"] sent(2) fail(2)
    show ?thesis unfolding fail(1) by (simp add: fail_step_def mark_failed_def synced_release e Let_def)
  next
    case (park_signal n rp c)
    from wr [of "\<lambda>x. x\<lparr>inst_Status := StatusWaiting, inst_Err := None, inst_Output := WaitMeta ''signal'' rp\<rparr>"]
      sent(1) park_signal(2)
    show ?thesis unfolding park_signal(1)
      by (simp add: park_signal_def mark_waiting_def waiting_output_def is_wait_def synced_release e Let_def)
  next
    case (park_children c)
    from wr [of "\<lambda>x. x\<lparr>inst_Status := StatusWaiting, inst_Err := None\<rparr>"] sent(1) park_children(2,3)
    show ?thesis unfolding park_children(1)
      by (simp add: park_children_def mark_waiting_children is_wait_def synced_release e Let_def)
  next
    case park_any_child
    from wr [of "\<lambda>x. x\<lparr>inst_Status := StatusWaiting, inst_Err := None\<rparr>"] sent(1) park_any_child(2,3)
    show ?thesis unfolding park_any_child(1)
      by (simp add: park_any_child_def mark_waiting_children is_wait_def synced_release e Let_def)
  qed
qed

lemma complete_synced:
  assumes e: "e_instances e = S"
    and w: "wf_world (\<lambda>hs. inv hs \<and> saved (snd hs)) w" "a < length (w_heap w)" "identity (core w a) = key"
    and sent: "sent (core (complete_workflow e c a n v w) a)"
  shows "synced stored reread (complete_workflow e c a n v w) a"
proof -
  have "sent ((core w a)\<lparr>inst_Status := StatusCompleted, inst_Output := v, inst_CurrentStep := n\<rparr>)"
    using sent touchD(1) [OF kept.touch_complete [OF e w(1,2)]] by simp
  with synced_write [OF e w, of "\<lambda>x. x\<lparr>inst_Status := StatusCompleted, inst_Output := v, inst_CurrentStep := n\<rparr>"]
  show ?thesis by (simp add: complete_workflow_def synced_release e Let_def)
qed

text \<open>The steps of a run that stops, and the run as a whole.\<close>

lemma step_loop_synced:
  assumes e: "e_instances e = S" and R: "runner_frame (\<lambda>hs. inv hs \<and> saved (snd hs)) R" and c: "ctx_wf c"
  shows "wf_world (\<lambda>hs. inv hs \<and> saved (snd hs)) w \<Longrightarrow> a < length (w_heap w) \<Longrightarrow> identity (core w a) = key \<Longrightarrow>
    step_loop e R c a k steps v w = (Stop err, w') \<Longrightarrow> sent (core w' a) \<Longrightarrow> synced stored reread w' a"
proof (induction steps arbitrary: k v w)
  case (Cons step steps)
  define w1 where "w1 = renewInstanceLease e c (inst_ID (w_inst w a)) w"
  note w1 = touchD [OF kept.touch_renew [OF e touch_refl [OF Cons.prems(1,2)], of c "inst_ID (w_inst w a)", folded w1_def]]
  show ?case
  proof (cases "cached (w_inst w1 a) k")
    case (Some u)
    note w2 = touchD [OF kept.touch_skip [OF e w1(2,3), of k]]
    have "step_loop e R c a (Suc k) steps u (skip_cached e a k w1) = (Stop err, w')"
      using Cons.prems(4) Some by (simp add: w1_def Let_def)
    moreover have "identity (core (skip_cached e a k w1) a) = key" using w1(1) w2(1) Cons.prems(3) by (simp del: core_sel)
    ultimately show ?thesis using Cons.IH [OF w2(2,3)] Cons.prems(5) by blast
  next
    case None
    define w2 where "w2 = enter_step e c a k (step_Name step) w1"
    note w2 = touchD [OF kept.touch_enter [OF e w1(2,3), of k c "step_Name step", folded w2_def]]
    have i2: "identity (core w2 a) = key" using w1(1) w2(1) Cons.prems(3) by (simp del: core_sel)
    obtain x w3 where ra: "run_attempts e R c a k step v w2 = (x, w3)" by fastforce
    then obtain rs left b where al: "attempt_loop e R c a k step rs left b v w2 = (x, w3)"
      unfolding run_attempts_def Let_def by blast
    note w3 = touchD [OF kept.attempt_loop_touch [OF e R c w2(2,3) al]]
    have loop: "(case x of Advance u \<Rightarrow> step_loop e R c a (Suc k) steps u w3 | _ \<Rightarrow> (x, w3)) = (Stop err, w')"
      using Cons.prems(4) None ra by (auto simp: w1_def w2_def Let_def split: step_outcome.splits)
    show ?thesis
    proof (cases x)
      case (Advance u)
      have "identity (core w3 a) = key" using w3(1) i2 Advance by (simp add: cache_result_def del: core_sel)
      with loop Advance Cons.IH [OF w3(2,3)] Cons.prems(5) show ?thesis by simp
    next
      case (Stop err')
      with loop have x: "x = Stop err" "w3 = w'" by simp_all
      from kept.attempt_loop_settles [OF R c w2(2) al] obtain w4 where
        w4: "evolve (\<lambda>hs. inv hs \<and> saved (snd hs)) w2 w4" "settled e a k (step_Name step) x w4 w3" by blast
      have "a < length (w_heap w4)" using w4(1) w2(3) by (auto simp: evolve_def heap_ext_def)
      moreover have "identity (core w4 a) = key" using evolve_core [OF w4(1) w2(3)] i2 by simp
      ultimately show ?thesis
        using settled_synced [OF w4(2) [unfolded x] e evolve_wf [OF w4(1)]] Cons.prems(5) by blast
    qed (use loop in simp_all)
  qed
qed simp

lemma executeSteps_synced:
  assumes e: "e_instances e = S" and R: "runner_frame (\<lambda>hs. inv hs \<and> saved (snd hs)) R" and c: "ctx_wf c"
    and w: "wf_world (\<lambda>hs. inv hs \<and> saved (snd hs)) w" "a < length (w_heap w)" "identity (core w a) = key"
    and ex: "executeSteps e R c def a k v w = (Done ret, w')" and sent: "sent (core w' a)"
  shows "synced stored reread w' a"
proof -
  obtain x w1 where sl: "step_loop e R c a k (drop k (def_Steps def)) v w = (x, w1)" by fastforce
  show ?thesis
  proof (cases x)
    case (Advance u)
    from kept.step_loop_post [OF e R c w(1,2) sl] obtain f where f:
      "touch (\<lambda>hs. inv hs \<and> saved (snd hs)) a f w w1" "same_identity (core w a) (core w1 a)"
      by (auto simp: run_post_def)
    have "identity (core w1 a) = key" using f(2) w(3) by (simp add: same_identity_def identity_def del: core_sel)
    with complete_synced [OF e touchD(2,3) [OF f(1)]] ex sl Advance sent show ?thesis by (auto simp: executeSteps_def)
  next
    case (Stop err)
    with step_loop_synced [OF e R c w sl [unfolded Stop]] ex sl sent show ?thesis by (simp add: executeSteps_def)
  qed (use ex sl in \<open>simp_all add: executeSteps_def\<close>)
qed

lemma executeSteps_kept:
  assumes e: "e_instances e = S" and R: "runner_frame (\<lambda>hs. inv hs \<and> saved (snd hs)) R" and c: "ctx_wf c"
    and w: "wf_world (\<lambda>hs. inv hs \<and> saved (snd hs)) w" "a < length (w_heap w)" "identity (core w a) = key"
    and ex: "executeSteps e R c def a k v w = (Done (Some b, erro), w')"
  shows "b = a \<and> wf_world (\<lambda>hs. inv hs \<and> saved (snd hs)) w' \<and> a < length (w_heap w') \<and> identity (core w' a) = key \<and>
    (sent (core w' a) \<longrightarrow> synced stored reread w' a)"
proof -
  from kept.executeSteps_touch [OF e R c w(1,2) ex] obtain g where
    g: "b = a" "touch (\<lambda>hs. inv hs \<and> saved (snd hs)) a g w w'" "same_identity (core w a) (core w' a)"
    unfolding exec_post_def by blast
  have "identity (core w' a) = key" using g(3) w(3) by (simp add: same_identity_def identity_def del: core_sel)
  with g(1) executeSteps_synced [OF e R c w ex] touchD(2,3) [OF g(2)] show ?thesis by blast
qed

text \<open>A new instance that can be encoded and has a fresh identifier is saved.\<close>

lemma create_kept:
  assumes e: "e_instances e = S" and w: "wf_world inv w" "fresh (w_store w)"
    "key = (fst (nextInstanceID w), def_Version def, def_Fingerprint def)"
    and sent: "sent (new_instance (fst (nextInstanceID w)) def StatusRunning v)"
    and cr: "create_instance e def StatusRunning v w = ((a, erro), w2)"
  shows "erro = None" "a = length (w_heap w)" "wf_world (\<lambda>hs. inv hs \<and> saved (snd hs)) w2" "a < length (w_heap w2)"
    "core w2 a = new_instance (fst (nextInstanceID w)) def StatusRunning v"
proof -
  let ?x = "new_instance (fst (nextInstanceID w)) def StatusRunning v" and ?a = "length (w_heap w)"
  from create_instance_new [OF e w(1) cr] obtain w1 f where a: "a = ?a" and
    t: "touch inv a f w1 w2" "w_heap w1 = w_heap w @ [?x]" "erro = None \<longrightarrow> f = (\<lambda>x. x)" by blast
  obtain er s where sv: "is_SaveInstance S ?a (w_heap w @ [?x]) (w_store w) = (er, s)" by fastforce
  have "inv (w_heap w @ [?x], w_store w)" using alloc_law w(1) by (simp add: wf_world_def)
  from save_new [OF this w(2) _ _ _ sv] sent w(3) have "er = None" "saved s"
    by (simp_all add: identity_def new_instance_def strip_lease_def)
  then have ok: "erro = None" "saved (w_store w2)" using create_instance_saved(1) [OF cr] sv e by simp_all
  show "erro = None" "a = ?a" by fact+
  show "wf_world (\<lambda>hs. inv hs \<and> saved (snd hs)) w2" "a < length (w_heap w2)"
    using touchD(2,3) [OF t(1)] ok(2) by (simp_all add: wf_world_def)
  show "core w2 a = ?x" using touchD(1) [OF t(1)] t(2,3) ok(1) a by (simp add: core_def w_inst_def)
qed

text \<open>
  An instance that is created with a fresh identifier and run: if the values of the instance that the
  run leaves can be encoded, so could the input, the save succeeded, and the store holds the instance.
\<close>

lemma created_synced:
  assumes e: "e_instances e = S" and c: "ctx_wf c"
    and R: "runner_frame inv R" "runner_frame (\<lambda>hs. inv hs \<and> saved (snd hs)) R"
    and w: "wf_world inv w" "fresh (w_store w)" "key = (fst (nextInstanceID w), def_Version def, def_Fingerprint def)"
    and cr: "create_instance e def StatusRunning v w = ((a, erro), w2)"
    and w3: "w3 = w2 \<or> w3 = emitEvent e c' b ty k d w2"
    and run: "case erro of None \<Rightarrow> executeSteps e R c def a 0 u w3 = (Done ret, w') | Some _ \<Rightarrow> w' = w2"
    and sent: "sent (core w' a)"
  shows "synced stored reread w' a \<and> inst_ID (w_inst w' a) = fst key"
proof -
  let ?x = "new_instance (fst (nextInstanceID w)) def StatusRunning v"
  from create_instance_new [OF e w(1) cr] obtain w1 f where a: "a = length (w_heap w)" and
    t: "touch inv a f w1 w2" "w_heap w1 = w_heap w @ [?x]" "erro = None \<longrightarrow> f = (\<lambda>x. x)" by blast
  have x: "core w1 a = ?x" by (simp add: core_def w_inst_def t(2) a)
  obtain er s where sv: "is_SaveInstance S a (w_heap w @ [?x]) (w_store w) = (er, s)" by fastforce
  note created = create_instance_saved [OF cr, unfolded e a [symmetric] sv, simplified]
  have same: "same_identity ?x (core w' a)"
  proof (cases erro)
    case None
    have "wf_world inv w3" "a < length (w_heap w3)" "core w3 a = ?x"
      using w3 touchD(1,2,3) [OF t(1)] t(3) None x by (auto simp: core_def)
    with executeSteps_touch [OF e R(1) c, of w3 a def 0 u "Done ret" w'] run None show ?thesis
      by (cases ret) (auto simp: exec_post_def)
  next
    case (Some er')
    with run created(2) [of er'] created(1) show ?thesis by (auto simp: core_def same_identity_def mark_failed_def)
  qed
  from sent_new [OF sent same] have sx: "sent ?x" by (simp add: new_instance_def)
  note k = create_kept [OF e w sx cr]
  have "wf_world (\<lambda>hs. inv hs \<and> saved (snd hs)) w3" "a < length (w_heap w3)" "core w3 a = ?x" using w3 k(3-5) by auto
  then show ?thesis
    using executeSteps_synced [OF e R(2) c, of w3 a def 0 u ret w'] run k(1) sent w(3) same
    by (simp add: identity_def new_instance_def same_identity_def)
qed

lemma Run_synced:
  assumes e: "e_instances e = S" and c: "ctx_wf c"
    and R: "runner_frame inv R" "runner_frame (\<lambda>hs. inv hs \<and> saved (snd hs)) R"
    and w: "wf_world inv w" "fresh (w_store w)" "key = (fst (nextInstanceID w), def_Version def, def_Fingerprint def)"
    and run: "GetLatestWorkflow name (w_workflows w) = Inr def \<and> Run e R c name v w = (Done (Some a, erro), w') \<or>
      GetWorkflow name version (w_workflows w) = Inr def \<and> RunVersion e R c name version v w = (Done (Some a, erro), w')"
    and sent: "sent (core w' a)"
  shows "synced stored reread w' a \<and> inst_ID (w_inst w' a) = fst key"
proof -
  obtain b ero w2 where cr: "create_instance e def StatusRunning v w = ((b, ero), w2)" by (metis prod.exhaust)
  let ?w3 = "emitEvent e c b EventWorkflowStarted (- 1) '''' w2"
  have "\<exists>w3 u. (w3 = w2 \<or> w3 = ?w3) \<and>
      (case ero of None \<Rightarrow> executeSteps e R c def b 0 u w3 = (Done (Some a, erro), w') | Some _ \<Rightarrow> w' = w2)"
    using run
  proof (rule disjE)
    assume "GetLatestWorkflow name (w_workflows w) = Inr def \<and> Run e R c name v w = (Done (Some a, erro), w')"
    with cr show ?thesis by (intro exI [of _ ?w3] exI [of _ v]) (auto simp: Run_def split: option.splits)
  next
    assume "GetWorkflow name version (w_workflows w) = Inr def \<and> RunVersion e R c name version v w = (Done (Some a, erro), w')"
    with cr show ?thesis by (intro exI [of _ w2] exI [of _ "inst_Input (w_inst w2 b)"]) (auto simp: RunVersion_def split: option.splits)
  qed
  then obtain w3 u where w3: "w3 = w2 \<or> w3 = ?w3"
    "case ero of None \<Rightarrow> executeSteps e R c def b 0 u w3 = (Done (Some a, erro), w') | Some _ \<Rightarrow> w' = w2" by blast
  have b: "a = b" using run cr w3(2) by (cases ero) (auto simp: Run_def RunVersion_def executeSteps_def
        split: prod.splits step_outcome.splits)
  from created_synced [OF e c R w cr w3(1,2)] sent b show ?thesis by blast
qed

text \<open>The same for an instance that is loaded and continued, after a failure or by a signal.\<close>

lemma continue_synced:
  assumes e: "e_instances e = S" and R: "runner_frame (\<lambda>hs. inv hs \<and> saved (snd hs)) R" and c: "ctx_wf c"
    and w: "wf_world (\<lambda>hs. inv hs \<and> saved (snd hs)) w" "a < length (w_heap w)" "identity (core w a) = key"
    and f: "\<And>x. identity (f x) = identity x" "\<And>x. strip_lease (f x) = f (strip_lease x)"
    and run: "continue_instance e R c a f ev detail start w = (Done (Some b, erro), w')"
  shows "b = a \<and> wf_world (\<lambda>hs. inv hs \<and> saved (snd hs)) w' \<and> a < length (w_heap w') \<and> identity (core w' a) = key \<and>
    (sent (core w' a) \<longrightarrow> synced stored reread w' a)"
proof -
  have id: "inst_ID (f x) = inst_ID x" for x using f(1) [of x] by (simp add: identity_def)
  obtain ro w1 where u: "update_instance e a (set_inst a f w) = (ro, w1)" by fastforce
  note t = touchD [OF kept.touch_update [OF e kept.touch_set [where f = f, OF w(1,2) id f(2)]], unfolded u, simplified]
  have k1: "identity (core w1 a) = key" using t(1) f(1) w(3) by simp
  show ?thesis
  proof (cases ro)
    case (Some er)
    then have b: "b = a" "w' = w1" using run u by (auto simp: continue_instance_def split: sum.splits if_splits)
    with synced_write(1) [where f = f, OF e w f] t k1 u show ?thesis by simp
  next
    case None
    let ?w2 = "emitEvent e c a EventWorkflowResumed (ev (w_inst w1 a)) detail w1"
    obtain def where ex: "executeSteps e R c def a (start (w_inst ?w2 a)) (inst_Input (w_inst ?w2 a)) ?w2 = (Done (Some b, erro), w')"
      using run u None by (auto simp: continue_instance_def Let_def split: sum.splits if_splits)
    have w2: "wf_world (\<lambda>hs. inv hs \<and> saved (snd hs)) ?w2" "a < length (w_heap ?w2)" "identity (core ?w2 a) = key"
      using t(2,3) k1 by (simp_all add: core_def)
    from executeSteps_kept [OF e R c w2 ex] show ?thesis .
  qed
qed

lemma loaded_kept:
  assumes e: "e_instances e = S" and w: "wf_world inv w" "is_GetInstance S (fst key) (w_heap w) (w_store w) = (Inr b, h)"
    "identity (deref h b) = key"
    and acq: "acquireInstanceLease e c j (w\<lparr>w_heap := h\<rparr>) = (ro, w2)"
  shows "load_instance e (fst key) w = (Inr b, w\<lparr>w_heap := h\<rparr>)" "wf_world (\<lambda>hs. inv hs \<and> saved (snd hs)) w2"
    "b < length (w_heap w2)" "identity (core w2 b) = key"
proof -
  let ?w1 = "w\<lparr>w_heap := h\<rparr>"
  show "load_instance e (fst key) w = (Inr b, ?w1)" using w(2) e by (simp add: load_instance_def)
  have w1: "wf_world (\<lambda>hs. inv hs \<and> saved (snd hs)) ?w1" "b < length (w_heap ?w1)" "identity (core ?w1 b) = key"
    using get_law [OF _ w(2)] load_saved [OF _ w(2,3)] w(1,3) by (simp_all add: wf_world_def core_def w_inst_def)
  have ev: "evolve (\<lambda>hs. inv hs \<and> saved (snd hs)) ?w1 w2" using kept.evolve_acquire [OF e w1(1)] acq by (metis snd_conv)
  show "wf_world (\<lambda>hs. inv hs \<and> saved (snd hs)) w2" "b < length (w_heap w2)" "identity (core w2 b) = key"
    using evolve_wf [OF ev] ev w1(2,3) evolve_core [OF ev w1(2)] by (auto simp: evolve_def heap_ext_def)
qed

lemma inline_synced:
  assumes e: "e_instances e = S" and R: "runner_frame (\<lambda>hs. inv hs \<and> saved (snd hs)) R" and c: "ctx_wf c"
    and w: "wf_world inv w" "is_GetInstance S (fst key) (w_heap w) (w_store w) = (Inr b, h)" "identity (deref h b) = key"
    and run: "resumeInline e R c (fst key) w = (Done (Some a, erro), w') \<or>
      signalInline e R c (fst key) name payload w = (Done (Some a, erro), w')"
    and sent: "sent (core w' a)"
  shows "synced stored reread w' a \<and> inst_ID (w_inst w' a) = fst key"
proof -
  obtain ro w2 where acq: "acquireInstanceLease e c (fst key) (w\<lparr>w_heap := h\<rparr>) = (ro, w2)" by fastforce
  note w2 = loaded_kept [OF e w acq]
  obtain f ev detail start w3 where f: "\<And>x. identity (f x) = identity x" "\<And>x. strip_lease (f x) = f (strip_lease x)"
    and run: "continue_instance e R c b f ev detail start w2 = (Done (Some a, erro), w3)"
    and w': "w' = releaseInstanceLease e Background (fst key) w3"
    by (rule inline_continues [OF run _ w2(1) acq]) (simp, blast)
  note c3 = continue_synced [OF e R c w2(2-4) f run]
  have "core w' a = core w3 a" unfolding w' using evolve_core [OF kept.evolve_release [OF e]] c3 by blast
  with c3 sent synced_release [OF e] have "synced stored reread w' a" "identity (core w' a) = key" unfolding w' by metis+
  then show ?thesis by (auto simp: identity_def)
qed

text \<open>
  \<^verbatim>\<open>RunInstance\<close> of a queued instance. If it cannot take the instance over it returns what it has loaded,
  with an error; here it returns none.
\<close>

lemma RunInstance_synced:
  assumes e: "e_instances e = S" and R: "runner_frame (\<lambda>hs. inv hs \<and> saved (snd hs)) R" and c: "ctx_wf c"
    and w: "wf_world inv w" "is_GetInstance S (fst key) (w_heap w) (w_store w) = (Inr b, h)" "identity (deref h b) = key"
    and run: "RunInstance e R c (fst key) w = (Done (Some a, None), w')"
    and sent: "sent (core w' a)"
  shows "synced stored reread w' a \<and> inst_ID (w_inst w' a) = fst key"
proof -
  let ?f = "\<lambda>x. x\<lparr>inst_Status := StatusRunning, inst_Err := None, inst_Output := VNil, inst_CurrentStep := 0\<rparr>"
  define w1 where "w1 = w\<lparr>w_heap := h\<rparr>"
  obtain ro w2 where acq: "acquireInstanceLease e c (inst_ID (w_inst w1 b)) w1 = (ro, w2)" by fastforce
  note w2 = loaded_kept [OF e w acq [unfolded w1_def], folded w1_def]
  obtain er w3 where u: "update_instance e b (set_inst b ?f w2) = (er, w3)" by fastforce
  note t = touchD [OF kept.touch_update [OF e kept.touch_set [where f = ?f, OF w2(2,3)]], unfolded u, simplified]
  let ?w4 = "emitEvent e c b EventWorkflowStarted (- 1) '''' w3"
  obtain def where ex: "executeSteps e R c def b 0 (inst_Input (w_inst ?w4 b)) ?w4 = (Done (Some a, None), w')"
    using run w2(1) acq u by (auto simp: RunInstance_def Let_def split: sum.splits option.splits)
  have "identity (core ?w4 b) = key" using t(1) w2(4) by simp
  with executeSteps_kept [OF e R c _ _ _ ex] t(2,3) sent show ?thesis by (auto simp: identity_def)
qed

lemma taken_over_synced:
  assumes e: "e_instances e = S" and R: "runner_frame (\<lambda>hs. inv hs \<and> saved (snd hs)) R" and c: "ctx_wf c"
    and w: "wf_world inv w" "is_GetInstance S (fst key) (w_heap w) (w_store w) = (Inr b, h)" "identity (deref h b) = key"
    and run: "resumeInline e R c (fst key) w = (Done (Some a, erro), w') \<or>
      signalInline e R c (fst key) name payload w = (Done (Some a, erro), w') \<or>
      RunInstance e R c (fst key) w = (Done (Some a, None), w')"
    and sent: "sent (core w' a)"
  shows "synced stored reread w' a \<and> inst_ID (w_inst w' a) = fst key"
  using run inline_synced [OF e R c w _ sent] RunInstance_synced [OF e R c w _ sent] by blast

text \<open>
  A workflow of one step that computes \<open>u\<close>, to see the writes of a run one by one: the instance that
  results, and what the store holds if \<open>u\<close> cannot be encoded.
\<close>

lemma not_sent_update:
  assumes "e_instances e = S" "\<not> sent (core w a)"
  shows "snd (update_instance e a w) = w"
  using assms update_lost [of "w_heap w" a "w_store w"]
  by (auto simp: update_instance_def core_def w_inst_def split: prod.splits)

lemma one_step_run:
  assumes e: "e_instances e = S" and c: "ctx_cancel c = None"
    and w: "wf_world inv w" "fresh (w_store w)" "key = (fst (nextInstanceID w), def_Version def, def_Fingerprint def)"
    and def: "GetLatestWorkflow name (w_workflows w) = Inr def" "def_Steps def = [step]" "step_Retry step = None"
    and R: "\<And>c v w. R (step_Fn step) c v w = (Done (g v), w)" "g v = Inr u"
    and sent: "sent (new_instance (fst (nextInstanceID w)) def StatusRunning v)"
  shows "\<exists>w'. Run e R c name v w = (Done (Some (length (w_heap w)), None), w') \<and> w_clock w' = w_clock w \<and>
    core w' (length (w_heap w)) = (new_instance (fst (nextInstanceID w)) def StatusRunning v)\<lparr>inst_Status := StatusCompleted,
      inst_Output := u, inst_CurrentStep := 1, inst_StepResults := Some [0 \<mapsto> u]\<rparr> \<and>
    ((\<forall>x. cached x 0 = Some u \<longrightarrow> \<not> sent x) \<longrightarrow>
      stored (w_store w') = Some (reread (new_instance (fst (nextInstanceID w)) def StatusRunning v)))"
proof -
  let ?I = "\<lambda>hs. inv hs \<and> saved (snd hs)" and ?x = "new_instance (fst (nextInstanceID w)) def StatusRunning v"
  let ?a = "length (w_heap w)" and ?name = "step_Name step"
  obtain a erro w2 where cr: "create_instance e def StatusRunning v w = ((a, erro), w2)" by (metis prod.exhaust)
  note k = create_kept [OF e w sent cr]
  define w3 where "w3 = emitEvent e c ?a EventWorkflowStarted (- 1) '''' w2"
  have w3: "wf_world ?I w3" "?a < length (w_heap w3)" "core w3 ?a = ?x" using k(2-5) by (simp_all add: w3_def)
  define wr where "wr = renewInstanceLease e c (inst_ID (w_inst w3 ?a)) w3"
  note r = touchD [OF kept.touch_renew [OF e touch_refl [OF w3(1,2)], of c "inst_ID (w_inst w3 ?a)", folded wr_def]]
  define w4 where "w4 = enter_step e c ?a 0 ?name wr"
  have x0: "?x\<lparr>inst_CurrentStep := 0\<rparr> = ?x" by (simp add: new_instance_def)
  have w4: "wf_world ?I w4" "?a < length (w_heap w4)" "core w4 ?a = ?x"
    using touchD [OF kept.touch_enter [OF e r(2,3)]] r(1) w3(3) x0 by (simp_all add: w4_def)
  have st4: "stored (w_store w4) = Some (reread ?x)"
    using synced_write(1) [OF e r(2,3), of "\<lambda>x. x\<lparr>inst_CurrentStep := 0\<rparr>"] r(1) w3(3) x0 w(3) sent w4(3)
    by (simp add: w4_def enter_step_def synced_def identity_def new_instance_def)
  define w5 where "w5 = observe (OnStepCompleted (w_inst w4 ?a) ?name 0 None 0) (observe (OnStepStart (w_inst w4 ?a) ?name 0) w4)"
  define w6 where "w6 = succeed_step e (WithEngine c) ?a 0 ?name u w5"
  have w5: "wf_world ?I w5" "?a < length (w_heap w5)" "core w5 ?a = ?x" "w_store w5 = w_store w4" using w4 by (simp_all add: w5_def)
  note w6 = touchD [OF kept.touch_succeed [OF e w5(1,2), where c = "WithEngine c" and i = 0 and name = ?name and v = u, folded w6_def]]
  define w' where "w' = complete_workflow e c ?a 1 u w6"
  note w' = touchD [OF kept.touch_complete [OF e w6(2,3), where c = c and n = 1 and v = u, folded w'_def]]
  have "cached (core wr ?a) 0 = None" unfolding r(1) w3(3) by (simp add: cached_def new_instance_def)
  then have none: "cached (w_inst wr ?a) 0 = None" by simp
  have "run_attempts e R c ?a 0 step v w4 = (Advance u, w6)"
    using ctx_cancel_None [OF c] R def(3)
    by (simp add: run_attempts_def step_settings_def attempt_loop.simps invoke_step_def w6_def w5_def Let_def)
  then have "step_loop e R c ?a 0 [step] v w3 = (Advance u, w6)"
    using none unfolding w4_def wr_def by (simp add: Let_def)
  then have "executeSteps e R c def ?a 0 v w3 = (Done (Some ?a, None), w')" by (simp add: executeSteps_def def(2) w'_def)
  then have run: "Run e R c name v w = (Done (Some ?a, None), w')" using k(1,2) cr def(1) by (simp add: Run_def w3_def)
  have x: "core w' ?a = ?x\<lparr>inst_Status := StatusCompleted, inst_Output := u, inst_CurrentStep := 1, inst_StepResults := Some [0 \<mapsto> u]\<rparr>"
    using w'(1) w6(1) w5(3) by (simp add: cache_result_def new_instance_def)
  have "stored (w_store w') = Some (reread ?x)" if lost: "\<forall>x. cached x 0 = Some u \<longrightarrow> \<not> sent x"
  proof -
    let ?f = "\<lambda>x. x\<lparr>inst_Status := StatusCompleted, inst_Output := u, inst_CurrentStep := 1\<rparr>"
    have "\<not> sent (core (set_inst ?a (cache_result 0 u) w5) ?a)"
      using lost touchD(1) [OF kept.touch_set [OF w5(1,2), of "cache_result 0 u"]] by (simp add: cache_result_def cached_def)
    from not_sent_update [OF e this] have st6: "w_store w6 = w_store w5"
      by (simp add: w6_def succeed_step_def cache_result_def [abs_def] Let_def)
    have "\<not> sent (core (set_inst ?a ?f w6) ?a)"
      using lost touchD(1) [OF kept.touch_set [OF w6(2,3), of ?f]] w6(1) by (simp add: cache_result_def cached_def)
    from not_sent_update [OF e this] st6 touchD(2) [OF kept.touch_set [OF w6(2,3), of ?f]] st4 w5(4)
    show ?thesis by (simp add: w'_def complete_workflow_def Let_def stored_release [OF e])
  qed
  moreover have "w_clock w2 = w_clock w"
    using cr by (auto simp: create_instance_def nextInstanceID_def alloc_def Let_def split: prod.splits option.splits)
  then have "w_clock w' = w_clock w"
    by (simp add: w'_def complete_workflow_def w6_def succeed_step_def w5_def w4_def enter_step_def wr_def w3_def Let_def)
  ultimately show ?thesis using run x by blast
qed

end

end
