(* ===== verification/Engine_Ops.thy ===== *)
theory Engine_Ops
  imports Engine_Durable
begin

text \<open>
  The operations on existing instances: what \<^verbatim>\<open>RunInstance\<close>, \<^verbatim>\<open>resumeInline\<close> and \<^verbatim>\<open>signalInline\<close> do to the
  world in general, and the exact course they take on the in-memory store.
\<close>

section \<open>Frames\<close>

text \<open>An operation that changes at most one existing instance.\<close>

definition one_touched :: "(heap \<times> 's \<Rightarrow> bool) \<Rightarrow> ('s, 'q, 'e, 'u) world \<Rightarrow> ('s, 'q, 'e, 'u) world \<Rightarrow> bool" where
  "one_touched I w w' \<longleftrightarrow> evolve I w w' \<or> (\<exists>w1 a f. evolve I w w1 \<and> touch I a f w1 w')"

lemma one_touchedI:
  "evolve I w w' \<Longrightarrow> one_touched I w w'"
  "evolve I w w1 \<Longrightarrow> touch I a f w1 w' \<Longrightarrow> one_touched I w w'"
  by (auto simp: one_touched_def)

lemma one_touched_queue:
  "one_touched I w w' \<Longrightarrow> wf_world I w' \<and> w_queue w' = w_queue w \<and> w_workflows w' = w_workflows w \<and> w_clock w \<le> w_clock w'"
  by (auto simp: one_touched_def evolve_def touch_def)

text \<open>What the engine writes before it continues: any update that keeps the identifier and the lease.\<close>

definition reset_ok :: "(WorkflowInstance \<Rightarrow> WorkflowInstance) \<Rightarrow> bool" where
  "reset_ok f \<longleftrightarrow> (\<forall>x. inst_ID (f x) = inst_ID x \<and> strip_lease (f x) = f (strip_lease x))"

context engine_store
begin

lemma touch_reset:
  "reset_ok f \<Longrightarrow> wf_world inv w \<Longrightarrow> a < length (w_heap w) \<Longrightarrow> touch inv a f w (set_inst a f w)"
  by (rule touch_set) (simp_all add: reset_ok_def)

lemma continue_instance_touch:
  assumes e: "e_instances e = S" and R: "runner_frame inv R" and c: "ctx_wf c" and f: "reset_ok f"
    and w: "wf_world inv w" "a < length (w_heap w)"
    and cont: "continue_instance e R c a f evs detail start w = (r, w')"
  shows "\<exists>g. touch inv a g w w'"
proof -
  have t0: "touch inv a (\<lambda>x. x) w w" using touch_refl [OF w] .
  obtain er w1 where up: "update_instance e a (set_inst a f w) = (er, w1)"
    by (cases "update_instance e a (set_inst a f w)")
  have t1: "touch inv a f w w1" using touch_update [OF e touch_reset [OF f w]] up by simp
  let ?w2 = "emitEvent e c a EventWorkflowResumed (evs (w_inst w1 a)) detail w1"
  have t2: "touch inv a f w ?w2" using touch_emit [OF t1] .
  have "\<exists>g. touch inv a g w w'" if "executeSteps e R c def a s v ?w2 = (r, w')" for def s v
    using executeSteps_touch [OF e R c touchD(2,3) [OF t2] that] touch_trans [OF t2] by blast
  with t0 t1 up cont show ?thesis
    by (auto simp: continue_instance_def Let_def split: sum.splits if_splits option.splits)
qed

lemma release_on_exit_frame:
  assumes e: "e_instances e = S" and w: "evolve inv w w1"
    and t: "\<And>r w'. p = (r, w') \<Longrightarrow> \<exists>g. touch inv a g w1 w'"
    and p: "release_on_exit e i p = (r, w')"
  shows "one_touched inv w w'"
proof -
  obtain r1 w2 where p1: "p = (r1, w2)" by (cases p)
  then obtain g where "touch inv a g w1 w2" using t by blast
  then have "touch inv a g w1 w'" using p p1 touch_release [OF e] by (auto simp: release_on_exit_def)
  with w show ?thesis by (auto simp: one_touched_def)
qed

lemma evolve_load_acquire:
  assumes e: "e_instances e = S" and w: "wf_world inv w" and l: "load_instance e i w = (Inr a, w1)"
    and ac: "acquireInstanceLease e c j w1 = (er, w2)"
  shows "evolve inv w w1" "evolve inv w w2" "a < length (w_heap w2)" "wf_world inv w2"
    "a < length (w_heap w1)" "wf_world inv w1" "core w2 a = core w1 a"
proof -
  show 1: "evolve inv w w1" "a < length (w_heap w1)" using evolve_load [OF e w l] by auto
  show wf1: "wf_world inv w1" using evolve_wf [OF 1(1)] .
  have 2: "evolve inv w1 w2" using evolve_acquire [OF e wf1, of c j] ac by simp
  show "evolve inv w w2" using evolve_trans [OF 1(1) 2] .
  show "wf_world inv w2" using evolve_wf [OF 2] .
  show "a < length (w_heap w2)" using 1(2) 2 by (auto simp: evolve_def heap_ext_def)
  show "core w2 a = core w1 a" using evolve_core [OF 2 1(2)] .
qed

lemma resumeInline_frame:
  assumes e: "e_instances e = S" and R: "runner_frame inv R" and c: "ctx_wf c" and w: "wf_world inv w"
    and res: "resumeInline e R c i w = (r, w')"
  shows "one_touched inv w w'"
proof -
  let ?f = "\<lambda>x. x\<lparr>inst_Status := StatusRunning, inst_Err := None, inst_Output := VNil, inst_CurrentStep := 0\<rparr>"
  have f: "reset_ok ?f" by (simp add: reset_ok_def)
  obtain x w1 where l: "load_instance e i w = (x, w1)" by (cases "load_instance e i w")
  have ev1: "evolve inv w w1" using evolve_load [OF e w l] by blast
  show ?thesis
  proof (cases x)
    case (Inl er)
    with res l ev1 show ?thesis by (auto simp: resumeInline_def one_touched_def)
  next
    case (Inr a)
    obtain er w2 where ac: "acquireInstanceLease e c i w1 = (er, w2)" by (cases "acquireInstanceLease e c i w1")
    note la = evolve_load_acquire [OF e w l [unfolded Inr] ac]
    have "one_touched inv w w'" if "release_on_exit e i (continue_instance e R c a ?f (\<lambda>x. - 1) '''' (\<lambda>x. 0) w2) = (r, w')"
      using release_on_exit_frame [OF e la(2) _ that] continue_instance_touch [OF e R c f la(4,3)] by blast
    with res l Inr ac la(1,2) show ?thesis
      by (auto simp: resumeInline_def one_touched_def split: if_splits option.splits)
  qed
qed

lemma signalInline_frame:
  assumes e: "e_instances e = S" and R: "runner_frame inv R" and c: "ctx_wf c" and w: "wf_world inv w"
    and res: "signalInline e R c i name payload w = (r, w')"
  shows "one_touched inv w w'"
proof -
  let ?f = "\<lambda>x. x\<lparr>inst_Status := StatusRunning, inst_Err := None, inst_Input := SignalPayload name payload,
     inst_Output := VNil\<rparr>"
  have f: "reset_ok ?f" by (simp add: reset_ok_def)
  obtain x w1 where l: "load_instance e i w = (x, w1)" by (cases "load_instance e i w")
  have ev1: "evolve inv w w1" using evolve_load [OF e w l] by blast
  show ?thesis
  proof (cases x)
    case (Inl er)
    with res l ev1 show ?thesis by (auto simp: signalInline_def one_touched_def)
  next
    case (Inr a)
    obtain er w2 where ac: "acquireInstanceLease e c i w1 = (er, w2)" by (cases "acquireInstanceLease e c i w1")
    note la = evolve_load_acquire [OF e w l [unfolded Inr] ac]
    have "one_touched inv w w'" if "release_on_exit e i
        (continue_instance e R c a ?f (\<lambda>x. int (inst_CurrentStep x)) ''signal'' inst_CurrentStep w2) = (r, w')"
      using release_on_exit_frame [OF e la(2) _ that] continue_instance_touch [OF e R c f la(4,3)] by blast
    with res l Inr ac la(1,2) show ?thesis
      by (auto simp: signalInline_def one_touched_def split: if_splits option.splits)
  qed
qed

lemma RunInstance_frame:
  assumes e: "e_instances e = S" and R: "runner_frame inv R" and c: "ctx_wf c" and w: "wf_world inv w"
    and res: "RunInstance e R c i w = (r, w')"
  shows "one_touched inv w w'"
proof -
  let ?f = "\<lambda>x. x\<lparr>inst_Status := StatusRunning, inst_Err := None, inst_Output := VNil, inst_CurrentStep := 0\<rparr>"
  obtain x w1 where l: "load_instance e i w = (x, w1)" by (cases "load_instance e i w")
  have ev1: "evolve inv w w1" using evolve_load [OF e w l] by blast
  show ?thesis
  proof (cases x)
    case (Inl er)
    with res l ev1 show ?thesis by (auto simp: RunInstance_def one_touched_def)
  next
    case (Inr a)
    obtain er w2 where ac: "acquireInstanceLease e c (inst_ID (w_inst w1 a)) w1 = (er, w2)"
      by (cases "acquireInstanceLease e c (inst_ID (w_inst w1 a)) w1")
    note la = evolve_load_acquire [OF e w l [unfolded Inr] ac]
    have fail: "one_touched inv w (emitEvent e c a ty k s (snd (update_instance e a (set_inst a
        (\<lambda>x. x\<lparr>inst_Status := StatusFailed, inst_Err := Some er\<rparr>) w1))))" for er ty k s
      by (rule one_touchedI(2) [OF la(1) touch_emit [OF touch_update [OF e touch_reset [OF _ la(6,5)]]]])
        (simp add: reset_ok_def)
    obtain er3 w3 where up: "update_instance e a (set_inst a ?f w2) = (er3, w3)"
      by (cases "update_instance e a (set_inst a ?f w2)")
    have t3: "touch inv a ?f w2 w3"
      using touch_update [OF e touch_reset [OF _ la(4,3), of ?f]] up by (simp add: reset_ok_def)
    have t4: "touch inv a ?f w2 (emitEvent e c a EventWorkflowStarted (- 1) '''' w3)" using touch_emit [OF t3] .
    have ex: "one_touched inv w w'"
      if "executeSteps e R c def a 0 v (emitEvent e c a EventWorkflowStarted (- 1) '''' w3) = (r, w')" for def v
      using executeSteps_touch [OF e R c touchD(2,3) [OF t4] that] touch_trans [OF t4] one_touchedI(2) [OF la(2)] by blast
    note o = one_touchedI(1) [OF la(1)] one_touchedI(1) [OF la(2)] one_touchedI(2) [OF la(2) t3]
    show ?thesis
      using res l Inr ac up ex o fail unfolding RunInstance_def Let_def
      by (auto split: sum.splits option.splits if_splits)
  qed
qed

lemma executeSteps_completes:
  assumes "e_instances e = S" "runner_frame inv R" "ctx_wf c" "wf_world inv w" "a < length (w_heap w)"
    and "executeSteps e R c def a k v w = (Done (ao, None), w')"
  shows "ao = Some a \<and> a < length (w_heap w') \<and> wf_world inv w' \<and> inst_Status (core w' a) = StatusCompleted"
  using executeSteps_touch [OF assms] by (auto simp: exec_post_def dest: touchD)

lemma continue_completes:
  assumes e: "e_instances e = S" and R: "runner_frame inv R" and c: "ctx_wf c" and f: "reset_ok f"
    and w: "wf_world inv w" "a < length (w_heap w)"
    and cont: "continue_instance e R c a f evs detail start w = (Done (ao, None), w')"
  shows "ao = Some a \<and> a < length (w_heap w') \<and> wf_world inv w' \<and> inst_Status (core w' a) = StatusCompleted"
proof -
  obtain er w1 where up: "update_instance e a (set_inst a f w) = (er, w1)" by fastforce
  have t: "touch inv a f w w1" using touch_update [OF e touch_reset [OF f w]] up by simp
  note t = touchD [OF touch_emit [OF t, of e c a EventWorkflowResumed "evs (w_inst w1 a)" detail]]
  from cont up executeSteps_completes [OF e R c t(2,3)] show ?thesis
    by (auto simp: continue_instance_def Let_def split: sum.splits if_splits option.splits)
qed

text \<open>An operation that returns no error returns an instance that is COMPLETED.\<close>

lemma calls_complete:
  assumes e: "e_instances e = S" and R: "runner_frame inv R" and c: "ctx_wf c" and w: "wf_world inv w"
    and call: "Run e R c i v w = (Done (ao, None), w') \<or> RunInstance e R c i w = (Done (ao, None), w') \<or>
      resumeInline e R c i w = (Done (ao, None), w') \<or> signalInline e R c i s p w = (Done (ao, None), w')"
  shows "\<exists>a. ao = Some a \<and> inst_Status (core w' a) = StatusCompleted"
proof -
  note completes = executeSteps_completes [OF e R c]
  consider (Run) "Run e R c i v w = (Done (ao, None), w')" | (RunInstance) "RunInstance e R c i w = (Done (ao, None), w')"
    | (inline) "resumeInline e R c i w = (Done (ao, None), w') \<or> signalInline e R c i s p w = (Done (ao, None), w')"
    using call by blast
  then show ?thesis
  proof cases
    case Run
    then obtain def where def: "GetLatestWorkflow i (w_workflows w) = Inr def" by (auto simp: Run_def split: sum.splits)
    obtain a erro w2 where cr: "create_instance e def StatusRunning v w = ((a, erro), w2)" by (metis prod.exhaust)
    from create_instance_new [OF e w cr] obtain w1 f where t: "touch inv a f w1 w2" by blast
    have "executeSteps e R c def a 0 v (emitEvent e c a EventWorkflowStarted (- 1) '''' w2) = (Done (ao, None), w')"
      using Run def cr by (auto simp: Run_def split: option.splits)
    from completes [OF touchD(2,3) [OF touch_emit [OF t]] this] show ?thesis by blast
  next
    case RunInstance
    then obtain a w1 where l: "load_instance e i w = (Inr a, w1)"
      by (auto simp: RunInstance_def split: prod.splits sum.splits)
    let ?f = "\<lambda>x. x\<lparr>inst_Status := StatusRunning, inst_Err := None, inst_Output := VNil, inst_CurrentStep := 0\<rparr>"
    obtain er w2 where ac: "acquireInstanceLease e c (inst_ID (w_inst w1 a)) w1 = (er, w2)" by fastforce
    note la = evolve_load_acquire [OF e w l ac]
    obtain er3 w3 where up: "update_instance e a (set_inst a ?f w2) = (er3, w3)" by fastforce
    have t: "touch inv a ?f w2 w3" using touch_update [OF e touch_reset [OF _ la(4,3), of ?f]] up by (simp add: reset_ok_def)
    from RunInstance l ac up obtain def u where
      "executeSteps e R c def a 0 u (emitEvent e c a EventWorkflowStarted (- 1) '''' w3) = (Done (ao, None), w')"
      by (auto simp: RunInstance_def Let_def split: sum.splits option.splits)
    from completes [OF touchD(2,3) [OF touch_emit [OF t]] this] show ?thesis by blast
  next
    case inline
    then obtain b w1 where l: "load_instance e i w = (Inr b, w1)"
      by (auto simp: resumeInline_def signalInline_def split: prod.splits sum.splits)
    obtain ro w2 where ac: "acquireInstanceLease e c i w1 = (ro, w2)" by fastforce
    note la = evolve_load_acquire [OF e w l ac]
    obtain f ev detail start w3 where f: "\<And>x. identity (f x) = identity x" "\<And>x. strip_lease (f x) = f (strip_lease x)"
      and run: "continue_instance e R c b f ev detail start w2 = (Done (ao, None), w3)"
      and w': "w' = releaseInstanceLease e Background i w3"
      by (rule inline_continues [OF inline _ l ac]) (simp, blast)
    have "reset_ok f" using f by (simp add: reset_ok_def identity_def)
    note k = continue_completes [OF e R c this la(4,3) run]
    with evolve_core [OF evolve_release [OF e], of w3 b Background i] show ?thesis unfolding w' by metis
  qed
qed

end

section \<open>The in-memory store\<close>

lemma world_eta [simp]: "w\<lparr>w_heap := w_heap w\<rparr> = w" "w\<lparr>w_heap := w_heap w, w_store := w_store w\<rparr> = w"
  by simp_all

lemma mem_load:
  assumes "e_instances e = memoryStore"
  shows "load_instance e i w =
    (case map_of (w_store w) i of None \<Rightarrow> (Inl ErrInstanceNotFound, w) | Some a \<Rightarrow> (Inr a, w))"
  using assms by (simp add: load_instance_def Mem_GetInstance_def split: option.splits)

lemma mem_acquire_locked:
  assumes "e_instances e = memoryStore" "map_of (w_store w) i = Some a"
    and "inst_lease (w_inst w a) = Leased owner x" "w_clock w < x" "zero_time < x" "owner \<noteq> e_engineID e"
  shows "acquireInstanceLease e c i w = (Some ErrWorkflowInstanceLocked, w)"
proof -
  have "inst_LeaseOwner (w_inst w a) = owner" "owner \<noteq> ''''" "inst_LeaseExpiresAt (w_inst w a) = x"
    using assms(3) by (auto simp: inst_lease_def split: if_splits)
  with assms show ?thesis
    by (simp add: acquireInstanceLease_def Mem_TryAcquireLease_def Let_def w_inst_def IsZero_def)
qed

lemma mem_update_ok:
  assumes "e_instances e = memoryStore" "map_of (w_store w) (inst_ID (w_inst w a)) \<noteq> None"
  shows "fst (update_instance e a w) = None"
  using assms by (simp add: update_instance_def Mem_UpdateInstance_def w_inst_def)

text \<open>
  Continuing an instance of the in-memory store: the lookup of its definition and the check
  of its fingerprint, and then exactly a run from the given step.
\<close>

lemma mem_continue:
  assumes e: "e_instances e = memoryStore" and R: "runner_frame mem_inv R" and c: "ctx_wf c" and f: "reset_ok f"
    and w: "mem_inv (w_heap w, w_store w)" "map_of (w_store w) i = Some a"
    and cont: "continue_instance e R c a f evs detail start w = (Done (Some b, erro), w')"
  shows "\<exists>def. b = a \<and>
    GetWorkflow (inst_Name (w_inst w a)) (legacy_version (inst_Version (w_inst w a))) (w_workflows w) = Inr def \<and>
    exec_post (start (f (w_inst w a))) (length (def_Steps def)) (inst_Input (f (w_inst w a))) erro (f (core w a)) (w_inst w' a)"
proof -
  have a: "a < length (w_heap w)" "inst_ID (w_inst w a) = i" using mem_inv_lookup [OF w] by (simp_all add: w_inst_def)
  have wf: "wf_world mem_inv w" using w(1) by (simp add: wf_world_def)
  note t = mem_engine.touch_reset [OF f wf a(1)]
  have fx: "w_inst (set_inst a f w) a = f (w_inst w a)" using a(1) by (simp add: w_inst_def set_inst_def)
  have "map_of (w_store (set_inst a f w)) (inst_ID (w_inst (set_inst a f w) a)) \<noteq> None"
    using f a(2) w(2) by (simp add: fx reset_ok_def)
  then obtain w1 where up: "update_instance e a (set_inst a f w) = (None, w1)"
    using mem_update_ok [OF e] by (metis prod.collapse)
  have t1: "touch mem_inv a f w w1" using mem_engine.touch_update [OF e t] up by simp
  have x1: "w_inst w1 a = f (w_inst w a)"
    using fx w_inst_unchanged(3) [of e a "set_inst a f w" a] up by simp
  let ?w2 = "emitEvent e c a EventWorkflowResumed (evs (w_inst w1 a)) detail w1"
  have t2: "touch mem_inv a f w ?w2" using mem_engine.touch_emit [OF t1] .
  from cont up obtain def where
    def: "GetWorkflow (inst_Name (w_inst w a)) (legacy_version (inst_Version (w_inst w a))) (w_workflows w) = Inr def"
    and ex: "executeSteps e R c def a (start (f (w_inst w a))) (inst_Input (f (w_inst w a))) ?w2 = (Done (Some b, erro), w')"
    by (auto simp: continue_instance_def Let_def x1 split: sum.splits if_splits)
  from mem_engine.executeSteps_touch [OF e R c touchD(2,3) [OF t2] ex] touchD(1) [OF t2] def show ?thesis
    by auto
qed

lemma mem_acquire_free:
  assumes "e_instances e = memoryStore" "map_of (w_store w) i = Some a" "acquireInstanceLease e c i w = (None, w1)"
  shows "w_store w1 = w_store w" "w_workflows w1 = w_workflows w" "w_clock w1 = w_clock w"
  using assms by (auto simp: acquireInstanceLease_def Mem_TryAcquireLease_def Let_def split: if_splits)

lemma mem_continue_released:
  assumes e: "e_instances e = memoryStore" and R: "runner_frame mem_inv R" and c: "ctx_wf c" and f: "reset_ok f"
    and w: "mem_inv (w_heap w, w_store w)" "map_of (w_store w) i = Some a"
    and ac: "acquireInstanceLease e c i w = (None, w1)"
    and cont: "release_on_exit e i (continue_instance e R c a f evs detail start w1) = (Done (Some b, erro), w')"
    and start: "\<And>x. start (f (strip_lease x)) = start (f x)"
  shows "\<exists>def. b = a \<and>
    GetWorkflow (inst_Name (w_inst w a)) (legacy_version (inst_Version (w_inst w a))) (w_workflows w) = Inr def \<and>
    exec_post (start (f (w_inst w a))) (length (def_Steps def)) (inst_Input (f (w_inst w a))) erro (f (core w a)) (w_inst w' a)"
proof -
  have l: "load_instance e i w = (Inr a, w)" using w(2) by (simp add: mem_load [OF e])
  have wf: "wf_world mem_inv w" using w(1) by (simp add: wf_world_def)
  note la = mem_engine.evolve_load_acquire [OF e wf l ac]
  have w1: "mem_inv (w_heap w1, w_store w1)" "map_of (w_store w1) i = Some a"
    using la(4) mem_acquire_free [OF e w(2) ac] w(2) by (simp_all add: wf_world_def)
  have id: "inst_Name (w_inst w1 a) = inst_Name (w_inst w a)" "inst_Version (w_inst w1 a) = inst_Version (w_inst w a)"
    using la(7) by (metis core_sel(2), metis core_sel(3))
  have st: "start (f (w_inst w1 a)) = start (f (w_inst w a))"
    using la(7) start [of "w_inst w1 a"] start [of "w_inst w a"] by (simp add: core_def)
  have inp: "inst_Input (f (w_inst w1 a)) = inst_Input (f (w_inst w a))"
    using la(7) f by (metis core_def reset_ok_def strip_lease_sel(8))
  obtain w2 where w2: "continue_instance e R c a f evs detail start w1 = (Done (Some b, erro), w2)"
    "w' = releaseInstanceLease e Background i w2"
    using cont by (cases "continue_instance e R c a f evs detail start w1") (auto simp: release_on_exit_def)
  from mem_continue [OF e R c f w1 w2(1)] obtain def where
    post: "b = a" "GetWorkflow (inst_Name (w_inst w a)) (legacy_version (inst_Version (w_inst w a))) (w_workflows w) = Inr def"
    "exec_post (start (f (w_inst w a))) (length (def_Steps def)) (inst_Input (f (w_inst w a))) erro (f (core w a)) (w_inst w2 a)"
    using la(7) mem_acquire_free(2) [OF e w(2) ac] by (auto simp: id st inp)
  obtain g where g: "touch mem_inv a g w1 w2"
    using mem_engine.continue_instance_touch [OF e R c f la(4,3) w2(1)] by blast
  have "core w' a = core w2 a"
    unfolding w2(2) using evolve_core [OF mem_engine.evolve_release [OF e touchD(2) [OF g]] touchD(3) [OF g]] .
  with post(3) have "exec_post (start (f (w_inst w a))) (length (def_Steps def)) (inst_Input (f (w_inst w a))) erro
      (f (core w a)) (w_inst w' a)"
    by (metis exec_post_core)
  with post(1,2) show ?thesis by blast
qed

lemma mem_resume_post:
  assumes e: "e_instances e = memoryStore" and R: "runner_frame mem_inv R" and c: "ctx_wf c"
    and w: "mem_inv (w_heap w, w_store w)" "map_of (w_store w) i = Some a"
    and res: "resumeInline e R c i w = (Done (Some b, erro), w')"
  shows "\<exists>def. b = a \<and> inst_Status (w_inst w a) = StatusFailed \<and>
    GetWorkflow (inst_Name (w_inst w a)) (legacy_version (inst_Version (w_inst w a))) (w_workflows w) = Inr def \<and>
    exec_post 0 (length (def_Steps def)) (inst_Input (w_inst w a)) erro
      ((core w a)\<lparr>inst_Status := StatusRunning, inst_Err := None, inst_Output := VNil, inst_CurrentStep := 0\<rparr>) (w_inst w' a)"
proof -
  let ?f = "\<lambda>x. x\<lparr>inst_Status := StatusRunning, inst_Err := None, inst_Output := VNil, inst_CurrentStep := 0\<rparr>"
  have f: "reset_ok ?f" by (simp add: reset_ok_def)
  have st: "inst_Status (w_inst w a) = StatusFailed"
    using res w(2) by (auto simp: resumeInline_def mem_load [OF e] split: if_splits)
  obtain er w1 where ac: "acquireInstanceLease e c i w = (er, w1)" by (cases "acquireInstanceLease e c i w")
  have er: "er = None" and "release_on_exit e i (continue_instance e R c a ?f (\<lambda>x. - 1) '''' (\<lambda>x. 0) w1) = (Done (Some b, erro), w')"
    using res w(2) st ac by (auto simp: resumeInline_def mem_load [OF e] split: option.splits)
  from mem_continue_released [OF e R c f w ac [unfolded er] this(2)] st show ?thesis by simp
qed

lemma mem_signal_post:
  assumes e: "e_instances e = memoryStore" and R: "runner_frame mem_inv R" and c: "ctx_wf c"
    and w: "mem_inv (w_heap w, w_store w)" "map_of (w_store w) i = Some a"
    and res: "signalInline e R c i name payload w = (Done (Some b, erro), w')"
  shows "\<exists>def. b = a \<and> inst_Status (w_inst w a) = StatusWaiting \<and>
    GetWorkflow (inst_Name (w_inst w a)) (legacy_version (inst_Version (w_inst w a))) (w_workflows w) = Inr def \<and>
    exec_post (inst_CurrentStep (w_inst w a)) (length (def_Steps def)) (SignalPayload name payload) erro
      ((core w a)\<lparr>inst_Status := StatusRunning, inst_Err := None, inst_Input := SignalPayload name payload,
         inst_Output := VNil\<rparr>) (w_inst w' a)"
proof -
  let ?f = "\<lambda>x. x\<lparr>inst_Status := StatusRunning, inst_Err := None, inst_Input := SignalPayload name payload,
     inst_Output := VNil\<rparr>"
  have f: "reset_ok ?f" by (simp add: reset_ok_def)
  have st: "inst_Status (w_inst w a) = StatusWaiting"
    using res w(2) by (auto simp: signalInline_def mem_load [OF e] split: if_splits)
  obtain er w1 where ac: "acquireInstanceLease e c i w = (er, w1)" by (cases "acquireInstanceLease e c i w")
  have er: "er = None" and "release_on_exit e i
      (continue_instance e R c a ?f (\<lambda>x. int (inst_CurrentStep x)) ''signal'' inst_CurrentStep w1) = (Done (Some b, erro), w')"
    using res w(2) st ac by (auto simp: signalInline_def mem_load [OF e] split: option.splits)
  from mem_continue_released [OF e R c f w ac [unfolded er] this(2)] st show ?thesis by simp
qed

section \<open>Delivering a signal to the step that waits for it\<close>

definition wait_fn :: "string \<Rightarrow> anyv \<Rightarrow> goerr + anyv" where
  "wait_fn s v = (case v of SignalPayload n d \<Rightarrow> if n = s then Inr d else Inl (NewWaitForSignalError s)
     | _ \<Rightarrow> Inl (NewWaitForSignalError s))"

lemma fn_body_WaitForSignal: "fn_body (WaitForSignalStep s) v = Return (wait_fn s v)"
  by (simp add: WaitForSignalStep_def wait_fn_def split: anyv.splits)

lemma computes_WaitForSignal: "computes I (step_runner e n d) (Some (WaitForSignalStep s)) (wait_fn s)"
  by (cases d) (simp_all add: computes_def step_runner.simps run_fn_def fn_body_WaitForSignal)

text \<open>The conditions under which \<^verbatim>\<open>signalInline\<close> gets to executing steps.\<close>

definition signalable :: "('s, 'q, 'e) engineImpl \<Rightarrow> ctx \<Rightarrow> string \<Rightarrow> addr \<Rightarrow> 'u WorkflowDefinition \<Rightarrow> (instances, 'q, 'e, 'u) world \<Rightarrow> bool" where
  "signalable e c i a def w \<longleftrightarrow> mem_inv (w_heap w, w_store w) \<and> map_of (w_store w) i = Some a \<and>
     inst_Status (w_inst w a) = StatusWaiting \<and>
     (inst_lease (w_inst w a) = Free \<or> (\<exists>x. inst_lease (w_inst w a) = Leased (e_engineID e) x)) \<and>
     GetWorkflow (inst_Name (w_inst w a)) (legacy_version (inst_Version (w_inst w a))) (w_workflows w) = Inr def \<and>
     inst_Fingerprint (w_inst w a) \<in> {'''', def_Fingerprint def}"

lemma mem_acquire_ok:
  assumes "e_instances e = memoryStore" "map_of (w_store w) i = Some a"
    and "inst_lease (w_inst w a) = Free \<or> (\<exists>x. inst_lease (w_inst w a) = Leased (e_engineID e) x)"
  shows "\<exists>w1. acquireInstanceLease e c i w = (None, w1)"
proof -
  have "inst_LeaseOwner (w_inst w a) = '''' \<or> inst_LeaseOwner (w_inst w a) = e_engineID e"
    using assms(3) by (auto simp: inst_lease_def split: if_splits)
  with assms(1,2) show ?thesis
    by (auto simp: acquireInstanceLease_def Mem_TryAcquireLease_def Let_def w_inst_def)
qed

lemma mem_signal_run:
  assumes e: "e_instances e = memoryStore" and s: "signalable e c i a def w"
  shows "\<exists>w3 g. touch mem_inv a g w w3 \<and>
    core w3 a = (core w a)\<lparr>inst_Status := StatusRunning, inst_Err := None, inst_Input := SignalPayload name payload,
      inst_Output := VNil\<rparr> \<and>
    signalInline e R c i name payload w = release_on_exit e i
      (executeSteps e R c def a (inst_CurrentStep (w_inst w a)) (SignalPayload name payload) w3)"
proof -
  let ?f = "\<lambda>x. x\<lparr>inst_Status := StatusRunning, inst_Err := None, inst_Input := SignalPayload name payload,
     inst_Output := VNil\<rparr>"
  have f: "reset_ok ?f" by (simp add: reset_ok_def)
  from s have w: "mem_inv (w_heap w, w_store w)" "map_of (w_store w) i = Some a" by (auto simp: signalable_def)
  have l: "load_instance e i w = (Inr a, w)" using w(2) by (simp add: mem_load [OF e])
  have wf: "wf_world mem_inv w" using w(1) by (simp add: wf_world_def)
  obtain w1 where ac: "acquireInstanceLease e c i w = (None, w1)"
    using mem_acquire_ok [OF e w(2)] s by (auto simp: signalable_def)
  note la = mem_engine.evolve_load_acquire [OF e wf l ac]
  have st: "w_store w1 = w_store w" "w_workflows w1 = w_workflows w" using mem_acquire_free [OF e w(2) ac] by simp_all
  have t0: "touch mem_inv a (\<lambda>x. x) w w1" using touch_evolve [OF touch_refl [OF wf la(5)] la(2)] .
  note t = mem_engine.touch_reset [OF f la(4,3)]
  have a: "inst_ID (w_inst w1 a) = i"
    using mem_inv_lookup [OF w] la(7) by (metis core_sel(1) w_inst_def)
  have fx: "w_inst (set_inst a ?f w1) a = ?f (w_inst w1 a)" using la(3) by (simp add: w_inst_def set_inst_def)
  have "map_of (w_store (set_inst a ?f w1)) (inst_ID (w_inst (set_inst a ?f w1) a)) \<noteq> None"
    using a w(2) st by (simp add: fx)
  then obtain w2 where up: "update_instance e a (set_inst a ?f w1) = (None, w2)"
    using mem_update_ok [OF e] by (metis prod.collapse)
  let ?w3 = "emitEvent e c a EventWorkflowResumed (int (inst_CurrentStep (w_inst w2 a))) ''signal'' w2"
  have t3: "touch mem_inv a ?f w1 ?w3" using mem_engine.touch_emit [OF mem_engine.touch_update [OF e t]] up by simp
  have x2: "w_inst w2 a = ?f (w_inst w1 a)" using fx w_inst_unchanged(3) [of e a "set_inst a ?f w1" a] up by simp
  have same: "inst_Name (w_inst w1 a) = inst_Name (w_inst w a)" "inst_Version (w_inst w1 a) = inst_Version (w_inst w a)"
    "inst_Fingerprint (w_inst w1 a) = inst_Fingerprint (w_inst w a)" "inst_CurrentStep (w_inst w1 a) = inst_CurrentStep (w_inst w a)"
    using la(7) by (metis core_sel(2), metis core_sel(3), metis core_sel(4), metis core_sel(9))
  have run: "signalInline e R c i name payload w = release_on_exit e i
      (executeSteps e R c def a (inst_CurrentStep (w_inst w a)) (SignalPayload name payload) ?w3)"
    using s ac up by (auto simp: signalInline_def l continue_instance_def Let_def signalable_def same st x2)
  have "core ?w3 a = ?f (core w a)" using touchD(1) [OF t3] la(7) by simp
  with touch_trans [OF t0 t3] run show ?thesis by blast
qed

lemma drop_step: "k < length xs \<Longrightarrow> drop k xs = xs ! k # drop (Suc k) xs"
  by (rule Cons_nth_drop_Suc [symmetric])

lemma mem_signal_mismatch:
  assumes e: "e_instances e = memoryStore" and R: "runner_frame mem_inv R" and c: "ctx_cancel c = None"
    and s: "signalable e c i a def w" and k: "inst_CurrentStep (w_inst w a) < length (def_Steps def)"
    and g: "computes mem_inv R (step_Fn (def_Steps def ! inst_CurrentStep (w_inst w a))) (wait_fn sig)"
    and none: "cached (w_inst w a) (inst_CurrentStep (w_inst w a)) = None" and ne: "name \<noteq> sig"
  shows "\<exists>w'. signalInline e R c i name payload w = (Done (Some a, Some (NewWaitForSignalError sig)), w') \<and>
    core w' a = (core w a)\<lparr>inst_Status := StatusWaiting, inst_Err := None, inst_Input := SignalPayload name payload,
      inst_Output := WaitMeta ''signal'' False\<rparr>"
proof -
  let ?k = "inst_CurrentStep (w_inst w a)" and ?v = "SignalPayload name payload" and ?er = "NewWaitForSignalError sig"
  from mem_signal_run [OF e s, of name payload R] obtain w3 g3 where t3: "touch mem_inv a g3 w w3"
    and c3: "core w3 a = (core w a)\<lparr>inst_Status := StatusRunning, inst_Err := None, inst_Input := ?v, inst_Output := VNil\<rparr>"
    and run: "signalInline e R c i name payload w = release_on_exit e i (executeSteps e R c def a ?k ?v w3)" by blast
  note w3 = touchD [OF t3]
  have n3: "cached (core w3 a) ?k = None" using none c3 by (simp add: cached_def)
  have gv: "wait_fn sig ?v = Inl ?er" using ne by (simp add: wait_fn_def)
  from mem_engine.step_loop_head [OF e R c w3(2,3) n3 g, of ?v "drop (Suc ?k) (def_Steps def)"] obtain w4 where
    t4: "touch mem_inv a (\<lambda>x. step_effect ?k (spec_outcome (run_spec [wait_fn sig] ?k ?v)) (x\<lparr>inst_CurrentStep := ?k\<rparr>)) w3 w4"
    and sl: "step_loop e R c a ?k (drop ?k (def_Steps def)) ?v w3 = (Stop ?er, w4)"
    unfolding drop_step [OF k] gv by auto
  note w4 = touchD [OF t4]
  have er: "WaitForSignalMeta ?er = Some (sig, False)" "is_wait ?er" by (simp_all add: NewWaitForSignalError_def is_wait_def)
  have c4: "core w4 a = (core w a)\<lparr>inst_Status := StatusWaiting, inst_Err := None, inst_Input := ?v,
      inst_Output := WaitMeta ''signal'' False\<rparr>"
    using w4(1) c3 er by (simp add: gv spec_outcome_def mark_waiting_def waiting_output_def)
  have "signalInline e R c i name payload w = (Done (Some a, Some ?er), releaseInstanceLease e Background i w4)"
    using run sl by (simp add: executeSteps_def release_on_exit_def)
  moreover have "core (releaseInstanceLease e Background i w4) a = core w4 a"
    using evolve_core [OF mem_engine.evolve_release [OF e w4(2)] w4(3)] .
  ultimately show ?thesis using c4 by auto
qed

lemma mem_signal_match:
  assumes e: "e_instances e = memoryStore" and R: "runner_frame mem_inv R" and c: "ctx_cancel c = None"
    and s: "signalable e c i a def w" and k: "inst_CurrentStep (w_inst w a) < length (def_Steps def)"
    and g: "computes mem_inv R (step_Fn (def_Steps def ! inst_CurrentStep (w_inst w a))) (wait_fn sig)"
    and none: "cached (w_inst w a) (inst_CurrentStep (w_inst w a)) = None"
    and res: "signalInline e R c i sig payload w = (r, w')"
  shows "cached (w_inst w' a) (inst_CurrentStep (w_inst w a)) = Some payload"
proof -
  let ?k = "inst_CurrentStep (w_inst w a)" and ?v = "SignalPayload sig payload"
  from mem_signal_run [OF e s, of sig payload R] obtain w3 g3 where t3: "touch mem_inv a g3 w w3"
    and c3: "core w3 a = (core w a)\<lparr>inst_Status := StatusRunning, inst_Err := None, inst_Input := ?v, inst_Output := VNil\<rparr>"
    and run: "signalInline e R c i sig payload w = release_on_exit e i (executeSteps e R c def a ?k ?v w3)" by blast
  note w3 = touchD [OF t3]
  have n3: "cached (core w3 a) ?k = None" using none c3 by (simp add: cached_def)
  have gv: "wait_fn sig ?v = Inr payload" by (simp add: wait_fn_def)
  from mem_engine.step_loop_head [OF e R c w3(2,3) n3 g, of ?v "drop (Suc ?k) (def_Steps def)"] obtain w4 where
    t4: "touch mem_inv a (\<lambda>x. step_effect ?k (spec_outcome (run_spec [wait_fn sig] ?k ?v)) (x\<lparr>inst_CurrentStep := ?k\<rparr>)) w3 w4"
    and sl: "step_loop e R c a ?k (drop ?k (def_Steps def)) ?v w3 =
      step_loop e R c a (Suc ?k) (drop (Suc ?k) (def_Steps def)) payload w4"
    unfolding drop_step [OF k] gv by auto
  note w4 = touchD [OF t4]
  have "cached (core w4 a) ?k = Some payload" using w4(1) by (simp add: gv spec_outcome_def del: cached_core)
  moreover obtain x w5 where x: "step_loop e R c a (Suc ?k) (drop (Suc ?k) (def_Steps def)) payload w4 = (x, w5)"
    by (cases "step_loop e R c a (Suc ?k) (drop (Suc ?k) (def_Steps def)) payload w4")
  moreover obtain f5 where t5: "touch mem_inv a f5 w4 w5"
    "run_post (Suc ?k) (length (drop (Suc ?k) (def_Steps def))) payload x (core w4 a) (core w5 a)"
    using mem_engine.step_loop_post [OF e R ctx_cancel_None(3) [OF c] w4(2,3) x] by blast
  ultimately have c5: "cached (core w5 a) ?k = Some payload" by (auto simp: run_post_def)
  note w5 = touchD [OF t5(1)]
  obtain w6 f6 where t6: "touch mem_inv a f6 w5 w6" "cached (core w6 a) ?k = Some payload"
    and ex: "snd (executeSteps e R c def a ?k ?v w3) = w6"
  proof (cases x)
    case (Advance u)
    note tc = mem_engine.touch_complete [OF e w5(2,3), where v = u and n = "length (def_Steps def)" and c = c]
    show ?thesis
      by (rule that [OF tc]) (use touchD(1) [OF tc] c5 sl x Advance in \<open>simp_all add: executeSteps_def cached_def\<close>)
  qed (use that [OF touch_refl [OF w5(2,3)] c5] sl x in \<open>simp_all add: executeSteps_def\<close>)
  note w6 = touchD [OF t6(1)]
  have "w' = releaseInstanceLease e Background i w6" using res run ex by (simp add: release_on_exit_def)
  then have "core w' a = core w6 a" using evolve_core [OF mem_engine.evolve_release [OF e w6(2)] w6(3)] by simp
  with t6(2) show ?thesis by (metis cached_core)
qed

section \<open>Registration\<close>

lemma normalize_def_sel [simp]:
  "def_Name (normalize_def e def) = def_Name def" "def_Steps (normalize_def e def) = def_Steps def"
  "def_Version (normalize_def e def) = legacy_version (def_Version def)"
  "def_Fingerprint def \<noteq> '''' \<Longrightarrow> def_Fingerprint (normalize_def e def) = def_Fingerprint def"
  by (simp_all add: normalize_def_def legacy_version_def Let_def)

lemma RegisterWorkflow_cases:
  fixes d2 :: "'u WorkflowDefinition"
  assumes ws: "ws_inv (w_workflows w)" and reg: "RegisterWorkflow e def w = (r, w')"
    and ok: "def_Name def \<noteq> ''''" "def_Steps def \<noteq> []" and d2: "d2 = normalize_def e def"
  shows "case GetWorkflow (def_Name d2) (def_Version d2) (w_workflows w) of
      Inr d \<Rightarrow> w' = w \<and> (if def_Fingerprint d = def_Fingerprint d2 then r = None
        else \<exists>er. r = Some er \<and> errors_Is er ErrWorkflowDefinitionMismatch)
    | Inl _ \<Rightarrow> r = None \<and> w' = w\<lparr>w_workflows := w_workflows w'\<rparr> \<and> ws_inv (w_workflows w') \<and>
        (\<forall>n u. GetWorkflow n u (w_workflows w') =
          (if n = def_Name d2 \<and> u = def_Version d2 then Inr d2 else GetWorkflow n u (w_workflows w)))"
proof (cases "GetWorkflow (def_Name d2) (def_Version d2) (w_workflows w)")
  case (Inr d)
  then have "def_Name d \<noteq> ''''" using GetWorkflow_name [OF ws] ok(1) d2 by fastforce
  with Inr reg ok show ?thesis by (auto simp: RegisterWorkflow_def d2 Let_def errors_Is_def)
next
  case (Inl er)
  then have er: "er = ErrWorkflowNotFound" by (auto simp: GetWorkflow_def split: option.splits)
  obtain err ws' where sv: "SaveWorkflow d2 (w_workflows w) = (err, ws')" by (cases "SaveWorkflow d2 (w_workflows w)")
  have nf: "GetWorkflow (def_Name d2) (def_Version d2) (w_workflows w) = Inl ErrWorkflowNotFound"
    using Inl er by simp
  have "w' = w\<lparr>w_workflows := ws'\<rparr>" "r = err"
    using reg Inl er sv ok by (auto simp: RegisterWorkflow_def d2 Let_def errors_Is_def)
  with GetWorkflow_SaveWorkflow [OF nf] ws_inv_SaveWorkflow [OF ws, of d2] sv Inl show ?thesis by simp
qed

section \<open>Recovery\<close>

lemma mem_addr_unique:
  assumes "mem_inv (h, s)" "map_of s i = Some a" "map_of s j = Some a"
  shows "i = j"
  using mem_inv_lookup [OF assms(1,2)] mem_inv_lookup [OF assms(1,3)] by simp

lemma mem_recover_loop:
  assumes e: "e_instances e = memoryStore"
  shows "mem_inv (w_heap w, w_store w) \<Longrightarrow> distinct as \<Longrightarrow>
    (\<forall>a \<in> set as. inst_Status (w_inst w a) = StatusRunning \<and> (\<exists>i. map_of (w_store w) i = Some a)) \<Longrightarrow>
    \<exists>w'. recover_loop e as n w = ((n + length as, None), w') \<and> map_of (w_store w') = map_of (w_store w) \<and>
      mem_inv (w_heap w', w_store w') \<and>
      (\<forall>b. w_inst w' b = (if b \<in> set as then mark_failed stuck_error (w_inst w b) else w_inst w b))"
proof (induction as arbitrary: n w)
  case Nil
  then show ?case by simp
next
  case (Cons a as)
  let ?w1 = "set_inst a (mark_failed stuck_error) w"
  obtain i where i: "map_of (w_store w) i = Some a" using Cons.prems(3) by auto
  then have a: "a < length (w_heap w)" "inst_ID (w_inst w a) = i"
    using mem_inv_lookup [OF Cons.prems(1)] by (simp_all add: w_inst_def)
  have x1: "w_inst ?w1 b = (if b = a then mark_failed stuck_error (w_inst w a) else w_inst w b)" for b
    using a(1) by (simp add: w_inst_def set_inst_def deref_assign)
  have st1: "w_store ?w1 = w_store w" by (simp add: set_inst_def)
  obtain w2 where up: "update_instance e a ?w1 = (None, w2)"
    and w2: "w_store w2 = AList.update i a (w_store w)" "w_heap w2 = w_heap ?w1"
    using e i x1 [of a] a(2) st1
    by (auto simp: update_instance_def Mem_UpdateInstance_def w_inst_def mark_failed_def)
  have inv1: "mem_inv (w_heap ?w1, w_store w)"
    using mem_inv_assign [OF Cons.prems(1), of "mark_failed stuck_error" a] by (simp add: set_inst_def mark_failed_def)
  have inv2: "mem_inv (w_heap w2, w_store w2)"
    using mem_inv_file [OF inv1, of a] a x1 [of a] w2 by (simp add: w_inst_def mark_failed_def set_inst_def)
  have m2: "map_of (w_store w2) = map_of (w_store w)" using w2(1) i by (auto simp: fun_eq_iff)
  have x2: "w_inst w2 b = (if b = a then mark_failed stuck_error (w_inst w a) else w_inst w b)" for b
    using x1 [of b] w2(2) by (simp add: w_inst_def)
  have "\<forall>b \<in> set as. inst_Status (w_inst w2 b) = StatusRunning \<and> (\<exists>j. map_of (w_store w2) j = Some b)"
    using Cons.prems(2,3) x2 m2 by auto
  from Cons.IH [OF inv2 _ this, of "Suc n"] Cons.prems(2) obtain w' where
    w': "recover_loop e as (Suc n) w2 = ((Suc n + length as, None), w')" "map_of (w_store w') = map_of (w_store w2)"
      "mem_inv (w_heap w', w_store w')"
      "\<forall>b. w_inst w' b = (if b \<in> set as then mark_failed stuck_error (w_inst w2 b) else w_inst w2 b)" by auto
  have "recover_loop e (a # as) n w = ((n + length (a # as), None), w')"
    using Cons.prems(3) up w'(1) by (simp add: mark_failed_def [abs_def])
  with w' m2 x2 Cons.prems(2) show ?case by (intro exI [of _ w']) auto
qed

end
