(* ===== verification/Engine_Props.thy ===== *)
theory Engine_Props
  imports Engine_Ops
begin

text \<open>
  The properties of the engine on the in-memory store, with a small concrete workflow on
  which each of them is exercised. Those that hold on the SQLite store as well are in \<open>Sqlite_Props\<close>.
\<close>

section \<open>A concrete engine\<close>

text \<open>
  Two steps, the second of which fails on negative numbers and asks for a signal on zero.
\<close>

definition sample_inc :: "anyv \<Rightarrow> goerr + anyv" where
  "sample_inc v = (case v of VInt n \<Rightarrow> Inr (VInt (n + 1)) | _ \<Rightarrow> Inl (ErrMsg ''not a number''))"

definition sample_check :: "anyv \<Rightarrow> goerr + anyv" where
  "sample_check v = (case v of
       VInt n \<Rightarrow> if n < 0 then Inl (ErrMsg ''negative'')
                 else if n = 0 then Inl (NewWaitForSignalError ''go'') else Inr (VInt (2 * n))
     | _ \<Rightarrow> Inl (ErrMsg ''not a number''))"

definition sample_retry :: RetryPolicy where
  "sample_retry = \<lparr>rp_MaxAttempts = 3, rp_Backoff = 0, rp_InitialBackoff = 100, rp_MaxBackoff = 0,
     rp_BackoffMultiplier = 2\<rparr>"

definition sample_def :: "unit WorkflowDefinition" where
  "sample_def = \<lparr>def_Name = ''wf'', def_Version = ''v1'', def_Fingerprint = ''fp'',
     def_Steps = [pure_step ''inc'' ''main.inc'' sample_inc None,
                  pure_step ''check'' ''main.check'' sample_check (Some sample_retry)]\<rparr>"

definition sample_build :: build_info where
  "sample_build = \<lparr>bi_Revision = '''', bi_Modified = False, bi_Module = ''main'', bi_Version = ''(devel)''\<rparr>"

definition sample_engine :: "(instances, unit, history) engineImpl" where
  "sample_engine = NewEngineWithConfig ''00'' (\<lambda>p. pl_Name p @ concat (map fp_FuncName (pl_Steps p)))
     sample_build (\<lambda>r. 0)
     \<lparr>cfg_Instances = memoryStore, cfg_Events = Some memoryEvents, cfg_Queue = None,
      cfg_EngineID = ''e1'', cfg_LeaseTTL = 0\<rparr>"

definition sample_world :: "(instances, unit, history, unit) world" where
  "sample_world = \<lparr>w_heap = [], w_clock = 1000, w_workflows = [(''wf'', [(''v1'', sample_def)])],
     w_store = [], w_events = [], w_queue = (), w_log = [], w_nextID = 0, w_extern = ()\<rparr>"

lemma sample_engine_sel [simp]:
  "e_instances sample_engine = memoryStore" "e_engineID sample_engine = ''e1''"
  by (simp_all add: sample_engine_def NewEngineWithConfig_def)

lemma sample_heap [simp]: "w_heap sample_world = []" "w_store sample_world = []"
  by (simp_all add: sample_world_def)

lemma sample_world_inv: "mem_inv (w_heap sample_world, w_store sample_world)"
  by (simp add: mem_inv_def)

lemma sample_latest [simp]: "GetLatestWorkflow ''wf'' (w_workflows sample_world) = Inr sample_def"
  by (simp add: sample_world_def GetLatestWorkflow_def)

text \<open>The equations that evaluate the engine on a concrete world.\<close>

lemmas engine_eval = ResumeNow_def SignalNow_def resumeInline_def signalInline_def Run_def mem_load w_inst_def deref_def
  acquireInstanceLease_def Mem_TryAcquireLease_def assign_def release_on_exit_def continue_instance_def
  GetWorkflow_def legacy_version_def set_inst_def update_instance_def Mem_UpdateInstance_def
  executeSteps_def renewInstanceLease_def Mem_RenewLease_def cached_def skip_cached_def enter_step_def
  run_attempts_def pure_step_def step_settings_def attempt_loop.simps invoke_step_def step_runner_pure
  observe_def emitEvent_def Let_def create_instance_def nextInstanceID_def alloc_def Mem_SaveInstance_def new_instance_def
  sample_engine_def NewEngineWithConfig_def sample_def_def sample_retry_def sample_inc_def sample_check_def

section \<open>Runs\<close>

lemma sample_computes:
  "list_all2 (\<lambda>s g. computes I (step_runner e n d) (step_Fn s) g) (def_Steps sample_def) [sample_inc, sample_check]"
  by (simp add: sample_def_def computes_pure_step)

text \<open>
  C7: How a run ends on the in-memory store, for arbitrary step functions. When \<^verbatim>\<open>Run\<close> returns, the new instance keeps
  its name and input, and: without an error it is COMPLETED, exactly the steps of the workflow
  have a cached result and the output is that of the last one; with an error it is WAITING if
  the error asks to wait and FAILED with exactly that error otherwise, \<^verbatim>\<open>CurrentStep\<close> names the
  step that did not succeed, and exactly the steps before it have a cached result.
\<close>

theorem Run_outcome:
  assumes "e_instances e = memoryStore" "mem_inv (w_heap w, w_store w)" "ctx_wf c"
    and "GetLatestWorkflow name (w_workflows w) = Inr def" "def_Steps def \<noteq> []"
    and "Run e (step_runner e n d) c name input w = (Done (ao, erro), w')"
  shows "\<exists>a inst. ao = Some a \<and> inst = w_inst w' a \<and> inst_Name inst = def_Name def \<and> inst_Input inst = input \<and>
    (case erro of
       None \<Rightarrow> inst_Status inst = StatusCompleted \<and> inst_Err inst = None \<and>
         inst_CurrentStep inst = length (def_Steps def) \<and>
         (\<forall>k. cached inst k \<noteq> None \<longleftrightarrow> k < length (def_Steps def)) \<and>
         Some (inst_Output inst) = cached inst (length (def_Steps def) - 1)
     | Some err \<Rightarrow>
         (if is_wait err then inst_Status inst = StatusWaiting \<and> inst_Err inst = None
          else inst_Status inst = StatusFailed \<and> inst_Err inst = Some err) \<and>
         inst_CurrentStep inst < length (def_Steps def) \<and>
         (\<forall>k. cached inst k \<noteq> None \<longleftrightarrow> k < inst_CurrentStep inst))"
proof -
  let ?a = "length (w_heap w)" and ?n = "length (def_Steps def)"
  let ?x = "new_instance (fst (nextInstanceID w)) def StatusRunning input"
  have post: "ao = Some ?a" "exec_post 0 ?n input erro ?x (w_inst w' ?a)"
    using mem_engine.Run_exec_post [OF assms(1) mem_engine.step_runner_frame [OF assms(1)] assms(3) _ assms(4) mem_save_ok assms(6)]
      assms(2) by (simp_all add: wf_world_def)
  have x: "cached ?x k = None" for k by (simp add: cached_def new_instance_def)
  have "(\<forall>k. cached (w_inst w' ?a) k \<noteq> None \<longleftrightarrow> k < inst_CurrentStep (w_inst w' ?a))"
    using post(2) x unfolding exec_post_def
    by (cases erro) (simp_all, metis leI option.distinct(1), metis linorder_neqE_nat option.distinct(1))
  with post assms(5) show ?thesis
    unfolding exec_post_def
    by (cases erro) (auto simp: same_identity_def stopped_def new_instance_def Suc_diff_1 simp del: not_None_eq)
qed

theorem Run_outcome_witness:
  "\<exists>w'. Run sample_engine (step_runner sample_engine 0 0) Background ''wf'' (VInt (- 1)) sample_world =
       (Done (Some 0, Some (NewWaitForSignalError ''go'')), w') \<and>
     inst_Status (w_inst w' 0) = StatusWaiting \<and> inst_CurrentStep (w_inst w' 0) < 2 \<and>
     inst_Input (w_inst w' 0) = VInt (- 1)"
proof -
  let ?R = "step_runner sample_engine 0 0"
  have wf: "wf_world mem_inv sample_world" by (simp add: wf_world_def mem_inv_def)
  obtain w' where run: "Run sample_engine ?R Background ''wf'' (VInt (- 1)) sample_world =
      (Done (Some 0, Some (NewWaitForSignalError ''go'')), w')"
    using mem_engine.Run_computes [OF sample_engine_sel(1) mem_engine.step_runner_frame [OF sample_engine_sel(1)] _ wf
        sample_latest sample_computes mem_save_ok, where c = Background and v = "VInt (- 1)"]
    by (auto simp: sample_inc_def sample_check_def spec_err_def)
  from Run_outcome [OF sample_engine_sel(1) sample_world_inv _ sample_latest _ run]
  have "inst_Status (w_inst w' 0) = StatusWaiting \<and> inst_CurrentStep (w_inst w' 0) < 2 \<and>
     inst_Input (w_inst w' 0) = VInt (- 1)"
    by (simp add: sample_def_def is_wait_def NewWaitForSignalError_def)
  with run show ?thesis by blast
qed

text \<open>An instance whose first step succeeded and whose second failed.\<close>

definition failed_world :: "(instances, unit, history, unit) world" where
  "failed_world = sample_world\<lparr>
     w_heap := [(new_instance ''wf-1'' sample_def StatusFailed (VInt 4))\<lparr>inst_CurrentStep := 1,
        inst_Err := Some (ErrMsg ''negative''), inst_StepResults := Some [0 \<mapsto> VInt 5]\<rparr>],
     w_store := [(''wf-1'', 0)]\<rparr>"

lemma failed_world_inv [simp]: "mem_inv (w_heap failed_world, w_store failed_world)"
  by (simp add: failed_world_def mem_inv_def deref_def new_instance_def)

lemma failed_world_eq: "failed_world = \<lparr>w_heap = [\<lparr>inst_ID = ''wf-1'', inst_Name = ''wf'', inst_Version = ''v1'',
      inst_Fingerprint = ''fp'', inst_LeaseOwner = [], inst_LeaseExpiresAt = zero_time, inst_Status = StatusFailed,
      inst_Output = VNil, inst_Err = Some (ErrMsg ''negative''), inst_Input = VInt 4, inst_CurrentStep = 1,
      inst_StepResults = Some [0 \<mapsto> VInt 5]\<rparr>], w_clock = 1000, w_workflows = [(''wf'', [(''v1'', sample_def)])],
     w_store = [(''wf-1'', 0)], w_events = [], w_queue = (), w_log = [], w_nextID = 0, w_extern = ()\<rparr>"
  by (simp add: failed_world_def sample_world_def new_instance_def sample_def_def)

section \<open>Resuming and signalling\<close>

text \<open>
  C12: Resuming, on the in-memory store. When \<^verbatim>\<open>ResumeNow\<close> returns an instance, that instance was FAILED, it is the same
  one with the same input, every step result it had is kept, and it ends the way a run ends:
  COMPLETED with a result for every step and the last one as output, or WAITING/FAILED at the
  first step without a result.
\<close>

theorem ResumeNow_outcome:
  assumes "e_instances e = memoryStore" "mem_inv (w_heap w, w_store w)" "ctx_wf c" "map_of (w_store w) i = Some a"
    and "ResumeNow e (step_runner e n d) c i w = (Done (Some b, erro), w')"
  shows "\<exists>def inst. b = a \<and> inst = w_inst w' a \<and> inst_Status (w_inst w a) = StatusFailed \<and>
    GetWorkflow (inst_Name (w_inst w a)) (legacy_version (inst_Version (w_inst w a))) (w_workflows w) = Inr def \<and>
    inst_ID inst = i \<and> inst_Input inst = inst_Input (w_inst w a) \<and>
    (\<forall>k v. cached (w_inst w a) k = Some v \<longrightarrow> cached inst k = Some v) \<and>
    (case erro of
       None \<Rightarrow> inst_Status inst = StatusCompleted \<and> inst_Err inst = None \<and>
         (\<forall>k < length (def_Steps def). cached inst k \<noteq> None) \<and>
         (def_Steps def \<noteq> [] \<longrightarrow> inst_Output inst = the (cached inst (length (def_Steps def) - 1)))
     | Some err \<Rightarrow> stopped err inst \<and> cached inst (inst_CurrentStep inst) = None \<and>
         (\<forall>k < inst_CurrentStep inst. cached inst k \<noteq> None))"
proof -
  let ?x = "(core w a)\<lparr>inst_Status := StatusRunning, inst_Err := None, inst_Output := VNil, inst_CurrentStep := 0\<rparr>"
  from mem_resume_post [OF assms(1) mem_engine.step_runner_frame [OF assms(1)] assms(3,2,4) assms(5) [unfolded ResumeNow_def]]
  obtain def where p: "b = a" "inst_Status (w_inst w a) = StatusFailed"
    "GetWorkflow (inst_Name (w_inst w a)) (legacy_version (inst_Version (w_inst w a))) (w_workflows w) = Inr def"
    "exec_post 0 (length (def_Steps def)) (inst_Input (w_inst w a)) erro ?x (w_inst w' a)"
    by blast
  have id: "inst_ID (w_inst w a) = i" using mem_inv_lookup [OF assms(2,4)] by (simp add: w_inst_def)
  have x: "cached ?x k = cached (w_inst w a) k" for k by (simp add: cached_def)
  have "inst_ID (w_inst w' a) = i" "inst_Input (w_inst w' a) = inst_Input (w_inst w a)"
    "\<forall>k v. cached (w_inst w a) k = Some v \<longrightarrow> cached (w_inst w' a) k = Some v"
    using p(4) id x by (simp_all add: exec_post_def same_identity_def keeps_results_def)
  moreover have "case erro of
       None \<Rightarrow> inst_Status (w_inst w' a) = StatusCompleted \<and> inst_Err (w_inst w' a) = None \<and>
         (\<forall>k < length (def_Steps def). cached (w_inst w' a) k \<noteq> None) \<and>
         (def_Steps def \<noteq> [] \<longrightarrow> inst_Output (w_inst w' a) = the (cached (w_inst w' a) (length (def_Steps def) - 1)))
     | Some err \<Rightarrow> stopped err (w_inst w' a) \<and> cached (w_inst w' a) (inst_CurrentStep (w_inst w' a)) = None \<and>
         (\<forall>k < inst_CurrentStep (w_inst w' a). cached (w_inst w' a) k \<noteq> None)"
    using p(4) by (cases erro) (auto simp: exec_post_def)
  ultimately show ?thesis using p(1-3) by blast
qed

text \<open>
  Only FAILED instances can be resumed and only WAITING ones signalled, an unknown
  instance is reported, and an instance leased to another engine is reported as locked; in
  all these cases nothing at all is changed.
\<close>

theorem inline_refusals:
  assumes "e_instances e = memoryStore"
  shows "(map_of (w_store w) i = None \<longrightarrow>
      ResumeNow e R c i w = (Done (None, Some (ErrMsg (''instance not found: '' @ i))), w) \<and>
      SignalNow e R c i name payload w = (Done (None, Some (ErrMsg (''instance not found: '' @ i))), w)) \<and>
    (map_of (w_store w) i = Some a \<and> inst_Status (w_inst w a) \<noteq> StatusFailed \<longrightarrow>
      (\<exists>s. ResumeNow e R c i w = (Done (None, Some (ErrMsg (''cannot resume instance '' @ i @ s))), w))) \<and>
    (map_of (w_store w) i = Some a \<and> inst_Status (w_inst w a) \<noteq> StatusWaiting \<longrightarrow>
      (\<exists>s. SignalNow e R c i name payload w = (Done (None, Some (ErrMsg (''cannot signal instance '' @ i @ s))), w))) \<and>
    (map_of (w_store w) i = Some a \<and> inst_lease (w_inst w a) = Leased owner x \<and> owner \<noteq> e_engineID e \<and>
      w_clock w < x \<and> zero_time < x \<longrightarrow>
      (inst_Status (w_inst w a) = StatusFailed \<longrightarrow>
        ResumeNow e R c i w = (Done (None, Some ErrWorkflowInstanceLocked), w)) \<and>
      (inst_Status (w_inst w a) = StatusWaiting \<longrightarrow>
        SignalNow e R c i name payload w = (Done (None, Some ErrWorkflowInstanceLocked), w)))"
  using mem_acquire_locked [OF assms, of w i a owner x c]
  by (auto simp: ResumeNow_def SignalNow_def resumeInline_def signalInline_def mem_load [OF assms] not_found_def errors_Is_def)

definition locked_world :: "(instances, unit, history, unit) world" where
  "locked_world = failed_world\<lparr>w_heap := map (\<lambda>x. x\<lparr>inst_LeaseOwner := ''e2'', inst_LeaseExpiresAt := 2000\<rparr>) (w_heap failed_world)\<rparr>"

lemma locked_world_sel:
  "map_of (w_store locked_world) ''wf-1'' = Some 0" "inst_Status (w_inst locked_world 0) = StatusFailed"
  "inst_lease (w_inst locked_world 0) = Leased ''e2'' 2000" "w_clock locked_world = 1000"
  by (simp_all add: locked_world_def failed_world_def sample_world_def w_inst_def deref_def inst_lease_def new_instance_def)

theorem inline_refusals_witness:
  "ResumeNow sample_engine (step_runner sample_engine 0 0) Background ''wf-1'' locked_world =
     (Done (None, Some ErrWorkflowInstanceLocked), locked_world)"
  using inline_refusals [OF sample_engine_sel(1), of locked_world "''wf-1''" "step_runner sample_engine 0 0" Background _ _ 0 "''e2''" 2000]
  by (simp add: locked_world_sel zero_time_def)

theorem ResumeNow_outcome_witness:
  "\<exists>w'. ResumeNow sample_engine (step_runner sample_engine 0 0) Background ''wf-1'' failed_world = (Done (Some 0, None), w') \<and>
     inst_Status (w_inst w' 0) = StatusCompleted \<and> cached (w_inst w' 0) 0 = Some (VInt 5)"
proof -
  let ?R = "step_runner sample_engine 0 0"
  have "fst (ResumeNow sample_engine ?R Background ''wf-1'' failed_world) = Done (Some 0, None)"
    unfolding failed_world_eq by (simp add: engine_eval)
  then obtain w' where res: "ResumeNow sample_engine ?R Background ''wf-1'' failed_world = (Done (Some 0, None), w')"
    by (metis prod.collapse)
  have c0: "cached (w_inst failed_world 0) 0 = Some (VInt 5)" and st: "map_of (w_store failed_world) ''wf-1'' = Some 0"
    by (simp_all add: failed_world_def cached_def w_inst_def deref_def)
  from ResumeNow_outcome [OF sample_engine_sel(1) failed_world_inv _ st res] c0
  have "inst_Status (w_inst w' 0) = StatusCompleted \<and> cached (w_inst w' 0) 0 = Some (VInt 5)" by auto
  with res show ?thesis by blast
qed

text \<open>
  C29: Signals that do not match are ignored. On the in-memory store, if an instance waits at a \<^verbatim>\<open>WaitForSignalStep\<close>
  for signal \<open>sig\<close>, the engine can take it over (\<open>signalable\<close>: its status is WAITING, it is not leased or leased to this
  engine, its definition is registered with the same fingerprint) and the context is never cancelled, then
  delivering a signal of another name returns, reports that the instance still
  waits for \<open>sig\<close>, and leaves it WAITING at the same step with the same step results.
\<close>

theorem mismatched_signal_keeps_waiting:
  assumes "e_instances e = memoryStore" "ctx_cancel c = None" "signalable e c i a def w"
    and "inst_CurrentStep (w_inst w a) = k" "k < length (def_Steps def)"
    and "step_Fn (def_Steps def ! k) = Some (WaitForSignalStep sig)" "cached (w_inst w a) k = None" "name \<noteq> sig"
  shows "\<exists>w'. SignalNow e (step_runner e n d) c i name payload w =
      (Done (Some a, Some (NewWaitForSignalError sig)), w') \<and>
    inst_Status (w_inst w' a) = StatusWaiting \<and> inst_CurrentStep (w_inst w' a) = k \<and>
    inst_StepResults (w_inst w' a) = inst_StepResults (w_inst w a)"
proof -
  have g: "computes mem_inv (step_runner e n d) (step_Fn (def_Steps def ! inst_CurrentStep (w_inst w a))) (wait_fn sig)"
    using assms(4,6) computes_WaitForSignal by simp
  obtain w' where w': "SignalNow e (step_runner e n d) c i name payload w = (Done (Some a, Some (NewWaitForSignalError sig)), w')"
    "core w' a = (core w a)\<lparr>inst_Status := StatusWaiting, inst_Err := None, inst_Input := SignalPayload name payload,
       inst_Output := WaitMeta ''signal'' False\<rparr>"
    using mem_signal_mismatch [OF assms(1) mem_engine.step_runner_frame [OF assms(1)] assms(2,3) _ g _ assms(8), of payload] assms(4,5,7)
    by (auto simp: SignalNow_def)
  have "inst_Status (core w' a) = StatusWaiting" "inst_CurrentStep (core w' a) = k"
    "inst_StepResults (core w' a) = inst_StepResults (core w a)" unfolding w'(2) using assms(4) by simp_all
  with w'(1) show ?thesis by auto
qed

definition wait_def :: "unit WorkflowDefinition" where
  "wait_def = \<lparr>def_Name = ''wf'', def_Version = ''v1'', def_Fingerprint = ''fp'',
     def_Steps = [\<lparr>step_Name = ''ask'', step_Fn = Some (WaitForSignalStep ''go''), step_Retry = None\<rparr>,
                  pure_step ''inc'' ''main.inc'' sample_inc None]\<rparr>"

definition waiting_world :: "(instances, unit, history, unit) world" where
  "waiting_world = sample_world\<lparr>w_workflows := [(''wf'', [(''v1'', wait_def)])],
     w_heap := [new_instance ''wf-1'' wait_def StatusWaiting VNil], w_store := [(''wf-1'', 0)]\<rparr>"

lemma waiting_signalable: "signalable sample_engine Background ''wf-1'' 0 wait_def waiting_world"
  by (simp add: signalable_def waiting_world_def mem_inv_def w_inst_def deref_def new_instance_def inst_lease_def
      GetWorkflow_def legacy_version_def) (simp add: wait_def_def)

lemma waiting_sel: "inst_CurrentStep (w_inst waiting_world 0) = 0" "cached (w_inst waiting_world 0) 0 = None"
  "step_Fn (def_Steps wait_def ! 0) = Some (WaitForSignalStep ''go'')" "0 < length (def_Steps wait_def)"
  by (simp_all add: waiting_world_def w_inst_def deref_def new_instance_def cached_def) (simp_all add: wait_def_def)

theorem mismatched_signal_keeps_waiting_witness:
  "\<exists>w'. SignalNow sample_engine (step_runner sample_engine 0 0) Background ''wf-1'' ''stop'' VNil waiting_world =
      (Done (Some 0, Some (NewWaitForSignalError ''go'')), w') \<and> inst_Status (w_inst w' 0) = StatusWaiting"
  using mismatched_signal_keeps_waiting [OF sample_engine_sel(1) _ waiting_signalable waiting_sel(1,4,3,2), of "''stop''" 0 0 VNil]
  by auto

text \<open>
  C14: A matching signal is delivered. On the in-memory store, if an instance waits at a \<^verbatim>\<open>WaitForSignalStep\<close> for signal
  \<open>sig\<close>, the engine can take it over (\<open>signalable\<close>: its status is WAITING, it is not leased or leased to this engine,
  its definition is registered with the same fingerprint) and the context is never cancelled, then delivering that signal makes the payload the result of the waiting step, whatever
  the steps after it do.
\<close>

theorem matching_signal_delivered:
  assumes "e_instances e = memoryStore" "ctx_cancel c = None" "signalable e c i a def w"
    and "inst_CurrentStep (w_inst w a) = k" "k < length (def_Steps def)"
    and "step_Fn (def_Steps def ! k) = Some (WaitForSignalStep sig)" "cached (w_inst w a) k = None"
  shows "cached (w_inst (snd (SignalNow e (step_runner e n d) c i sig payload w)) a) k = Some payload"
proof -
  have g: "computes mem_inv (step_runner e n d) (step_Fn (def_Steps def ! inst_CurrentStep (w_inst w a))) (wait_fn sig)"
    using assms(4,6) computes_WaitForSignal by simp
  show ?thesis
    using mem_signal_match [OF assms(1) mem_engine.step_runner_frame [OF assms(1)] assms(2,3) _ g _ prod.collapse [symmetric], of payload]
      assms(4,5,7) by (simp add: SignalNow_def)
qed

theorem matching_signal_delivered_witness:
  "cached (w_inst (snd (SignalNow sample_engine (step_runner sample_engine 0 0) Background ''wf-1'' ''go'' (VInt 7) waiting_world)) 0) 0 =
     Some (VInt 7)"
  using matching_signal_delivered [OF sample_engine_sel(1) _ waiting_signalable waiting_sel(1,4,3,2), of 0 0 "VInt 7"] by simp

section \<open>Retries\<close>

text \<open>
  Retries of a failing step. A step that fails at once, every time, with an error that does
  not ask to wait is invoked exactly \<^verbatim>\<open>MaxAttempts\<close> times (once without a policy), the run stops with that error, and
  the time spent is the sum of the delays of its retry policy.
\<close>

theorem failing_step_retried:
  assumes "ctx_cancel c = None" "\<not> is_wait err"
    and "run_attempts e (step_runner e n d) c a i (pure_step name fn (\<lambda>v. Inl err) retry) v w = (r, w')"
    and "rs = step_settings retry"
  shows "r = Stop err \<and> starts i w' = starts i w + nat (rs_maxAttempts rs) \<and>
    w_clock w' = w_clock w + sum_list (retry_delays (e_conv e) rs (nat (rs_maxAttempts rs) - 1) (rs_backoff rs))"
proof -
  have R: "step_runner e n d (step_Fn (pure_step name fn (\<lambda>v. Inl err) retry)) c' v w = (Done (Inl err), w)" for c' w
    by (simp add: pure_step_def step_runner_pure)
  have al: "attempt_loop e (step_runner e n d) c a i (pure_step name fn (\<lambda>v. Inl err) retry) rs (nat (rs_maxAttempts rs) - 1)
      (rs_backoff rs) v w = (r, w')"
    using assms(3,4) by (simp add: run_attempts_def pure_step_def Let_def)
  have "0 < nat (rs_maxAttempts rs)" by (simp add: assms(4) step_settings_def split: option.splits)
  with failing_step_attempts [where R = "step_runner e n d" and step = "pure_step name fn (\<lambda>v. Inl err) retry", OF assms(1,2) R al]
  show ?thesis by simp
qed

theorem failing_step_retried_witness:
  "starts 1 (snd (run_attempts sample_engine (step_runner sample_engine 0 0) Background 0 1
      (pure_step ''check'' ''main.check'' (\<lambda>v. Inl (ErrMsg ''negative'')) (Some sample_retry)) (VInt 4) failed_world)) = 3"
  using failing_step_retried [OF _ _ prod.collapse [symmetric] refl, of Background "ErrMsg ''negative''" sample_engine 0 0 0 1
      "''check''" "''main.check''" "Some sample_retry" "VInt 4" failed_world]
  by (simp add: is_wait_def step_settings_def sample_retry_def) (simp add: failed_world_eq starts_def)

text \<open>
  C30: The backoff schedule. For a policy with an integral multiplier \<open>k\<close>, a positive initial backoff that is not above
  the cap, and a cap such that cap times \<open>k\<close> is below two to the 53 nanoseconds (104 days), the delay before retry
  \<open>j + 1\<close> is the initial backoff times \<open>k\<close> to the \<open>j\<close>, capped, for every \<open>j\<close> and without rounding error. A step with this
  policy that fails at once, every time, with an error that does not ask to wait, and with a context that is never
  cancelled, is invoked \<^verbatim>\<open>MaxAttempts\<close> times, and the time that passes is the sum of these delays.
\<close>

theorem backoff_schedule:
  assumes "0 < initial" "initial \<le> mx" "0 < k" "mx * k < 2 ^ 53"
    and "policy = Policy (WithExponentialBackoff initial (of_int k) mx (Retry m))" "rs = step_settings (Some policy)"
    and "attempts = nat (rs_maxAttempts rs)"
  shows "retry_delays conv rs j (rs_backoff rs) = map (\<lambda>j. min mx (initial * k ^ j)) [0..<j] \<and>
    (ctx_cancel c = None \<and> \<not> is_wait err \<and>
      run_attempts e (step_runner e n d) c a i (pure_step name fn (\<lambda>v. Inl err) (Some policy)) v w = (r, w') \<longrightarrow>
        r = Stop err \<and> starts i w' = starts i w + attempts \<and>
        w_clock w' = w_clock w + sum_list (map (\<lambda>j. min mx (initial * k ^ j)) [0..<attempts - 1]))"
proof -
  have rs: "rs_maxBackoff rs = mx" "rs_multiplier rs = of_int k" "rs_backoff rs = initial"
    using assms(1-3,5,6) by (simp_all add: step_settings_def Policy_def WithExponentialBackoff_def)
  then have d: "retry_delays cv rs j (rs_backoff rs) = map (\<lambda>j. min mx (initial * k ^ j)) [0..<j]" for cv j
    using retry_delays_capped [of rs k initial cv j] assms(1-4) by simp
  with failing_step_retried [OF _ _ _ assms(6), of c err e n d a i name fn v w r w'] assms(7) show ?thesis by simp
qed

theorem backoff_schedule_witness:
  "retry_delays (\<lambda>r. 0) (step_settings (Some (Policy (WithExponentialBackoff (100 * Millisecond) (of_int 2) (300 * Millisecond) (Retry 5)))))
     4 (100 * Millisecond) = [100 * Millisecond, 200 * Millisecond, 300 * Millisecond, 300 * Millisecond] \<and>
   w_clock (snd (run_attempts sample_engine (step_runner sample_engine 0 0) Background 0 1 (pure_step ''check'' ''main.check''
      (\<lambda>v. Inl (ErrMsg ''negative'')) (Some (Policy (WithExponentialBackoff (100 * Millisecond) (of_int 2) (300 * Millisecond) (Retry 5)))))
      (VInt 4) failed_world)) = 1000 + 900 * Millisecond"
proof -
  let ?p = "Policy (WithExponentialBackoff (100 * Millisecond) (of_int 2) (300 * Millisecond) (Retry 5))"
  have n: "nat (rs_maxAttempts (step_settings (Some ?p))) = 5" "rs_backoff (step_settings (Some ?p)) = 100 * Millisecond"
    by (simp_all add: step_settings_def Policy_def WithExponentialBackoff_def Retry_def Millisecond_def)
  have p: "0 < 100 * Millisecond" "100 * Millisecond \<le> 300 * Millisecond" "300 * Millisecond * 2 < 2 ^ 53" by (simp_all add: Millisecond_def)
  let ?run = "run_attempts sample_engine (step_runner sample_engine 0 0) Background 0 1
     (pure_step ''check'' ''main.check'' (\<lambda>v. Inl (ErrMsg ''negative'')) (Some ?p)) (VInt 4) failed_world"
  note t = backoff_schedule [OF p(1,2) _ p(3) refl refl refl, where m = 5]
  have "retry_delays (\<lambda>r. 0) (step_settings (Some ?p)) 4 (100 * Millisecond) =
      [100 * Millisecond, 200 * Millisecond, 300 * Millisecond, 300 * Millisecond]"
    using t [THEN conjunct1, of "\<lambda>r. 0" 4] n(2) by (simp add: Millisecond_def upt_rec)
  moreover have "w_clock (snd ?run) = w_clock failed_world + sum_list (map (\<lambda>j. min (300 * Millisecond) (100 * Millisecond * 2 ^ j)) [0..<5 - 1])"
    using t [THEN conjunct2, of Background "ErrMsg ''negative''" sample_engine 0 0 0 1 "''check''" "''main.check''" "VInt 4" failed_world "fst ?run" "snd ?run"]
    unfolding n(1) by (simp add: is_wait_def)
  ultimately show ?thesis by (simp add: failed_world_eq Millisecond_def upt_rec)
qed

text \<open>
  With any policy that has a cap, no delay between attempts exceeds it, and no policy makes the
  engine wait a negative time.
\<close>

theorem backoff_bounded:
  assumes "0 < rs_maxBackoff rs" "delay \<in> set (retry_delays conv rs n backoff)"
  shows "0 \<le> delay \<and> delay \<le> rs_maxBackoff rs"
  using retry_delays_bound [OF assms] by blast

theorem backoff_bounded_witness:
  "0 \<le> (50::int) \<and> (50::int) \<le> rs_maxBackoff \<lparr>rs_maxAttempts = 3, rs_backoff = 80, rs_maxBackoff = 50, rs_multiplier = 2\<rparr>"
  by (rule backoff_bounded [of _ _ "\<lambda>r. 0" 1 80]) (simp_all add: attempt_delay_def)

section \<open>Registration and recovery\<close>

text \<open>
  Registration. Registering a definition under a free name and version makes exactly that
  definition available (with its version and fingerprint filled in); registering over an
  existing one changes nothing and succeeds if the fingerprints agree, and is refused with
  \<^verbatim>\<open>ErrWorkflowDefinitionMismatch\<close> otherwise. No registered definition is ever replaced.
\<close>

theorem RegisterWorkflow_contract:
  assumes "ws_inv (w_workflows w)" "def_Name def \<noteq> ''''" "def_Steps def \<noteq> []"
    and "RegisterWorkflow e def w = (r, w')" "d2 = normalize_def e def"
  shows "(\<forall>nm v d. GetWorkflow nm v (w_workflows w) = Inr d \<longrightarrow> GetWorkflow nm v (w_workflows w') = Inr d) \<and>
    (case GetWorkflow (def_Name def) (legacy_version (def_Version def)) (w_workflows w) of
       Inr d \<Rightarrow> w' = w \<and> (if def_Fingerprint d = def_Fingerprint d2 then r = None
         else \<exists>er. r = Some er \<and> errors_Is er ErrWorkflowDefinitionMismatch)
     | Inl _ \<Rightarrow> r = None \<and> GetWorkflow (def_Name def) (legacy_version (def_Version def)) (w_workflows w') = Inr d2) \<and>
    ws_inv (w_workflows w')"
  using RegisterWorkflow_cases [OF assms(1,4,2,3,5)] assms(1,5) by (auto split: sum.splits if_splits)

text \<open>Another definition under the same name and version, whose first step is nil.\<close>

definition changed_def :: "unit WorkflowDefinition" where
  "changed_def = sample_def\<lparr>def_Steps :=
     [\<lparr>step_Name = ''crash'', step_Fn = None, step_Retry = None\<rparr>,
      pure_step ''check'' ''main.check'' sample_check (Some sample_retry)]\<rparr>"

theorem RegisterWorkflow_contract_witness:
  "GetWorkflow ''wf'' ''v1'' (w_workflows (snd (RegisterWorkflow sample_engine (changed_def\<lparr>def_Fingerprint := ''other''\<rparr>) sample_world))) =
     Inr sample_def"
proof -
  let ?d = "changed_def\<lparr>def_Fingerprint := ''other''\<rparr>"
  have ws: "ws_inv (w_workflows sample_world)" and n: "def_Name ?d \<noteq> ''''" "def_Steps ?d \<noteq> []"
    and g: "GetWorkflow ''wf'' ''v1'' (w_workflows sample_world) = Inr sample_def"
    by (simp_all add: sample_world_def ws_inv_def keys_def GetWorkflow_def) (simp_all add: changed_def_def sample_def_def)
  show ?thesis using RegisterWorkflow_contract [OF ws n prod.collapse [symmetric] refl, of sample_engine] g by blast
qed

text \<open>
  C33: Recovery. \<^verbatim>\<open>RecoverStuckInstances\<close> on the in-memory store succeeds, reports the number of
  instances that were RUNNING, leaves no instance RUNNING, marks exactly those FAILED with the
  standard error, and changes nothing else of any instance.
\<close>

theorem RecoverStuckInstances_contract:
  assumes "e_instances e = memoryStore" "mem_inv (w_heap w, w_store w)"
  shows "\<exists>w'. RecoverStuckInstances e w =
      ((card {i. \<exists>a. map_of (w_store w) i = Some a \<and> inst_Status (w_inst w a) = StatusRunning}, None), w') \<and>
    (\<forall>i a. map_of (w_store w) i = Some a \<longrightarrow>
       map_of (w_store w') i = Some a \<and>
       w_inst w' a = (if inst_Status (w_inst w a) = StatusRunning
         then (w_inst w a)\<lparr>inst_Status := StatusFailed, inst_Err := Some stuck_error\<rparr> else w_inst w a))"
proof -
  let ?as = "filter (\<lambda>a. inst_Status (w_inst w a) = StatusRunning) (map snd (w_store w))"
  have dk: "distinct (keys (w_store w))" using assms(2) by (simp add: mem_inv_def)
  have "fst p = inst_ID (deref (w_heap w) (snd p))" if "p \<in> set (w_store w)" for p
    using assms(2) that by (auto simp: mem_inv_def)
  then have inj: "inj_on snd (set (w_store w))" by (metis inj_onI prod.expand)
  have reg: "\<exists>i. map_of (w_store w) i = Some a" if "a \<in> set (map snd (w_store w))" for a
    using that dk by (auto simp: keys_def)
  have "distinct (map snd (w_store w))"
    using inj dk by (simp add: distinct_map keys_def)
  then have d: "distinct ?as" by simp
  have "\<forall>a \<in> set ?as. inst_Status (w_inst w a) = StatusRunning \<and> (\<exists>i. map_of (w_store w) i = Some a)"
    using reg by auto
  from mem_recover_loop [OF assms d this, of 0] obtain w' where
    w': "recover_loop e ?as 0 w = ((length ?as, None), w')" "map_of (w_store w') = map_of (w_store w)"
    "\<forall>b. w_inst w' b = (if b \<in> set ?as then mark_failed stuck_error (w_inst w b) else w_inst w b)" by auto
  have "RecoverStuckInstances e w = recover_loop e ?as 0 w"
    using assms(1) by (simp add: RecoverStuckInstances_def Mem_ListInstances_def matches_filter_def w_inst_def)
  moreover have "length ?as = card {i. \<exists>a. map_of (w_store w) i = Some a \<and> inst_Status (w_inst w a) = StatusRunning}"
  proof -
    let ?I = "{i. \<exists>a. map_of (w_store w) i = Some a \<and> inst_Status (w_inst w a) = StatusRunning}"
    let ?f = "\<lambda>i. the (map_of (w_store w) i)"
    have "inj_on ?f ?I" using mem_addr_unique [OF assms(2)] by (auto simp: inj_on_def)
    moreover have "?f ` ?I = set ?as"
    proof (intro equalityI subsetI)
      fix a assume "a \<in> ?f ` ?I"
      then obtain i where "map_of (w_store w) i = Some a" "inst_Status (w_inst w a) = StatusRunning" by auto
      then have "(i, a) \<in> set (w_store w)" "inst_Status (w_inst w a) = StatusRunning" by (simp_all add: map_of_SomeD)
      then show "a \<in> set ?as" by force
    next
      fix a assume a: "a \<in> set ?as"
      then obtain i where "map_of (w_store w) i = Some a" using reg by auto
      with a show "a \<in> ?f ` ?I" by (intro image_eqI [of _ _ i]) auto
    qed
    ultimately have "bij_betw ?f ?I (set ?as)" by (simp add: bij_betw_def)
    then have "card ?I = card (set ?as)" by (rule bij_betw_same_card)
    then show ?thesis using distinct_card [OF d] by simp
  qed
  moreover have "a \<in> set ?as \<longleftrightarrow> inst_Status (w_inst w a) = StatusRunning" if "map_of (w_store w) i = Some a" for i a
    using map_of_SomeD [OF that] by force
  ultimately show ?thesis using w' by (intro exI [of _ w']) (simp add: mark_failed_def)
qed

text \<open>An instance that was left RUNNING beside one that failed.\<close>

definition stuck_world :: "(instances, unit, history, unit) world" where
  "stuck_world = sample_world\<lparr>
     w_heap := [new_instance ''wf-1'' sample_def StatusFailed (VInt 4), new_instance ''wf-2'' sample_def StatusRunning (VInt 5)],
     w_store := [(''wf-1'', 0), (''wf-2'', 1)]\<rparr>"

theorem RecoverStuckInstances_contract_witness:
  "\<exists>w'. RecoverStuckInstances sample_engine stuck_world = ((1, None), w') \<and>
     inst_Status (w_inst w' 1) = StatusFailed \<and> inst_Err (w_inst w' 1) = Some stuck_error \<and>
     w_inst w' 0 = w_inst stuck_world 0"
proof -
  have sel: "w_store stuck_world = [(''wf-1'', 0), (''wf-2'', 1)]" "inst_Status (w_inst stuck_world 0) = StatusFailed"
    "inst_Status (w_inst stuck_world (Suc 0)) = StatusRunning"
    by (simp_all add: stuck_world_def w_inst_def deref_def new_instance_def)
  have inv: "mem_inv (w_heap stuck_world, w_store stuck_world)"
    by (auto simp: stuck_world_def mem_inv_def deref_def new_instance_def)
  have "{i. \<exists>a. map_of (w_store stuck_world) i = Some a \<and> inst_Status (w_inst stuck_world a) = StatusRunning} = {''wf-2''}"
    using sel by auto
  with RecoverStuckInstances_contract [OF sample_engine_sel(1) inv] obtain w' where
    w': "RecoverStuckInstances sample_engine stuck_world = ((1, None), w')"
    and eff: "\<forall>i a. map_of (w_store stuck_world) i = Some a \<longrightarrow> map_of (w_store w') i = Some a \<and>
       w_inst w' a = (if inst_Status (w_inst stuck_world a) = StatusRunning
         then (w_inst stuck_world a)\<lparr>inst_Status := StatusFailed, inst_Err := Some stuck_error\<rparr> else w_inst stuck_world a)"
    by auto
  from eff [rule_format, of "''wf-1''" 0] eff [rule_format, of "''wf-2''" 1] sel w' show ?thesis by auto
qed

end
