(* ===== verification/Queue_Props.thy ===== *)
theory Queue_Props
  imports Memory_Queue Sqlite_Queue
begin

text \<open>
  Properties of the task queues, for the in-memory and the SQLite back end: exclusive leases,
  no lost tasks, delivery, order, and the termination of the polling loop.
\<close>

section \<open>The polling loop\<close>

lemma Dequeue_loop_terminates:
  assumes "0 < q_pollInterval Q" "ctx_cancel c = Some (d, e)" "d \<le> now + int n * q_pollInterval Q"
  shows "Dequeue_loop Q (Suc n) c owner ttl now q \<noteq> None"
  using assms
proof (induction n arbitrary: now q)
  case 0
  then show ?case by (simp add: ctx_Err_def)
next
  case (Suc n)
  have "d \<le> now + q_pollInterval Q + int n * q_pollInterval Q"
    using Suc.prems(3) by (simp add: distrib_right)
  with Suc.IH [OF Suc.prems(1,2)] have "Dequeue_loop Q (Suc n) c owner ttl (now + q_pollInterval Q) q' \<noteq> None" for q'
    by blast
  with Suc.prems(2) show ?case
    unfolding Dequeue_loop.simps(2) [of Q "Suc n"] by (auto split: option.splits sum.splits prod.splits)
qed

section \<open>Fixtures\<close>

definition leased_task :: Task where
  "leased_task = zero_Task\<lparr>task_ID := ''1'', task_Type := TaskTypeResume, task_InstanceID := ''wf-1''\<rparr>"

definition leased_queue :: InMemoryQueue where
  "leased_queue = \<lparr>mq_nextID = 1, mq_ready = [],
     mq_inflight = [(''1'', \<lparr>lt_task = leased_task, lt_owner = ''w1'', lt_expiry = 100\<rparr>)]\<rparr>"

definition ready_queue :: InMemoryQueue where
  "ready_queue = \<lparr>mq_nextID = 1, mq_ready = [leased_task], mq_inflight = []\<rparr>"

definition plain_gob :: gob where
  "plain_gob = \<lparr>gob_registered = (\<lambda>n. False), gob_struct = (\<lambda>t fs. None),
     gob_error = (\<lambda>v. ErrMsg (''gob: type not registered for interface: '' @ type_name v)),
     gob_map_error = (\<lambda>m. ErrMsg ''gob: type not registered for interface'')\<rparr>"

definition sample_row :: "int \<Rightarrow> string \<Rightarrow> int \<Rightarrow> task_row" where
  "sample_row k owner x = \<lparr>tr_id = k, tr_type = TaskTypeResume, tr_workflow_name = '''', tr_instance_id = ''wf-1'',
     tr_signal_name = '''', tr_payload = None, tr_enqueued_at = 0, tr_not_before = 0, tr_attempts = 0,
     tr_leased_by = owner, tr_lease_expires_at = x\<rparr>"

definition leased_table :: task_table where
  "leased_table = \<lparr>tt_seq = 1, tt_rows = [sample_row 1 ''w1'' 100]\<rparr>"

definition ready_table :: task_table where
  "ready_table = \<lparr>tt_seq = 2, tt_rows = [sample_row 1 '''' 0, sample_row 2 '''' 0]\<rparr>"

lemma FormatInt_1: "FormatInt 1 = ''1''" and FormatInt_2: "FormatInt 2 = ''2''"
  by code_simp+

lemma leased_queue_inv: "mq_inv leased_queue" "mq_inv ready_queue"
proof -
  have "keys (mq_entries leased_queue) = [''1'']" "keys (mq_entries ready_queue) = [''1'']"
    unfolding keys_mq_entries by (simp_all add: leased_queue_def ready_queue_def keys_def leased_task_def)
  then show "mq_inv leased_queue" "mq_inv ready_queue"
    by (simp_all add: mq_inv_def leased_queue_def ready_queue_def leased_task_def)
qed

lemma fixture_views:
  "mq_view leased_queue = [''1'' \<mapsto> (leased_task, Leased ''w1'' 100)]"
  "mq_view ready_queue = [''1'' \<mapsto> (leased_task, Free)]"
  by (auto simp: mq_view_def mq_entries_def leased_queue_def ready_queue_def ready_entry_def leased_task_def)

lemma sample_row_task [simp]: "row_task (sample_row 1 owner x) VNil = leased_task\<lparr>task_EnqueuedAt := 0, task_NotBefore := 0\<rparr>"
  by (simp add: row_task_def sample_row_def leased_task_def zero_Task_def FormatInt_1)

lemma table_inv: "sq_inv plain_gob leased_table" "sq_inv plain_gob ready_table"
  by (simp_all add: sq_inv_def leased_table_def ready_table_def sample_row_def int64_def maxRowID_def decodePayload_def)

lemma table_views:
  "sq_view plain_gob leased_table ''1'' = Some (leased_task\<lparr>task_EnqueuedAt := 0, task_NotBefore := 0\<rparr>, Leased ''w1'' 100)"
  "sq_view plain_gob ready_table ''1'' = Some (leased_task\<lparr>task_EnqueuedAt := 0, task_NotBefore := 0\<rparr>, Free)"
proof -
  have s: "tr_id (sample_row k w x) = k" "tr_payload (sample_row k w x) = None" "tr_leased_by (sample_row k w x) = w"
    "tr_lease_expires_at (sample_row k w x) = x" for k w x by (simp_all add: sample_row_def)
  show "sq_view plain_gob leased_table ''1'' = Some (leased_task\<lparr>task_EnqueuedAt := 0, task_NotBefore := 0\<rparr>, Leased ''w1'' 100)"
    "sq_view plain_gob ready_table ''1'' = Some (leased_task\<lparr>task_EnqueuedAt := 0, task_NotBefore := 0\<rparr>, Free)"
    by (simp_all add: sq_view_def leased_table_def ready_table_def s FormatInt_1 row_value_def decodePayload_def row_lease_def)
qed

section \<open>Properties\<close>

text \<open>
  C3: A lease excludes other workers. While a task of the in-memory queue is leased and the lease
  has not run out, no sequence of calls by other workers (and no other call of the owner's) hands
  the task out again or takes the lease away, in whatever order the calls come, provided that no task is
  enqueued under an identifier that is in the queue at that moment: \<^verbatim>\<open>Enqueue\<close> takes the identifier its caller
  has set without looking, and the worker sets one when it falls back from a refused \<^verbatim>\<open>Nack\<close>. The calls are those of
  workers that have a name and ask for leases of a positive duration.
\<close>

theorem memory_lease_exclusive:
  assumes "mq_inv q" "qops_ok memoryQueue mq_fresh (\<lambda>_. True) (\<lambda>_. True) (now, q) ops" "mq_view q i = Some (t, Leased owner x)"
    and "qrun memoryQueue ops (now, q) = (ds, now', q')" "now' < x" "\<forall>op \<in> set ops. \<not> touches owner i op"
  shows "mq_view q' i = Some (t, Leased owner x) \<and> (\<forall>(w, t') \<in> set ds. task_ID t' \<noteq> i)"
  using mem_queue.held_lease_excludes [OF assms(1) TrueI assms(2-6)] .

theorem memory_lease_exclusive_witness:
  "mq_view (snd (snd (qrun memoryQueue [QEnqueue (leased_task\<lparr>task_ID := ''7''\<rparr>), QPoll ''w2'' 5, QAck ''1'' ''w2'', QTick 99]
    (0, leased_queue)))) ''1'' = Some (leased_task, Leased ''w1'' 100)"
proof -
  let ?ops = "[QEnqueue (leased_task\<lparr>task_ID := ''7''\<rparr>), QPoll ''w2'' 5, QAck ''1'' ''w2'', QTick 99]"
  obtain ds now' q' where r: "qrun memoryQueue ?ops (0, leased_queue) = (ds, now', q')"
    by (cases "qrun memoryQueue ?ops (0, leased_queue)")
  have "fst (snd (qrun memoryQueue ?ops (0, leased_queue))) = 99"
    by (simp add: qexec_def queue_simps leased_queue_def leased_task_def zero_Task_def IsZero_def Let_def split_beta)
  then have t: "now' < 100" unfolding r by simp
  have "mq_fresh leased_queue (leased_task\<lparr>task_ID := ''7''\<rparr>)"
    by (simp add: mq_fresh_def mq_assigned_def keys_mq_entries leased_queue_def)
  with memory_lease_exclusive [OF leased_queue_inv(1) _ _ r t, of "''1''" leased_task "''w1''"]
  show ?thesis by (simp add: fixture_views r del: qrun.simps)
qed

text \<open>
  C8: A lease of the SQLite queue excludes other workers. While the row of a task is leased and the
  lease has not run out, no sequence of calls by other workers (and no other call of the owner's)
  hands the task out again or takes the lease away, for clock readings that fit into 64-bit
  nanoseconds and whatever types the application has registered with gob. The calls are those of workers that have
  a name and ask for leases of a positive duration. An identifier that a task
  brings along does not matter: the table issues its own.
\<close>

theorem sqlite_lease_exclusive:
  assumes "sq_inv G q" "int64 now" "qops_ok (sqliteQueue G) (\<lambda>_ _. True) canonical_id int64 (now, q) ops" "sq_view G q i = Some (t, Leased owner x)"
    and "qrun (sqliteQueue G) ops (now, q) = (ds, now', q')" "now' < x" "\<forall>op \<in> set ops. \<not> touches owner i op"
  shows "sq_view G q' i = Some (t, Leased owner x) \<and> (\<forall>(w, t') \<in> set ds. task_ID t' \<noteq> i)"
  using sqlite_queue.held_lease_excludes [OF assms] .

theorem sqlite_lease_exclusive_witness:
  "sq_view plain_gob (snd (snd (qrun (sqliteQueue plain_gob) [QPoll ''w2'' 5, QTick 99] (0, leased_table)))) ''1'' =
    Some (leased_task\<lparr>task_EnqueuedAt := 0, task_NotBefore := 0\<rparr>, Leased ''w1'' 100)"
proof -
  let ?ops = "[QPoll ''w2'' 5, QTick 99]"
  obtain ds now' q' where r: "qrun (sqliteQueue plain_gob) ?ops (0, leased_table) = (ds, now', q')"
    by (cases "qrun (sqliteQueue plain_gob) ?ops (0, leased_table)")
  have "fst (snd (qrun (sqliteQueue plain_gob) ?ops (0, leased_table))) = 99"
    using fst_snd_qexec [of "sqliteQueue plain_gob" "QPoll ''w2'' 5" 0 leased_table]
    by (simp add: qexec_def split_beta)
  then have t: "now' < 100" unfolding r by simp
  from sqlite_lease_exclusive [OF table_inv(1) _ _ table_views(1) r t]
  show ?thesis by (simp add: int64_def r del: qrun.simps)
qed

text \<open>
  C9: No task is lost. A task stored in either queue stays stored, whatever calls are made, until
  some worker acknowledges it: crashes of workers, expired leases and failed deliveries do not
  remove it. In the in-memory queue this needs that no task is enqueued under an identifier that
  is in the queue at that moment. The calls are those of workers that have a name and ask for leases of a
  positive duration, at clock readings that the queue can represent.
\<close>

theorem unacked_task_kept:
  assumes "\<forall>op \<in> set ops. \<not> acks i op"
  shows "(mq_inv q \<and> qops_ok memoryQueue mq_fresh (\<lambda>_. True) (\<lambda>_. True) (now, q) ops \<and> i \<in> dom (mq_view q) \<longrightarrow>
      i \<in> dom (mq_view (snd (snd (qrun memoryQueue ops (now, q)))))) \<and>
    (sq_inv G q2 \<and> int64 now \<and> qops_ok (sqliteQueue G) (\<lambda>_ _. True) canonical_id int64 (now, q2) ops \<and> i \<in> dom (sq_view G q2) \<longrightarrow>
      i \<in> dom (sq_view G (snd (snd (qrun (sqliteQueue G) ops (now, q2))))))"
proof -
  obtain ds n q' where m: "qrun memoryQueue ops (now, q) = (ds, n, q')" by (cases "qrun memoryQueue ops (now, q)")
  obtain ds2 n2 q2' where s: "qrun (sqliteQueue G) ops (now, q2) = (ds2, n2, q2')"
    by (cases "qrun (sqliteQueue G) ops (now, q2)")
  show ?thesis
    using mem_queue.unacked_stays [OF _ TrueI _ _ m assms] sqlite_queue.unacked_stays [OF _ _ _ _ s assms]
    by (simp add: m s)
qed

theorem unacked_task_kept_witness:
  "''1'' \<in> dom (mq_view (snd (snd (qrun memoryQueue [QTick 500, QPoll ''w2'' 5, QNack ''1'' ''w2'' 900 1] (0, leased_queue))))) \<and>
   ''1'' \<in> dom (sq_view plain_gob (snd (snd (qrun (sqliteQueue plain_gob) [QTick 500, QPoll ''w2'' 5, QNack ''1'' ''w2'' 900 1]
     (0, leased_table)))))"
  using unacked_task_kept [of "[QTick 500, QPoll ''w2'' 5, QNack ''1'' ''w2'' 900 1]" "''1''" leased_queue 0 plain_gob leased_table]
    canonical_FormatInt [of 1] leased_queue_inv(1) table_inv(1) table_views(1)
  by (simp add: fixture_views FormatInt_1 int64_def dom_def del: qrun.simps)

text \<open>
  Tasks that bring no identifier meet this condition, in a queue whose identifiers the counter has issued,
  until the counter comes to the end of its range.
\<close>

lemma mq_issued_view: "mq_issued q \<longleftrightarrow> 0 \<le> mq_nextID q \<and> dom (mq_view q) \<subseteq> FormatInt ` {1..mq_nextID q}"
proof -
  have "dom (mq_view q) = set (keys (mq_entries q))" unfolding set_eq_iff domIff mq_view_None by simp
  then show ?thesis by (simp add: mq_issued_def)
qed

lemma InMemory_nextID:
  "mq_nextID (snd (InMemory_DequeuePoll now w ttl q)) = mq_nextID q" "mq_nextID (snd (InMemory_RenewLease now i w ttl q)) = mq_nextID q"
  "mq_nextID (snd (InMemory_Ack cerr i w q)) = mq_nextID q" "mq_nextID (snd (InMemory_Nack cerr i w nb n q)) = mq_nextID q"
proof -
  have "mq_nextID (requeueExpired now xs q) = mq_nextID q" for xs
    by (induction now xs q rule: requeueExpired.induct) auto
  then show "mq_nextID (snd (InMemory_DequeuePoll now w ttl q)) = mq_nextID q"
    by (simp add: InMemory_DequeuePoll_def Let_def split: option.split)
qed (auto simp: InMemory_RenewLease_def InMemory_Ack_def InMemory_Nack_def split: option.splits)

lemma mem_step_issued:
  assumes "mq_inv q" "mq_issued q" "mq_nextID q < 2 ^ 63 - 1" "\<And>t. op = QEnqueue t \<Longrightarrow> task_ID t = ''''"
    and "qexec memoryQueue op (now, q) = (r, now', q')"
  shows "mq_inv q' \<and> mq_issued q' \<and> mq_nextID q' \<le> mq_nextID q + 1"
proof (cases op)
  case (QEnqueue t)
  with assms(4,5) have t: "task_ID t = ''''" and e: "InMemory_Enqueue now None t q = (None, q')"
    by (simp_all add: qexec_def memoryQueue_def InMemory_Enqueue_def Let_def)
  note m = mem_enqueue [OF assms(1) mq_issued_fresh [OF assms(2,3) t] e]
  have "signed_take_bit 63 (mq_nextID q + 1) = mq_nextID q + 1"
    using assms(2,3) by (simp add: mq_issued_def signed_take_bit_int_eq_self)
  with InMemory_Enqueue_assigned(4) [OF e] t m(2,4) assms(2) show ?thesis
    by (fastforce simp: mq_issued_view mq_assigned_def)
next
  case (QPoll w ttl)
  obtain pr where p: "InMemory_DequeuePoll now w ttl q = (pr, q')"
    using assms(5) QPoll by (auto simp: qexec_def memoryQueue_def split: prod.splits sum.splits option.splits)
  with mem_poll_total obtain m where m: "pr = Inr m" by blast
  have "mq_view q i \<noteq> None" if "mq_view q' i \<noteq> None" for i
  proof (cases m)
    case None
    with mem_poll_None(3) [OF assms(1), of now w ttl q' i] p m that show ?thesis by (cases "mq_view q i") simp_all
  next
    case (Some t)
    with mem_poll_Some(2) [OF assms(1), of now w ttl t q'] p m that show ?thesis by (cases "mq_view q i"; cases "i = task_ID t") auto
  qed
  then have "dom (mq_view q') \<subseteq> dom (mq_view q)" by (simp add: subset_iff domIff)
  then have "mq_issued q'" using assms(2) p InMemory_nextID(1) [of now w ttl q] unfolding mq_issued_view by (metis order_trans snd_conv)
  moreover have "mq_inv q'"
    using mem_poll_None(1) [OF assms(1), of now w ttl q'] mem_poll_Some(1) [OF assms(1), of now w ttl _ q'] p m by (cases m) auto
  ultimately show ?thesis using p InMemory_nextID(1) [of now w ttl q] by simp
next
  case (QRenew i w ttl)
  then obtain e where e: "InMemory_RenewLease now i w ttl q = (e, q')"
    using assms(5) by (cases "InMemory_RenewLease now i w ttl q") (auto simp: qexec_def memoryQueue_def)
  show ?thesis
  proof (cases "0 < ttl")
    case True
    with mem_renew [OF assms(1) True e] InMemory_nextID(2) [of now i w ttl q] e assms(2) show ?thesis
      by (auto simp: mq_issued_view leased_by_def split: if_splits)
  next
    case False
    with e assms(1,2) show ?thesis by (simp add: InMemory_RenewLease_def)
  qed
next
  case (QAck i w)
  then obtain e where "InMemory_Ack None i w q = (e, q')"
    using assms(5) by (cases "InMemory_Ack None i w q") (auto simp: qexec_def memoryQueue_def)
  with mem_ack [OF assms(1) this] InMemory_nextID(3) [of None i w q] assms(2) show ?thesis
    by (auto simp: mq_issued_view split: if_splits)
next
  case (QNack i w nb n)
  then obtain e where "InMemory_Nack None i w nb n q = (e, q')"
    using assms(5) by (cases "InMemory_Nack None i w nb n q") (auto simp: qexec_def memoryQueue_def)
  with mem_nack [OF assms(1) this] InMemory_nextID(4) [of None i w nb n q] assms(2) show ?thesis
    by (auto simp: mq_issued_view leased_by_def split: if_splits)
qed (use assms in \<open>auto simp: qexec_def\<close>)

lemma counter_stays_fresh:
  assumes "mq_inv q" "mq_issued q" "mq_nextID q + int (length ops) < 2 ^ 63" "\<forall>t. QEnqueue t \<in> set ops \<longrightarrow> task_ID t = ''''"
    and "qops_ok memoryQueue (\<lambda>_ _. True) ident valid (now, q) ops"
  shows "qops_ok memoryQueue mq_fresh ident valid (now, q) ops"
  using assms
proof (induction ops arbitrary: now q)
  case (Cons op ops)
  obtain r now' q' where e: "qexec memoryQueue op (now, q) = (r, now', q')" by (metis prod_cases3)
  have room: "mq_nextID q < 2 ^ 63 - 1" using Cons.prems(3) by simp
  note s = mem_step_issued [OF Cons.prems(1,2) room _ e]
  have "qop_ok mq_fresh ident valid (now, q) op"
    using Cons.prems(4,5) mq_issued_fresh [OF Cons.prems(2) room] by (cases op) auto
  moreover have "qops_ok memoryQueue mq_fresh ident valid (now', q') ops"
    using s Cons.prems(3-5) e by (intro Cons.IH) auto
  ultimately show ?case by (simp add: e)
qed simp

text \<open>
  C37: An identifier that is used twice loses a task. If the task that is enqueued first brings along the number
  that the counter of the empty in-memory queue issues next, both tasks are handed out, to whichever workers
  poll, but the second lease replaces the first: one of the two tasks is gone although neither has been
  acknowledged.
\<close>

theorem reused_identifier_loses_task:
  assumes "mq_ready q = []" "mq_inflight q = []" "task_ID t1 = mq_assigned q (t2\<lparr>task_ID := ''''\<rparr>)" "task_ID t2 = ''''"
    and "runnable now t1" "runnable now t2" "0 < ttl"
  shows "\<exists>q'. qrun memoryQueue [QEnqueue t1, QEnqueue t2, QPoll w1 ttl, QPoll w2 ttl] (now, q) =
      ([(w1, t1), (w2, t2\<lparr>task_ID := task_ID t1\<rparr>)], now, q') \<and>
    mq_view q' = [task_ID t1 \<mapsto> (t2\<lparr>task_ID := task_ID t1\<rparr>, Leased w2 (now + ttl))] \<and> InMemory_Len q' = 1"
proof -
  have i: "task_ID t1 \<noteq> ''''" "task_ID t1 = FormatInt (signed_take_bit 63 (mq_nextID q + 1))"
    using assms(3) by (simp_all add: mq_assigned_def)
  have r: "IsZero (task_NotBefore t1) \<or> \<not> now < task_NotBefore t1" "IsZero (task_NotBefore t2) \<or> \<not> now < task_NotBefore t2"
    using assms(5,6) by (auto simp: runnable_def)
  show ?thesis using assms(1,2,4,7) i r
    by (simp add: qexec_def queue_simps Let_def mq_view_def mq_entries_def InMemory_Len_def)
qed

theorem reused_identifier_loses_task_witness:
  "\<exists>q'. qrun memoryQueue [QEnqueue leased_task, QEnqueue (leased_task\<lparr>task_ID := ''''\<rparr>), QPoll ''w1'' 5, QPoll ''w2'' 5]
      (0, NewInMemoryQueue) = ([(''w1'', leased_task), (''w2'', leased_task)], 0, q') \<and> InMemory_Len q' = 1"
proof -
  have "mq_assigned NewInMemoryQueue (leased_task\<lparr>task_ID := ''''\<rparr>) = ''1''" by (code_simp)
  moreover have "task_ID leased_task = ''1''" "runnable 0 leased_task" "leased_task\<lparr>task_ID := ''1''\<rparr> = leased_task"
    by (simp_all add: leased_task_def zero_Task_def runnable_def IsZero_def)
  ultimately show ?thesis
    using reused_identifier_loses_task [of NewInMemoryQueue leased_task "leased_task\<lparr>task_ID := ''''\<rparr>" 0 5 "''w1''" "''w2''"]
    by (auto simp: NewInMemoryQueue_def runnable_def)
qed

text \<open>
  C21: Every runnable task is delivered. In either queue, a task that is not leased (or whose lease
  has run out) and whose time has come is handed out to a worker that keeps polling, after at most
  as many polls as there are such tasks. The SQLite queue has to be able to read its payloads, and to represent the
  clock readings.
\<close>

theorem runnable_task_delivered:
  assumes "0 < ttl" "owner \<noteq> ''''"
  shows "(mq_inv q \<and> i \<in> claimable now (mq_view q) \<longrightarrow>
      (\<exists>t. (owner, t) \<in> set (fst (qrun memoryQueue
         (replicate (card (claimable now (mq_view q))) (QPoll owner ttl)) (now, q))) \<and> task_ID t = i)) \<and>
    (sq_inv G q2 \<and> int64 now \<and> int64 (now + ttl) \<and> i \<in> claimable now (sq_view G q2) \<longrightarrow>
      (\<exists>t. (owner, t) \<in> set (fst (qrun (sqliteQueue G)
         (replicate (card (claimable now (sq_view G q2))) (QPoll owner ttl)) (now, q2))) \<and> task_ID t = i))"
  using mem_queue.delivered_within [OF _ TrueI TrueI assms _ order_refl prod.collapse [symmetric], of q i now]
    sqlite_queue.delivered_within [OF _ _ _ assms _ order_refl prod.collapse [symmetric], of G q2 now i]
  by blast

theorem runnable_task_delivered_witness:
  "(\<exists>t. (''w2'', t) \<in> set (fst (qrun memoryQueue
      (replicate (card (claimable 5 (mq_view ready_queue))) (QPoll ''w2'' 10)) (5, ready_queue))) \<and> task_ID t = ''1'') \<and>
   (\<exists>t. (''w2'', t) \<in> set (fst (qrun (sqliteQueue plain_gob)
      (replicate (card (claimable 5 (sq_view plain_gob ready_table))) (QPoll ''w2'' 10)) (5, ready_table))) \<and> task_ID t = ''1'')"
proof -
  have "''1'' \<in> claimable 5 (mq_view ready_queue)" "''1'' \<in> claimable 5 (sq_view plain_gob ready_table)"
    using table_views(2)
    by (simp_all add: claimable_def fixture_views runnable_def leased_task_def zero_Task_def IsZero_def)
  with runnable_task_delivered [of 10 "''w2''" ready_queue "''1''" 5 plain_gob ready_table] leased_queue_inv(2) table_inv(2)
  show ?thesis by (simp add: int64_def del: qrun.simps)
qed

text \<open>
  Order of delivery of the SQLite queue. The task a poll hands out is due, was not leased (or
  its lease had run out), and no other task in that condition has an earlier \<^verbatim>\<open>NotBefore\<close>, or the
  same one and a smaller identifier: tasks enqueued without a delay are delivered first in, first
  out.
\<close>

theorem sqlite_delivery_order:
  assumes "sq_inv G q" "int64 now" "int64 (now + ttl)" "owner \<noteq> ''''"
    and "SQLite_DequeuePoll G now owner ttl q = (Inr (Some t), q')"
  shows "\<exists>r \<in> set (tt_rows q). task_ID t = FormatInt (tr_id r) \<and> row_claimable now r \<and>
    (\<forall>s \<in> set (tt_rows q). row_claimable now s \<longrightarrow>
       tr_not_before r < tr_not_before s \<or> tr_not_before r = tr_not_before s \<and> tr_id r \<le> tr_id s)"
proof -
  from assms obtain r where r: "first_row (filter (row_claimable now) (tt_rows q)) = Some r" "task_ID t = FormatInt (tr_id r)"
    by (auto simp: SQLite_DequeuePoll_def Let_def row_task_def split: option.splits sum.splits)
  from first_row_least [OF r(1)] r(2) show ?thesis by (auto simp: row_before_def)
qed

theorem sqlite_delivery_order_witness:
  "SQLite_DequeuePoll plain_gob 5 ''w2'' 10 ready_table =
     (Inr (Some (leased_task\<lparr>task_EnqueuedAt := 0, task_NotBefore := 0\<rparr>)),
      \<lparr>tt_seq = 2, tt_rows = [sample_row 1 ''w2'' 15, sample_row 2 '''' 0]\<rparr>) \<and>
   (\<exists>r \<in> set (tt_rows ready_table). ''1'' = FormatInt (tr_id r) \<and> row_claimable 5 r)"
proof -
  have p: "SQLite_DequeuePoll plain_gob 5 ''w2'' 10 ready_table =
     (Inr (Some (row_task (sample_row 1 '''' 0) VNil)),
      \<lparr>tt_seq = 2, tt_rows = [sample_row 1 ''w2'' 15, sample_row 2 '''' 0]\<rparr>)"
    by (simp add: SQLite_DequeuePoll_def ready_table_def sample_row_def row_claimable_def row_before_def int64_def
        decodePayload_def update_rows_def)
  have "task_ID (row_task (sample_row 1 '''' 0) VNil) = ''1''" by (simp add: leased_task_def)
  with sqlite_delivery_order [OF table_inv(2) _ _ _ p] p show ?thesis by (auto simp: int64_def)
qed

text \<open>
  C32: A blocked \<^verbatim>\<open>Dequeue\<close> ends. With a context that has a deadline (or is cancelled at some time), the
  polling loop returns after at most as many polls as poll intervals fit until then, plus one, for
  any queue with a positive poll interval (each of the five has one); nothing else is needed of it.
\<close>

theorem Dequeue_returns:
  assumes "0 < q_pollInterval Q" "ctx_cancel c = Some (d, e)" "d \<le> now + int n * q_pollInterval Q"
  shows "\<exists>r. Dequeue Q (Suc n) c owner ttl now q = Some r"
  using Dequeue_loop_terminates [OF assms] by (auto simp: Dequeue_def split: option.splits)

theorem Dequeue_returns_witness:
  "\<exists>r. Dequeue memoryQueue 101 \<lparr>ctx_cancel = Some (Second, ContextDeadlineExceeded), ctx_engine = False\<rparr>
     ''w2'' 10 0 leased_queue = Some r"
  using Dequeue_returns [of memoryQueue "\<lparr>ctx_cancel = Some (Second, ContextDeadlineExceeded), ctx_engine = False\<rparr>"
      Second ContextDeadlineExceeded 0 100 "''w2''" 10 leased_queue]
  by (simp add: memoryQueue_def Millisecond_def Second_def)

end
