(* ===== verification/Worker_Props.thy ===== *)
theory Worker_Props
  imports Worker Engine_Props Queue_Props
begin

text \<open>
  What a worker does with the task it has claimed, for every queue that meets the contract
  \<open>task_queue\<close>, and the properties of workers on the in-memory queue and the engine.
\<close>

section \<open>Handling a claimed task\<close>

text \<open>The engine call the worker makes for a task (none for an unknown type or a bad payload).\<close>

definition task_call :: "('s, 'q, 'e, 'u) Worker \<Rightarrow> ctx \<Rightarrow> Task
     \<Rightarrow> (('s, 'q, 'e, 'u) world \<Rightarrow> ('s, 'q, 'e, 'u) outcome) option" where
  "task_call wk c task =
     (case task_Type task of
        TaskTypeStartWorkflow \<Rightarrow>
          (case task_Payload task of
             StartWorkflowPayload input \<Rightarrow>
               Some (if task_InstanceID task \<noteq> ''''
                 then (case api_direct (wk_engine wk) of
                         Some de \<Rightarrow> wd_RunInstance de c (task_InstanceID task)
                       | None \<Rightarrow> (\<lambda>w. (Done (None, Some (ErrMsg ''engine does not support RunInstance for queued start'')), w)))
                 else api_Run (wk_engine wk) c (task_WorkflowName task) input)
           | _ \<Rightarrow> None)
      | TaskTypeSignal \<Rightarrow>
          Some (case api_direct (wk_engine wk) of
                  Some de \<Rightarrow> wd_SignalNow de c (task_InstanceID task) (task_SignalName task) (task_Payload task)
                | None \<Rightarrow> api_Signal (wk_engine wk) c (task_InstanceID task) (task_SignalName task) (task_Payload task))
      | TaskTypeResume \<Rightarrow>
          Some (case api_direct (wk_engine wk) of
                  Some de \<Rightarrow> wd_ResumeNow de c (task_InstanceID task)
                | None \<Rightarrow> api_Resume (wk_engine wk) c (task_InstanceID task))
      | TaskTypeOther s \<Rightarrow> None)"

text \<open>No automatic timeout is involved: neither is one due now nor will one be scheduled.\<close>

definition no_timeout :: "('s, 'q, 'e, 'u) Worker \<Rightarrow> Task \<Rightarrow> goerr option \<Rightarrow> bool" where
  "no_timeout wk task err \<longleftrightarrow>
     (task_Type task = TaskTypeStartWorkflow \<longrightarrow> wc_DefaultSignalTimeout (wk_cfg wk) \<le> 0 \<or>
        (\<forall>er. err = Some er \<longrightarrow> IsWaitForSignalError er = None)) \<and>
     (task_Type task = TaskTypeSignal \<longrightarrow> (\<forall>s. task_Payload task \<noteq> TimeoutPayload s))"

text \<open>
  The automatic timeouts. A start task whose instance now waits for a signal has a timeout scheduled if one is
  configured; a signal that is such a timeout counts as delivered, whatever the engine returns.
\<close>

definition timeout_due :: "('s, 'q, 'e, 'u) Worker \<Rightarrow> Task \<Rightarrow> addr option \<Rightarrow> goerr option \<Rightarrow> (addr \<times> string) option" where
  "timeout_due wk task ao err =
     (case (ao, Option.bind err IsWaitForSignalError) of
        (Some a, Some sig) \<Rightarrow>
          if task_Type task = TaskTypeStartWorkflow \<and> 0 < wc_DefaultSignalTimeout (wk_cfg wk) then Some (a, sig) else None
      | _ \<Rightarrow> None)"

definition is_timeout :: "Task \<Rightarrow> bool" where
  "is_timeout task \<longleftrightarrow> task_Type task = TaskTypeSignal \<and> (\<exists>s. task_Payload task = TimeoutPayload s)"

lemma process_task_cases:
  assumes "task_call wk c task = Some call" "with_heartbeat wk task call w = (Done (ao, err), w1)"
  shows "process_task wk c task w =
    (if timeout_due wk task ao err \<noteq> None then finish_start wk c task ao err w1
     else if is_timeout task then processed (handleErr wk c task None (snd (ack_task wk c task w1)))
     else processed (handleErr wk c task err w1))"
proof (cases "task_Type task")
  case TaskTypeStartWorkflow
  with assms obtain input where p: "task_Payload task = StartWorkflowPayload input"
    by (auto simp: task_call_def split: anyv.splits)
  have "process_task wk c task w = finish_start wk c task ao err w1"
    using assms(1,2) TaskTypeStartWorkflow p by (auto simp: task_call_def process_task_def process_start_def Let_def)
  with TaskTypeStartWorkflow show ?thesis
    by (auto simp: timeout_due_def is_timeout_def finish_start_def split: option.splits)
next
  case TaskTypeSignal
  with assms show ?thesis
    by (auto simp: task_call_def process_task_def process_signal_def timeout_due_def is_timeout_def Let_def
        split: anyv.splits option.splits)
qed (use assms in \<open>auto simp: task_call_def process_task_def process_resume_def timeout_due_def is_timeout_def Let_def split: option.splits\<close>)

lemma process_task_call:
  assumes "task_call wk c task = Some call" "with_heartbeat wk task call w = (Done (ao, err), w1)"
    and "no_timeout wk task err"
  shows "process_task wk c task w = processed (handleErr wk c task err w1)"
  using process_task_cases [OF assms(1,2)] assms(3)
  by (auto simp: timeout_due_def is_timeout_def no_timeout_def split: option.splits if_splits Option.bind_splits)

lemma settle_released:
  "v i = Some (t, l) \<Longrightarrow> i = task_ID task \<Longrightarrow> settle cfg task err now (v(i \<mapsto> (t, l'))) = settle cfg task err now v"
  by (auto simp: settle_def)

context exact_queue
begin

lemma with_heartbeat_lease:
  assumes "inv (w_queue w)" "wk_queue wk = Q" "wc_WorkerID (wk_cfg wk) \<noteq> ''''" "2 \<le> wc_LeaseTTL (wk_cfg wk)"
    and "\<forall>t. w_clock w \<le> t \<and> t \<le> w_clock w1 \<longrightarrow> valid t \<and> valid (t + wc_LeaseTTL (wk_cfg wk))"
    and v: "view (w_queue w) (task_ID task) = Some (t0, Leased (wc_WorkerID (wk_cfg wk)) (w_clock w + wc_LeaseTTL (wk_cfg wk)))"
    and call: "call w = (r, w1)" "w_queue w1 = w_queue w" "w_clock w \<le> w_clock w1"
  shows "\<exists>x w2. with_heartbeat wk task call w = (r, w2) \<and> w2 = w1\<lparr>w_queue := w_queue w2\<rparr> \<and> inv (w_queue w2) \<and>
    view (w_queue w2) = (view (w_queue w))(task_ID task \<mapsto> (t0, Leased (wc_WorkerID (wk_cfg wk)) x)) \<and> w_clock w1 < x"
proof -
  let ?cfg = "wk_cfg wk"
  define q where "q = heartbeats Q (task_ID task) (wc_WorkerID ?cfg) (wc_LeaseTTL ?cfg)
    (heartbeat_times (heartbeat_interval ?cfg) (w_clock w) (w_clock w1)) (w_queue w)"
  from heartbeat_holds_lease [OF assms(1,3,4) call(3) assms(5) v q_def] obtain x where
    "inv q" "view q = (view (w_queue w))(task_ID task \<mapsto> (t0, Leased (wc_WorkerID ?cfg) x))" "w_clock w1 < x" by blast
  moreover have "with_heartbeat wk task call w = (r, w1\<lparr>w_queue := q\<rparr>)"
    using call assms(2) by (simp add: with_heartbeat_def q_def)
  ultimately show ?thesis by (intro exI [of _ x] exI [of _ "w1\<lparr>w_queue := q\<rparr>"]) simp
qed

lemma handler_settles:
  assumes q: "inv (w_queue w)" "wk_queue wk = Q" "wc_WorkerID (wk_cfg wk) \<noteq> ''''" "2 \<le> wc_LeaseTTL (wk_cfg wk)"
    and valid: "\<forall>t. w_clock w \<le> t \<and> t \<le> w_clock w1 \<longrightarrow> valid t \<and> valid (t + wc_LeaseTTL (wk_cfg wk))"
      "valid (w_clock w1 + max 0 (wc_Backoff (wk_cfg wk)))"
    and v: "view (w_queue w) (task_ID task) = Some (t0, Leased (wc_WorkerID (wk_cfg wk)) (w_clock w + wc_LeaseTTL (wk_cfg wk)))"
    and call: "call w = (Done (ao, err), w1)" "w_queue w1 = w_queue w" "w_clock w \<le> w_clock w1" and c: "ctx_cancel c = None"
    and handler: "\<And>w2. with_heartbeat wk task call w = (Done (ao, err), w2) \<Longrightarrow>
      process_task wk c task w = processed (handleErr wk c task err w2)"
  shows "\<exists>w2. process_task wk c task w =
      (Done (True, if task_Attempts task + 1 < wc_MaxAttempts (wk_cfg wk) then None else err), w2) \<and>
    w2 = w1\<lparr>w_queue := w_queue w2\<rparr> \<and>
    inv (w_queue w2) \<and> view (w_queue w2) = settle (wk_cfg wk) task err (w_clock w1) (view (w_queue w))"
proof -
  let ?cfg = "wk_cfg wk"
  from with_heartbeat_lease [where call = call, OF q valid(1) v call] obtain x w2 where
    hb: "with_heartbeat wk task call w = (Done (ao, err), w2)" "w2 = w1\<lparr>w_queue := w_queue w2\<rparr>" "inv (w_queue w2)"
    and v2: "view (w_queue w2) = (view (w_queue w))(task_ID task \<mapsto> (t0, Leased (wc_WorkerID ?cfg) x))" by blast
  have clk: "w_clock w2 = w_clock w1" by (subst hb(2)) simp
  obtain r w3 where h: "handleErr wk c task err w2 = (r, w3)" by (cases "handleErr wk c task err w2")
  have l: "leased_by (view (w_queue w2)) (task_ID task) (wc_WorkerID ?cfg)" by (simp add: v2 leased_by_def)
  have ce: "ctx_Err c (w_clock w2) = None" using c by (simp add: ctx_Err_def)
  have vb: "valid (w_clock w2 + max 0 (wc_Backoff ?cfg))" using valid(2) clk by simp
  from handleErr_settles [OF hb(3) q(2,3) ce vb l h] settle_released [where v = "view (w_queue w)" and i = "task_ID task", OF v refl] v2 clk
  have "inv (w_queue w3)" "view (w_queue w3) = settle ?cfg task err (w_clock w1) (view (w_queue w))"
    "r = (if task_Attempts task + 1 < wc_MaxAttempts ?cfg then None else err)" by simp_all
  moreover have "w3 = w1\<lparr>w_queue := w_queue w3\<rparr>"
  proof -
    obtain q where "w3 = w2\<lparr>w_queue := q\<rparr>" using handleErr_frame [OF h] by blast
    moreover obtain q2 where "w2 = w1\<lparr>w_queue := q2\<rparr>" using hb(2) by blast
    ultimately show ?thesis by simp
  qed
  ultimately show ?thesis using handler [OF hb(1)] h by (auto simp: processed_def)
qed

lemma process_task_settles:
  assumes q: "inv (w_queue w)" "wk_queue wk = Q" "wc_WorkerID (wk_cfg wk) \<noteq> ''''" "2 \<le> wc_LeaseTTL (wk_cfg wk)"
    and valid: "\<forall>t. w_clock w \<le> t \<and> t \<le> w_clock w1 \<longrightarrow> valid t \<and> valid (t + wc_LeaseTTL (wk_cfg wk))"
      "valid (w_clock w1 + max 0 (wc_Backoff (wk_cfg wk)))"
    and v: "view (w_queue w) (task_ID task) = Some (t0, Leased (wc_WorkerID (wk_cfg wk)) (w_clock w + wc_LeaseTTL (wk_cfg wk)))"
    and call: "task_call wk c task = Some call" "call w = (Done (ao, err), w1)" "w_queue w1 = w_queue w"
      "w_clock w \<le> w_clock w1" "no_timeout wk task err" and c: "ctx_cancel c = None"
  shows "\<exists>w2. process_task wk c task w =
      (Done (True, if task_Attempts task + 1 < wc_MaxAttempts (wk_cfg wk) then None else err), w2) \<and>
    w2 = w1\<lparr>w_queue := w_queue w2\<rparr> \<and>
    inv (w_queue w2) \<and> view (w_queue w2) = settle (wk_cfg wk) task err (w_clock w1) (view (w_queue w))"
  using process_task_call [OF call(1) _ call(5)] by (intro handler_settles [where call = call, OF q valid v call(2-4) c]) blast

text \<open>
  A start task whose workflow now waits for a signal: the timeout signal is scheduled and the task
  itself is done.
\<close>

lemma finish_start_timeout:
  assumes "inv (w_queue w)" "wk_queue wk = Q" "wc_WorkerID (wk_cfg wk) \<noteq> ''''" "ctx_Err c (w_clock w) = None"
    and "IsWaitForSignalError er = Some sig" "0 < wc_DefaultSignalTimeout (wk_cfg wk)"
    and "valid (w_clock w)" "valid (w_clock w + wc_DefaultSignalTimeout (wk_cfg wk))" "0 < w_clock w"
    and l: "leased_by (view (w_queue w)) (task_ID task) (wc_WorkerID (wk_cfg wk))"
    and tt: "tt = timeout_task (wk_cfg wk) (inst_ID (w_inst w a)) sig (w_clock w)"
    and acc: "fst (q_Enqueue Q (w_clock w) None tt (w_queue w)) = None" and new: "fresh (w_queue w) tt"
  shows "\<exists>w2 i t'. finish_start wk c task (Some a) (Some er) w = (Done (True, None), w2) \<and> w2 = w\<lparr>w_queue := w_queue w2\<rparr> \<and>
    view (w_queue w) i = None \<and> (sendable (TimeoutPayload ''signal timeout'') \<longrightarrow> same_job t' tt) \<and>
    task_NotBefore t' = w_clock w + wc_DefaultSignalTimeout (wk_cfg wk) \<and>
    view (w_queue w2) = ((view (w_queue w))(i \<mapsto> (t', Free)))(task_ID task := None)"
proof -
  let ?cfg = "wk_cfg wk"
  obtain q1 where e: "q_Enqueue Q (w_clock w) None tt (w_queue w) = (None, q1)"
    using acc by (cases "q_Enqueue Q (w_clock w) None tt (w_queue w)") simp
  have nb: "task_NotBefore tt = w_clock w + wc_DefaultSignalTimeout ?cfg" "task_Payload tt = TimeoutPayload ''signal timeout''"
    by (simp_all add: tt timeout_task_def zero_Task_def)
  have nz: "\<not> IsZero (task_NotBefore tt)" using assms(6,9) nb(1) by simp
  from enqueue_law [OF assms(1,7) new _ e] assms(8) nb nz obtain i t' where q1: "inv q1" "view (w_queue w) i = None"
    "sendable (TimeoutPayload ''signal timeout'') \<longrightarrow> same_job t' tt" "task_NotBefore t' = task_NotBefore tt"
    "view q1 = (view (w_queue w))(i \<mapsto> (t', Free))" by (auto simp: scheduled_def)
  let ?w1 = "w\<lparr>w_queue := q1\<rparr>"
  have i: "i \<noteq> task_ID task" using q1(2) l by (auto simp: leased_by_def)
  have l1: "leased_by (view q1) (task_ID task) (wc_WorkerID ?cfg)" using l q1(2,5) i by (auto simp: leased_by_def)
  have can: "ident (task_ID task)" using l view_ident [OF assms(1)] by (auto simp: leased_by_def)
  obtain ra qa where ack: "q_Ack Q None (task_ID task) (wc_WorkerID ?cfg) q1 = (ra, qa)"
    by (cases "q_Ack Q None (task_ID task) (wc_WorkerID ?cfg) q1")
  from ack_law [OF q1(1) assms(3) can ack] l1 have qa: "ra = None" "view qa = (view q1)(task_ID task := None)" by auto
  have "finish_start wk c task (Some a) (Some er) w = (Done (True, None), w\<lparr>w_queue := qa\<rparr>)"
    using assms(2,4,5,6) e ack qa(1)
    by (simp add: finish_start_def enqueue_task_def tt [symmetric] processed_def handleErr_def ack_task_def)
  with q1 qa(2) nb(1) show ?thesis
    by (intro exI [of _ "w\<lparr>w_queue := qa\<rparr>"] exI [of _ i] exI [of _ t']) simp
qed

end

section \<open>The engine's calls\<close>

text \<open>
  The call for a task is one of four operations of the engine. They leave the queue alone, and return
  without an error only an instance that is COMPLETED.
\<close>

lemma task_call_engine:
  assumes "task_call (NewWithConfig rnd (engine_api e n d) Q cfg) c task = Some call"
  shows "(\<exists>name v. call = Run e (step_runner e n d) c name v) \<or> (\<exists>i. call = RunInstance e (step_runner e n d) c i) \<or>
    (\<exists>i. call = ResumeNow e (step_runner e n d) c i) \<or> (\<exists>i s v. call = SignalNow e (step_runner e n d) c i s v)"
  using assms by (auto simp: task_call_def NewWithConfig_def engine_api_def Let_def
      split: TaskType.splits anyv.splits if_splits) blast

context engine_store
begin

lemma engine_calls_keep_queue:
  assumes e: "e_instances e = S" and w: "inv (w_heap w, w_store w)" and c: "ctx_wf c"
    and call: "task_call (NewWithConfig rnd (engine_api e n d) Q cfg) c task = Some call" "call w = (r, w1)"
  shows "w_queue w1 = w_queue w \<and> w_clock w \<le> w_clock w1"
proof -
  let ?R = "step_runner e n d"
  note R = step_runner_frame [OF e, of n d]
  have wf: "wf_world inv w" using w by (simp add: wf_world_def)
  from task_call_engine [OF call(1)] call(2) have "one_touched inv w w1"
    using RunInstance_frame [OF e R c wf] signalInline_frame [OF e R c wf]
      resumeInline_frame [OF e R c wf] one_touchedI(1) [OF evolve_Run [OF e R c wf]]
    unfolding SignalNow_def ResumeNow_def by blast
  then show ?thesis using one_touched_queue by blast
qed

lemma engine_calls_complete:
  assumes "e_instances e = S" "inv (w_heap w, w_store w)" "ctx_wf c"
    and "task_call (NewWithConfig rnd (engine_api e n d) Q cfg) c task = Some call" "call w = (Done (ao, None), w1)"
  shows "\<exists>a. ao = Some a \<and> inst_Status (w_inst w1 a) = StatusCompleted \<and> returns_instance e (step_runner e n d) c a w w1"
proof -
  from task_call_engine [OF assms(4)] assms(5) calls_complete [OF assms(1) step_runner_frame [OF assms(1)] assms(3), of w]
  obtain a where a: "ao = Some a" "inst_Status (w_inst w1 a) = StatusCompleted"
    using assms(2) unfolding SignalNow_def ResumeNow_def wf_world_def core_sel by blast
  with task_call_engine [OF assms(4)] assms(5) show ?thesis unfolding returns_instance_def by blast
qed

end

section \<open>Properties\<close>

text \<open>The next number of the in-memory queue's counter stays unused while leases are renewed.\<close>

lemma mq_fresh_view: "mq_fresh q t \<longleftrightarrow> mq_view q (mq_assigned q t) = None"
  by (simp add: mq_fresh_def mq_view_None)

lemma mem_heartbeats_nextID: "mq_nextID (heartbeats memoryQueue i owner ttl ts q) = mq_nextID q"
  by (induction ts arbitrary: q) (simp_all add: memoryQueue_def InMemory_nextID)

text \<open>A start task whose instance now waits, and a timeout signal, after the heartbeat has left the world \<open>w\<close>.\<close>

lemma mem_finish_start:
  assumes "mq_inv (w_queue w)" "wk_queue wk = memoryQueue" "wc_WorkerID (wk_cfg wk) \<noteq> ''''" "ctx_Err c (w_clock w) = None" "0 < w_clock w"
    and "timeout_due wk task ao err = Some (a, sig)" "mq_fresh (w_queue w) zero_Task"
    and "leased_by (mq_view (w_queue w)) (task_ID task) (wc_WorkerID (wk_cfg wk))"
  shows "\<exists>w2 i t'. finish_start wk c task ao err w = (Done (True, None), w2) \<and> w2 = w\<lparr>w_queue := w_queue w2\<rparr> \<and>
    mq_view (w_queue w) i = None \<and> task_Type t' = TaskTypeSignal \<and> task_InstanceID t' = inst_ID (w_inst w a) \<and>
    task_SignalName t' = sig \<and> task_Payload t' = TimeoutPayload ''signal timeout'' \<and>
    task_NotBefore t' = w_clock w + wc_DefaultSignalTimeout (wk_cfg wk) \<and>
    mq_view (w_queue w2) = ((mq_view (w_queue w))(i \<mapsto> (t', Free)))(task_ID task := None)"
proof -
  let ?tt = "timeout_task (wk_cfg wk) (inst_ID (w_inst w a)) sig (w_clock w)"
  from assms(6) obtain er where er: "ao = Some a" "err = Some er" "IsWaitForSignalError er = Some sig"
    "0 < wc_DefaultSignalTimeout (wk_cfg wk)" by (auto simp: timeout_due_def split: option.splits if_splits Option.bind_splits)
  have fresh: "mq_fresh (w_queue w) ?tt"
    using assms(7) by (simp add: mq_fresh_def mq_assigned_def timeout_task_def zero_Task_def)
  have acc: "fst (q_Enqueue memoryQueue (w_clock w) None ?tt (w_queue w)) = None"
    by (simp add: queue_simps Let_def timeout_task_def zero_Task_def)
  from mem_queue.finish_start_timeout [OF assms(1-4) er(3,4) _ _ assms(5,8) refl acc fresh] er(1,2)
  show ?thesis by (auto simp: same_job_def timeout_task_def zero_Task_def)
qed

lemma mem_timeout_signal:
  assumes "mq_inv (w_queue w)" "wk_queue wk = memoryQueue" "ctx_cancel c = None"
    and "leased_by (mq_view (w_queue w)) (task_ID task) (wc_WorkerID (wk_cfg wk))"
  shows "\<exists>q. processed (handleErr wk c task None (snd (ack_task wk c task w))) = (Done (True, None), w\<lparr>w_queue := q\<rparr>) \<and>
    mq_view q = (mq_view (w_queue w))(task_ID task := None)"
proof -
  obtain r q where q: "InMemory_Ack None (task_ID task) (wc_WorkerID (wk_cfg wk)) (w_queue w) = (r, q)" by fastforce
  from mem_ack [OF assms(1) q] assms(4) have v: "mq_inv q" "mq_view q = (mq_view (w_queue w))(task_ID task := None)" by simp_all
  then have "map_of (mq_inflight q) (task_ID task) = None"
    using mq_view_None [of q "task_ID task"] by (auto simp: keys_mq_entries map_of_None_keys)
  then have "InMemory_Ack None (task_ID task) (wc_WorkerID (wk_cfg wk)) q = (None, q)" by (simp add: InMemory_Ack_def)
  with q v(2) show ?thesis using assms(2,3)
    by (intro exI [of _ q]) (simp add: ack_task_def handleErr_def processed_def memoryQueue_def ctx_Err_def)
qed

text \<open>
  C6: The fate of a task. A worker on the in-memory queue and store that has claimed a start, signal or
  resume task, with a payload that fits its type, reports it processed, whatever the engine returns. If the engine
  returns no error the task is removed. If it returns one, the task is put back with one more attempt and not before
  the backoff has passed as long as attempts are left, and removed with the error reported otherwise; with
  two exceptions. A start task whose instance now waits for a signal is removed and reported without an error if
  a signal timeout is configured, and exactly one task is added, the timeout signal for that instance and signal, due
  after the timeout. And a timeout signal is removed and reported without an error in any case. All other tasks
  stay as they are, and the rest of the world is as the engine left it. The call of the engine returns, the context is
  never cancelled, a lease lasts at least two nanoseconds, the clock is past 1970, and the identifier that the
  queue issues next is not in use.
\<close>

theorem worker_settles_task:
  assumes "e_instances e = memoryStore" "mem_inv (w_heap w, w_store w)" "mq_inv (w_queue w)"
    and "wk = NewWithConfig rnd (engine_api e n d) memoryQueue cfg" "2 \<le> wc_LeaseTTL (wk_cfg wk)" "ctx_cancel c = None"
    and "mq_view (w_queue w) (task_ID task) =
      Some (task, Leased (wc_WorkerID (wk_cfg wk)) (w_clock w + wc_LeaseTTL (wk_cfg wk)))"
    and "task_call wk c task = Some call" "call w = (Done (ao, err), w1)"
    and "0 < w_clock w" "mq_fresh (w_queue w) zero_Task"
    and "handled = (if timeout_due wk task ao err \<noteq> None \<or> is_timeout task then None else err)"
  shows "\<exists>w2. process_task wk c task w =
      (Done (True, if task_Attempts task + 1 < wc_MaxAttempts (wk_cfg wk) then None else handled), w2) \<and>
    w2 = w1\<lparr>w_queue := w_queue w2\<rparr> \<and>
    (case timeout_due wk task ao err of
       Some (a, sig) \<Rightarrow> \<exists>i t'. mq_view (w_queue w) i = None \<and> task_Type t' = TaskTypeSignal \<and>
         task_InstanceID t' = inst_ID (w_inst w1 a) \<and> task_SignalName t' = sig \<and> task_Payload t' = TimeoutPayload ''signal timeout'' \<and>
         task_NotBefore t' = w_clock w1 + wc_DefaultSignalTimeout (wk_cfg wk) \<and>
         mq_view (w_queue w2) = ((mq_view (w_queue w))(i \<mapsto> (t', Free)))(task_ID task := None)
     | None \<Rightarrow> mq_view (w_queue w2) =
         (if handled \<noteq> None \<and> task_Attempts task + 1 < wc_MaxAttempts (wk_cfg wk)
          then (mq_view (w_queue w))(task_ID task \<mapsto> (task\<lparr>task_NotBefore := w_clock w1 + max 0 (wc_Backoff (wk_cfg wk)),
                 task_Attempts := task_Attempts task + 1\<rparr>, Free))
          else (mq_view (w_queue w))(task_ID task := None)))"
proof -
  let ?cfg = "wk_cfg wk"
  have wk: "wk_queue wk = memoryQueue" "wc_WorkerID ?cfg \<noteq> ''''" using assms(4) by (auto simp: NewWithConfig_def)
  have ctx: "ctx_wf c" using assms(6) by (rule ctx_cancel_None)
  have k: "w_queue w1 = w_queue w" "w_clock w \<le> w_clock w1"
    using mem_engine.engine_calls_keep_queue [OF assms(1,2) ctx assms(8) [unfolded assms(4)] assms(9)] by simp_all
  from mem_queue.with_heartbeat_lease [where call = call, OF assms(3) wk assms(5) _ assms(7,9) k] obtain x wh where
    hb: "with_heartbeat wk task call w = (Done (ao, err), wh)" "wh = w1\<lparr>w_queue := w_queue wh\<rparr>" "mq_inv (w_queue wh)"
    and vh: "mq_view (w_queue wh) = (mq_view (w_queue w))(task_ID task \<mapsto> (task, Leased (wc_WorkerID ?cfg) x))" by auto
  have wh: "w_clock wh = w_clock w1" "w_inst wh a = w_inst w1 a" for a by (subst hb(2), simp add: w_inst_def)+
  have lh: "leased_by (mq_view (w_queue wh)) (task_ID task) (wc_WorkerID ?cfg)" by (simp add: vh leased_by_def)
  note p = process_task_cases [OF assms(8) hb(1)]
  consider (due) a sig where "timeout_due wk task ao err = Some (a, sig)"
    | (timeout) "timeout_due wk task ao err = None" "is_timeout task"
    | (plain) "timeout_due wk task ao err = None" "\<not> is_timeout task" by (cases "timeout_due wk task ao err") auto
  then show ?thesis
  proof cases
    case due
    have "w_queue wh = heartbeats memoryQueue (task_ID task) (wc_WorkerID ?cfg) (wc_LeaseTTL ?cfg)
        (heartbeat_times (heartbeat_interval ?cfg) (w_clock w) (w_clock w1)) (w_queue w)"
      using hb(1) assms(9) wk(1) k(1) by (auto simp: with_heartbeat_def)
    then have "mq_assigned (w_queue wh) zero_Task = mq_assigned (w_queue w) zero_Task"
      by (simp add: mq_assigned_def mem_heartbeats_nextID)
    with assms(11,7) have fresh: "mq_fresh (w_queue wh) zero_Task" by (auto simp: mq_fresh_view vh)
    have clk: "ctx_Err c (w_clock wh) = None" "0 < w_clock wh" using assms(6,10) k(2) wh(1) by (simp_all add: ctx_Err_def)
    from mem_finish_start [OF hb(3) wk clk due fresh lh] obtain w2 i t' where
      w2: "finish_start wk c task ao err wh = (Done (True, None), w2)" "w2 = wh\<lparr>w_queue := w_queue w2\<rparr>" "mq_view (w_queue wh) i = None"
      and t': "task_Type t' = TaskTypeSignal" "task_InstanceID t' = inst_ID (w_inst w1 a)" "task_SignalName t' = sig"
        "task_Payload t' = TimeoutPayload ''signal timeout''" "task_NotBefore t' = w_clock w1 + wc_DefaultSignalTimeout ?cfg"
      and v2: "mq_view (w_queue w2) = ((mq_view (w_queue wh))(i \<mapsto> (t', Free)))(task_ID task := None)" unfolding wh by blast
    have "w2 = w1\<lparr>w_queue := w_queue w2\<rparr>" using w2(2) hb(2) by (metis world.update_convs(6) world.surjective)
    moreover have "mq_view (w_queue w) i = None" "mq_view (w_queue w2) = ((mq_view (w_queue w))(i \<mapsto> (t', Free)))(task_ID task := None)"
      using w2(3) v2 by (auto simp: vh split: if_splits)
    ultimately show ?thesis using p w2(1) t' due assms(12) by auto
  next
    case timeout
    from mem_timeout_signal [OF hb(3) wk(1) assms(6) lh] obtain q where q: "mq_view q = (mq_view (w_queue w))(task_ID task := None)"
      "processed (handleErr wk c task None (snd (ack_task wk c task wh))) = (Done (True, None), wh\<lparr>w_queue := q\<rparr>)"
      by (auto simp: vh)
    have "wh\<lparr>w_queue := q\<rparr> = w1\<lparr>w_queue := q\<rparr>" by (subst hb(2)) simp
    with q p timeout assms(12) show ?thesis by simp
  next
    case plain
    have "process_task wk c task w = processed (handleErr wk c task err w2)"
      if "with_heartbeat wk task call w = (Done (ao, err), w2)" for w2 using process_task_cases [OF assms(8) that] plain by simp
    from mem_queue.handler_settles [where call = call, OF assms(3) wk assms(5) _ _ assms(7,9) k assms(6) this] assms(7,12) plain
    show ?thesis by (auto simp: settle_def)
  qed
qed

definition sample_worker :: "(instances, InMemoryQueue, history, unit) Worker" where
  "sample_worker = NewWithConfig ''1''
     (engine_api (NewEngineWithConfig ''00'' (\<lambda>p. '''') sample_build (\<lambda>r. 0)
        \<lparr>cfg_Instances = memoryStore, cfg_Events = None, cfg_Queue = None, cfg_EngineID = ''e1'', cfg_LeaseTTL = 0\<rparr>) 0 0)
     memoryQueue
     \<lparr>wc_MaxAttempts = 3, wc_Backoff = 5, wc_DefaultSignalTimeout = 0, wc_WorkerID = ''w1'',
      wc_LeaseTTL = 0, wc_HeartbeatInterval = 0\<rparr>"

definition resume_task :: Task where
  "resume_task = zero_Task\<lparr>task_ID := ''1'', task_Type := TaskTypeResume, task_InstanceID := ''wf-9''\<rparr>"

definition worker_world :: "(instances, InMemoryQueue, history, unit) world" where
  "worker_world = \<lparr>w_heap = [], w_clock = 1000, w_workflows = [], w_store = [], w_events = [],
     w_queue = \<lparr>mq_nextID = 1, mq_ready = [],
       mq_inflight = [(''1'', \<lparr>lt_task = resume_task, lt_owner = ''w1'', lt_expiry = 1000 + 30 * Second\<rparr>)]\<rparr>,
     w_log = [], w_nextID = 0, w_extern = ()\<rparr>"

lemma worker_world_sel:
  "mem_inv (w_heap worker_world, w_store worker_world)" "w_clock worker_world = 1000"
  "mq_view (w_queue worker_world) ''1'' = Some (resume_task, Leased ''w1'' (1000 + 30 * Second))"
  by (simp_all add: worker_world_def mem_inv_def mq_view_def mq_entries_def)

lemma worker_world_queue: "mq_inv (w_queue worker_world)"
proof -
  have "keys (mq_entries (w_queue worker_world)) = [''1'']"
    unfolding keys_mq_entries by (simp add: worker_world_def keys_def)
  then show ?thesis by (simp add: mq_inv_def worker_world_def resume_task_def)
qed

lemma sample_worker_cfg [simp]:
  "wc_WorkerID (wk_cfg sample_worker) = ''w1''" "wc_LeaseTTL (wk_cfg sample_worker) = 30 * Second"
  "wc_MaxAttempts (wk_cfg sample_worker) = 3" "wc_Backoff (wk_cfg sample_worker) = 5"
  by (simp_all add: sample_worker_def NewWithConfig_def)

lemma sample_call:
  "task_call sample_worker Background resume_task = Some (ResumeNow
     (NewEngineWithConfig ''00'' (\<lambda>p. '''') sample_build (\<lambda>r. 0)
        \<lparr>cfg_Instances = memoryStore, cfg_Events = None, cfg_Queue = None, cfg_EngineID = ''e1'', cfg_LeaseTTL = 0\<rparr>)
     (step_runner (NewEngineWithConfig ''00'' (\<lambda>p. '''') sample_build (\<lambda>r. 0)
        \<lparr>cfg_Instances = memoryStore, cfg_Events = None, cfg_Queue = None, cfg_EngineID = ''e1'', cfg_LeaseTTL = 0\<rparr>) 0 0)
     Background ''wf-9'')"
  by (simp add: task_call_def sample_worker_def NewWithConfig_def engine_api_def Let_def resume_task_def)

theorem worker_settles_task_witness:
  "\<exists>w2. process_task sample_worker Background resume_task worker_world = (Done (True, None), w2) \<and>
     mq_view (w_queue w2) ''1'' = Some (resume_task\<lparr>task_NotBefore := 1005, task_Attempts := 1\<rparr>, Free)"
proof -
  let ?e = "NewEngineWithConfig ''00'' (\<lambda>p. '''') sample_build (\<lambda>r. 0)
        \<lparr>cfg_Instances = memoryStore, cfg_Events = None, cfg_Queue = None, cfg_EngineID = ''e1'', cfg_LeaseTTL = 0\<rparr> ::
        (instances, InMemoryQueue, history) engineImpl"
  have e: "e_instances ?e = memoryStore" by (simp add: NewEngineWithConfig_def)
  have call: "ResumeNow ?e (step_runner ?e 0 0) Background ''wf-9'' worker_world =
      (Done (None, Some (ErrMsg (''instance not found: '' @ ''wf-9''))), worker_world)"
    by (simp add: ResumeNow_def resumeInline_def mem_load [OF e] not_found_def errors_Is_def) (simp add: worker_world_def not_found_def errors_Is_def)
  have id: "task_ID resume_task = ''1''" "task_Attempts resume_task = 0" "task_Type resume_task = TaskTypeResume"
    by (simp_all add: resume_task_def zero_Task_def)
  have fresh: "mq_fresh (w_queue worker_world) zero_Task" by code_simp
  have due: "timeout_due sample_worker resume_task None er = None" "\<not> is_timeout resume_task" for er
    by (simp_all add: timeout_due_def is_timeout_def id)
  show ?thesis
    using worker_settles_task [OF e worker_world_sel(1) worker_world_queue sample_worker_def _ _ _ sample_call call _ fresh refl]
    by (simp add: id worker_world_sel due) (auto simp: Second_def)
qed

text \<open>
  C31: The heartbeat keeps the claim. In the in-memory queue, and with ticks that are not late: however long the handler of a claimed task runs (from \<open>t0\<close> to
  any later \<open>t1\<close>), the renewals made in between leave the task leased to its worker beyond \<open>t1\<close>, and
  nothing else in the queue changes: by the exclusion of leases the task is not delivered twice.
\<close>

theorem heartbeat_keeps_claim:
  assumes "mq_inv q" "wc_WorkerID cfg \<noteq> ''''" "2 \<le> wc_LeaseTTL cfg" "t0 \<le> t1"
    and "mq_view q i = Some (task, Leased (wc_WorkerID cfg) (t0 + wc_LeaseTTL cfg))"
    and "q' = heartbeats memoryQueue i (wc_WorkerID cfg) (wc_LeaseTTL cfg)
      (heartbeat_times (heartbeat_interval cfg) t0 t1) q"
  shows "\<exists>x. mq_inv q' \<and> mq_view q' = (mq_view q)(i \<mapsto> (task, Leased (wc_WorkerID cfg) x)) \<and> t1 < x"
  using mem_queue.heartbeat_holds_lease [OF assms(1-4) _ assms(5,6)] by simp

theorem heartbeat_keeps_claim_witness:
  "\<exists>x. mq_view (heartbeats memoryQueue ''1'' ''w1'' (30 * Second)
      (heartbeat_times (heartbeat_interval (wk_cfg sample_worker)) 1000 (1000 + 3600 * Second)) (w_queue worker_world)) ''1'' =
    Some (resume_task, Leased ''w1'' x) \<and> 1000 + 3600 * Second < x"
  using heartbeat_keeps_claim [OF worker_world_queue, of "wk_cfg sample_worker" 1000 "1000 + 3600 * Second" "''1''" resume_task,
      OF _ _ _ _ refl]
  by (auto simp: worker_world_sel Second_def)


definition stolen_world :: "(instances, InMemoryQueue, history, unit) world" where
  "stolen_world = worker_world\<lparr>w_queue := \<lparr>mq_nextID = 1, mq_ready = [],
     mq_inflight = [(''1'', \<lparr>lt_task = resume_task, lt_owner = ''w2'', lt_expiry = 1000 + 30 * Second\<rparr>)]\<rparr>\<rparr>"


end
