(* ===== verification/Sqlite_Store.thy ===== *)
theory Sqlite_Store
  imports Worker_Props
begin

text \<open>
  \<^verbatim>\<open>internal/persistence/sqlite_store.go\<close> and \<^verbatim>\<open>internal/persistence/sqlite_events.go\<close>: the
  tables, one definition per operation, the proofs that the store meets the contracts
  \<open>lease_store\<close> and \<open>engine_store\<close>, and that what is written is read back.
\<close>

section \<open>Instances\<close>

record instance_row =
  ir_id :: string
  ir_workflow_name :: string
  ir_workflow_version :: string
  ir_workflow_fingerprint :: string
  ir_status :: Status
  ir_current_step :: nat
  ir_input :: bytes
  ir_output :: bytes
  ir_step_results :: bytes
  ir_error :: string
  ir_lease_owner :: string
  ir_lease_expires_at :: int

type_synonym instance_table = "instance_row list"

text \<open>\<^verbatim>\<open>initSchema\<close> on a new database.\<close>

definition NewSQLiteInstanceStore :: instance_table where
  "NewSQLiteInstanceStore = []"

definition find_row :: "string \<Rightarrow> instance_table \<Rightarrow> instance_row option" where
  "find_row i s = map_of (map (\<lambda>r. (ir_id r, r)) s) i"

text \<open>The columns both \<^verbatim>\<open>SaveInstance\<close> and \<^verbatim>\<open>UpdateInstance\<close> compute from an instance.\<close>

definition make_row :: "gob \<Rightarrow> WorkflowInstance \<Rightarrow> goerr + instance_row" where
  "make_row G inst =
     (case EncodeValue G (inst_Input inst) of
        Inl e \<Rightarrow> Inl e
      | Inr input \<Rightarrow>
     (case EncodeValue G (inst_Output inst) of
        Inl e \<Rightarrow> Inl e
      | Inr output \<Rightarrow>
     (case EncodeStepResults G (inst_StepResults inst) of
        Inl e \<Rightarrow> Inl e
      | Inr stepResults \<Rightarrow>
          Inr \<lparr>ir_id = inst_ID inst, ir_workflow_name = inst_Name inst, ir_workflow_version = inst_Version inst,
               ir_workflow_fingerprint = inst_Fingerprint inst, ir_status = inst_Status inst,
               ir_current_step = inst_CurrentStep inst, ir_input = input, ir_output = output,
               ir_step_results = stepResults,
               ir_error = (case inst_Err inst of None \<Rightarrow> '''' | Some e \<Rightarrow> Error e),
               ir_lease_owner = inst_LeaseOwner inst,
               ir_lease_expires_at = UnixNano (inst_LeaseExpiresAt inst)\<rparr>)))"

definition unique_violation :: goerr where
  "unique_violation = ErrMsg ''constraint failed: UNIQUE constraint failed: instances.id (1555)''"

definition SQL_SaveInstance :: "gob \<Rightarrow> addr \<Rightarrow> heap \<Rightarrow> instance_table \<Rightarrow> goerr option \<times> instance_table" where
  "SQL_SaveInstance G a h s =
     (case make_row G (deref h a) of
        Inl e \<Rightarrow> (Some e, s)
      | Inr r \<Rightarrow> if find_row (ir_id r) s \<noteq> None then (Some unique_violation, s) else (None, s @ [r]))"

definition SQL_UpdateInstance :: "gob \<Rightarrow> addr \<Rightarrow> heap \<Rightarrow> instance_table \<Rightarrow> goerr option \<times> instance_table" where
  "SQL_UpdateInstance G a h s =
     (case make_row G (deref h a) of
        Inl e \<Rightarrow> (Some e, s)
      | Inr r \<Rightarrow>
          let s' = map (\<lambda>x. if ir_id x = ir_id r then r else x) s;
              affected = length (filter (\<lambda>x. ir_id x = ir_id r) s)
          in (if affected = 0 then Some ErrInstanceNotFound else None, s'))"

text \<open>Reading a row back.\<close>

fun value_of :: "gobval option \<Rightarrow> anyv" where
  "value_of None = VNil"
| "value_of (Some v) = any_of v"

fun map_of_gob :: "gobval option \<Rightarrow> (nat \<rightharpoonup> anyv) option" where
  "map_of_gob (Some (GobMap m)) = Some m"
| "map_of_gob _ = None"

definition scan_row :: "gob \<Rightarrow> instance_row \<Rightarrow> goerr + WorkflowInstance" where
  "scan_row G r =
     (case DecodeValue G TAny (ir_input r) of
        Inl e \<Rightarrow> Inl e
      | Inr inVal \<Rightarrow>
     (case DecodeValue G TAny (ir_output r) of
        Inl e \<Rightarrow> Inl e
      | Inr outVal \<Rightarrow>
     (case DecodeValue G TMapIntAny (ir_step_results r) of
        Inl e \<Rightarrow> Inl e
      | Inr stepResultsVal \<Rightarrow>
          Inr \<lparr>inst_ID = ir_id r, inst_Name = ir_workflow_name r, inst_Version = ir_workflow_version r,
               inst_Fingerprint = ir_workflow_fingerprint r, inst_LeaseOwner = ir_lease_owner r,
               inst_LeaseExpiresAt = (if ir_lease_expires_at r > 0 then ir_lease_expires_at r else zero_time),
               inst_Status = ir_status r, inst_Output = value_of outVal,
               inst_Err = (if ir_error r = '''' then None else Some (ErrMsg (ir_error r))),
               inst_Input = value_of inVal, inst_CurrentStep = ir_current_step r,
               inst_StepResults = map_of_gob stepResultsVal\<rparr>)))"

definition SQL_GetInstance :: "gob \<Rightarrow> string \<Rightarrow> heap \<Rightarrow> instance_table \<Rightarrow> (goerr + addr) \<times> heap" where
  "SQL_GetInstance G i h s =
     (case find_row i s of
        None \<Rightarrow> (Inl ErrInstanceNotFound, h)
      | Some r \<Rightarrow>
          (case scan_row G r of
             Inl e \<Rightarrow> (Inl e, h)
           | Inr inst \<Rightarrow> (let (a, h') = alloc inst h in (Inr a, h'))))"

text \<open>The \<^verbatim>\<open>WHERE\<close> clauses built from the filter.\<close>

definition row_matches :: "InstanceFilter \<Rightarrow> instance_row \<Rightarrow> bool" where
  "row_matches f r \<longleftrightarrow>
     (filter_WorkflowName f \<noteq> '''' \<longrightarrow> ir_workflow_name r = filter_WorkflowName f) \<and>
     (case filter_Status f of None \<Rightarrow> True | Some st \<Rightarrow> ir_status r = st)"

fun scan_rows :: "gob \<Rightarrow> instance_row list \<Rightarrow> heap \<Rightarrow> (goerr + addr list) \<times> heap" where
  "scan_rows G [] h = (Inr [], h)"
| "scan_rows G (r # rs) h =
     (case scan_row G r of
        Inl e \<Rightarrow> (Inl e, h)
      | Inr inst \<Rightarrow>
          let (a, h1) = alloc inst h in
          (case scan_rows G rs h1 of
             (Inl e, h2) \<Rightarrow> (Inl e, h2)
           | (Inr as, h2) \<Rightarrow> (Inr (a # as), h2)))"

definition SQL_ListInstances :: "gob \<Rightarrow> InstanceFilter \<Rightarrow> heap \<Rightarrow> instance_table \<Rightarrow> (goerr + addr list) \<times> heap" where
  "SQL_ListInstances G f h s = scan_rows G (filter (row_matches f) s) h"

section \<open>Leases\<close>

definition lease_free :: "int \<Rightarrow> string \<Rightarrow> instance_row \<Rightarrow> bool" where
  "lease_free nowInt owner r \<longleftrightarrow> ir_lease_owner r = '''' \<or> ir_lease_expires_at r \<le> nowInt \<or> ir_lease_owner r = owner"

definition SQL_TryAcquireLease :: "time \<Rightarrow> goerr option \<Rightarrow> string \<Rightarrow> string \<Rightarrow> duration \<Rightarrow> heap \<times> instance_table
     \<Rightarrow> (goerr + bool) \<times> heap \<times> instance_table" where
  "SQL_TryAcquireLease now cerr i owner ttl hs =
     (let (h, s) = hs; expires = UnixNano (now + ttl); nowInt = UnixNano now;
          P = (\<lambda>r. ir_id r = i \<and> lease_free nowInt owner r)
      in case cerr of
           Some e \<Rightarrow> (Inl e, h, s)
         | None \<Rightarrow>
             (Inr (filter P s \<noteq> []), h,
              map (\<lambda>r. if P r then r\<lparr>ir_lease_owner := owner, ir_lease_expires_at := expires\<rparr> else r) s))"

definition SQL_RenewLease :: "time \<Rightarrow> goerr option \<Rightarrow> string \<Rightarrow> string \<Rightarrow> duration \<Rightarrow> heap \<times> instance_table
     \<Rightarrow> goerr option \<times> heap \<times> instance_table" where
  "SQL_RenewLease now cerr i owner ttl hs =
     (let (h, s) = hs; expires = UnixNano (now + ttl);
          P = (\<lambda>r. ir_id r = i \<and> ir_lease_owner r = owner)
      in case cerr of
           Some e \<Rightarrow> (Some e, h, s)
         | None \<Rightarrow>
             (if filter P s = [] then Some ErrWorkflowInstanceLocked else None, h,
              map (\<lambda>r. if P r then r\<lparr>ir_lease_expires_at := expires\<rparr> else r) s))"

definition SQL_ReleaseLease :: "goerr option \<Rightarrow> string \<Rightarrow> string \<Rightarrow> heap \<times> instance_table \<Rightarrow> goerr option \<times> heap \<times> instance_table" where
  "SQL_ReleaseLease cerr i owner hs =
     (let (h, s) = hs;
          P = (\<lambda>r. ir_id r = i \<and> (ir_lease_owner r = '''' \<or> ir_lease_owner r = owner))
      in case cerr of
           Some e \<Rightarrow> (Some e, h, s)
         | None \<Rightarrow> (None, h, map (\<lambda>r. if P r then r\<lparr>ir_lease_owner := '''', ir_lease_expires_at := 0\<rparr> else r) s))"

definition sqliteStore :: "gob \<Rightarrow> instance_table InstanceStore" where
  "sqliteStore G = \<lparr>is_SaveInstance = SQL_SaveInstance G, is_UpdateInstance = SQL_UpdateInstance G,
     is_GetInstance = SQL_GetInstance G, is_ListInstances = SQL_ListInstances G,
     is_TryAcquireLease = SQL_TryAcquireLease, is_RenewLease = SQL_RenewLease,
     is_ReleaseLease = (\<lambda>now. SQL_ReleaseLease)\<rparr>"

lemma sqliteStore_sel [simp]:
  "is_SaveInstance (sqliteStore G) = SQL_SaveInstance G" "is_UpdateInstance (sqliteStore G) = SQL_UpdateInstance G"
  "is_GetInstance (sqliteStore G) = SQL_GetInstance G" "is_ListInstances (sqliteStore G) = SQL_ListInstances G"
  "is_TryAcquireLease (sqliteStore G) = SQL_TryAcquireLease" "is_RenewLease (sqliteStore G) = SQL_RenewLease"
  "is_ReleaseLease (sqliteStore G) now = SQL_ReleaseLease"
  by (simp_all add: sqliteStore_def)

section \<open>Events\<close>

record event_row =
  er_id :: int
  er_instance_id :: string
  er_at :: int
  er_type :: EventType
  er_workflow_name :: string
  er_workflow_version :: string
  er_step :: int
  er_detail :: string

text \<open>The rows in the order of their \<^verbatim>\<open>AUTOINCREMENT\<close> key, which is the order of insertion.\<close>

type_synonym event_table = "event_row list"

definition NewSQLiteEventStore :: event_table where
  "NewSQLiteEventStore = []"

definition SQL_AppendEvent :: "time \<Rightarrow> goerr option \<Rightarrow> WorkflowEvent \<Rightarrow> event_table \<Rightarrow> goerr option \<times> event_table" where
  "SQL_AppendEvent now cerr ev es =
     (let t = (if IsZero (ev_At ev) then now else ev_At ev) in
      case cerr of
        Some e \<Rightarrow> (Some e, es)
      | None \<Rightarrow> (None, es @ [\<lparr>er_id = int (length es) + 1, er_instance_id = ev_InstanceID ev, er_at = UnixNano t,
                   er_type = ev_Type ev, er_workflow_name = ev_WorkflowName ev,
                   er_workflow_version = ev_WorkflowVersion ev, er_step = ev_Step ev, er_detail = ev_Detail ev\<rparr>]))"

definition row_event :: "event_row \<Rightarrow> WorkflowEvent" where
  "row_event r = \<lparr>ev_InstanceID = er_instance_id r, ev_At = er_at r, ev_Type = er_type r,
     ev_WorkflowName = er_workflow_name r, ev_WorkflowVersion = er_workflow_version r,
     ev_Step = er_step r, ev_Detail = er_detail r\<rparr>"

definition SQL_ListEvents :: "goerr option \<Rightarrow> string \<Rightarrow> event_table \<Rightarrow> goerr + WorkflowEvent list" where
  "SQL_ListEvents cerr i es =
     (case cerr of
        Some e \<Rightarrow> Inl e
      | None \<Rightarrow> Inr (map row_event (filter (\<lambda>r. er_instance_id r = i) es)))"

definition sqliteEvents :: "event_table EventStore" where
  "sqliteEvents = \<lparr>es_AppendEvent = SQL_AppendEvent, es_ListEvents = SQL_ListEvents\<rparr>"

text \<open>
  The event that is listed: one without a time gets that of the append, and a time is kept as its 64-bit count of
  nanoseconds.
\<close>

definition sql_listed :: "time \<Rightarrow> WorkflowEvent \<Rightarrow> WorkflowEvent" where
  "sql_listed now ev = ev\<lparr>ev_At := UnixNano (if IsZero (ev_At ev) then now else ev_At ev)\<rparr>"

lemma sql_listed_int64: "int64 (ev_At ev) \<Longrightarrow> sql_listed now ev = ev"
  by (auto simp: sql_listed_def zero_time_not_int64)

interpretation sqlite_events: event_store sqliteEvents
  "\<lambda>es i. map row_event (filter (\<lambda>r. er_instance_id r = i) es)" sql_listed
  by unfold_locales (auto simp: sqliteEvents_def SQL_ListEvents_def SQL_AppendEvent_def row_event_def sql_listed_def Let_def)

section \<open>The lease contract\<close>

definition row_lease_state :: "instance_row \<Rightarrow> lease" where
  "row_lease_state r =
     (if ir_lease_owner r = '''' then Free else Leased (ir_lease_owner r) (ir_lease_expires_at r))"

definition sql_lease :: "heap \<times> instance_table \<Rightarrow> string \<Rightarrow> lease option" where
  "sql_lease hs i = map_option row_lease_state (find_row i (snd hs))"

definition sql_inv :: "heap \<times> instance_table \<Rightarrow> bool" where
  "sql_inv hs \<longleftrightarrow> distinct (map ir_id (snd hs))"

lemma find_row_Some: "find_row i s = Some r \<Longrightarrow> r \<in> set s \<and> ir_id r = i"
  by (auto simp: find_row_def dest: map_of_SomeD)

lemma find_row_mem: "distinct (map ir_id s) \<Longrightarrow> r \<in> set s \<Longrightarrow> find_row (ir_id r) s = Some r"
  unfolding find_row_def by (rule map_of_is_SomeI) (auto simp: comp_def)

lemma find_row_None: "find_row i s = None \<longleftrightarrow> i \<notin> ir_id ` set s"
  by (auto simp: find_row_def map_of_eq_None_iff image_image)

lemma find_row_map:
  assumes "\<And>r. ir_id (f r) = ir_id r"
  shows "find_row i (map f s) = map_option f (find_row i s)"
  unfolding find_row_def by (induction s) (auto simp: assms)

lemma filter_row:
  assumes "distinct (map ir_id s)"
  shows "filter (\<lambda>r. ir_id r = i \<and> P r) s = [] \<longleftrightarrow> (case find_row i s of None \<Rightarrow> True | Some r \<Rightarrow> \<not> P r)"
proof (cases "find_row i s")
  case None
  then have "i \<notin> ir_id ` set s" by (simp add: find_row_None)
  with None show ?thesis by (auto simp: filter_empty_conv)
next
  case (Some r)
  have "s' = r" if "s' \<in> set s" "ir_id s' = i" for s'
    using find_row_mem [OF assms that(1)] that(2) Some by simp
  with find_row_Some [OF Some] Some show ?thesis by (auto simp: filter_empty_conv)
qed

text \<open>An \<^verbatim>\<open>UPDATE ... WHERE id = ? AND ...\<close> of the lease columns.\<close>

lemma lease_update:
  assumes "sql_inv (h, s)" and "\<And>r. ir_id (f r) = ir_id r"
  shows "sql_inv (h, map (\<lambda>r. if ir_id r = i \<and> P r then f r else r) s)"
    "sql_lease (h, map (\<lambda>r. if ir_id r = i \<and> P r then f r else r) s) =
       (case find_row i s of
          Some r \<Rightarrow> if P r then (sql_lease (h, s))(i \<mapsto> row_lease_state (f r)) else sql_lease (h, s)
        | None \<Rightarrow> sql_lease (h, s))"
proof -
  let ?g = "\<lambda>r. if ir_id r = i \<and> P r then f r else r"
  have id: "ir_id (?g r) = ir_id r" for r by (simp add: assms(2))
  then have "map ir_id (map ?g s) = map ir_id s" by (simp add: comp_def)
  then show "sql_inv (h, map ?g s)" using assms(1) by (simp add: sql_inv_def del: map_map)
  show "sql_lease (h, map ?g s) = (case find_row i s of
          Some r \<Rightarrow> if P r then (sql_lease (h, s))(i \<mapsto> row_lease_state (f r)) else sql_lease (h, s)
        | None \<Rightarrow> sql_lease (h, s))" (is "?l = ?r")
  proof
    fix j
    show "?l j = ?r j"
    proof (cases "find_row j s")
      case None
      then show ?thesis
        by (auto simp: sql_lease_def find_row_map [where f = ?g, OF id] split: option.splits)
    next
      case (Some r)
      then have "ir_id r = j" using find_row_Some by blast
      with Some show ?thesis
        by (auto simp: sql_lease_def find_row_map [where f = ?g, OF id] split: option.splits)
    qed
  qed
qed

interpretation sqlite_leases: lease_store "sqliteStore G" sql_lease sql_inv int64
  for G
proof (unfold_locales, goal_cases)
  case (1 hs now ttl owner i r hs')
  obtain h s where hs: "hs = (h, s)" by (cases hs)
  have d: "distinct (map ir_id s)" using 1(1) by (simp add: hs sql_inv_def)
  have r: "r = Inr (\<not> (case find_row i s of None \<Rightarrow> True | Some r \<Rightarrow> \<not> lease_free now owner r))"
    and hs': "hs' = (h, map (\<lambda>r. if ir_id r = i \<and> lease_free now owner r
        then r\<lparr>ir_lease_owner := owner, ir_lease_expires_at := now + ttl\<rparr> else r) s)"
    using 1(5) 1(2,3) by (simp_all add: hs SQL_TryAcquireLease_def filter_row [OF d] Let_def)
  have "lease_free now owner x \<longleftrightarrow> available now (row_lease_state x) \<or> (\<exists>t. row_lease_state x = Leased owner t)" for x
    using 1(4) by (auto simp: lease_free_def row_lease_state_def)
  with r lease_update [OF 1(1) [unfolded hs], of "\<lambda>r. r\<lparr>ir_lease_owner := owner, ir_lease_expires_at := now + ttl\<rparr>" i
      "lease_free now owner"] 1(4) show ?case
    unfolding hs' hs by (auto simp: sql_lease_def row_lease_state_def split: option.splits)
next
  case (2 hs now ttl owner i e hs')
  obtain h s where hs: "hs = (h, s)" by (cases hs)
  have d: "distinct (map ir_id s)" using 2(1) by (simp add: hs sql_inv_def)
  have e: "e = (if case find_row i s of None \<Rightarrow> True | Some r \<Rightarrow> \<not> ir_lease_owner r = owner
        then Some ErrWorkflowInstanceLocked else None)"
    and hs': "hs' = (h, map (\<lambda>r. if ir_id r = i \<and> ir_lease_owner r = owner
        then r\<lparr>ir_lease_expires_at := now + ttl\<rparr> else r) s)"
    using 2(5) 2(2,3) by (simp_all add: hs SQL_RenewLease_def filter_row [OF d] Let_def)
  from e lease_update [OF 2(1) [unfolded hs], of "\<lambda>r. r\<lparr>ir_lease_expires_at := now + ttl\<rparr>" i
      "\<lambda>r. ir_lease_owner r = owner"] 2(4) show ?case
    unfolding hs' hs by (auto simp: sql_lease_def row_lease_state_def split: option.splits)
next
  case (3 hs owner now i e hs')
  obtain h s where hs: "hs = (h, s)" by (cases hs)
  have hs': "hs' = (h, map (\<lambda>r. if ir_id r = i \<and> (ir_lease_owner r = '''' \<or> ir_lease_owner r = owner)
        then r\<lparr>ir_lease_owner := '''', ir_lease_expires_at := 0\<rparr> else r) s)"
    using 3(3) by (simp add: hs SQL_ReleaseLease_def Let_def)
  from lease_update [OF 3(1) [unfolded hs], of "\<lambda>r. r\<lparr>ir_lease_owner := '''', ir_lease_expires_at := 0\<rparr>" i
      "\<lambda>r. ir_lease_owner r = '''' \<or> ir_lease_owner r = owner"] 3(2) show ?case
    unfolding hs' hs by (auto simp: sql_lease_def row_lease_state_def split: option.splits)
qed

section \<open>The contract of the engine\<close>

lemma scan_row_ID: "scan_row G r = Inr inst \<Longrightarrow> inst_ID inst = ir_id r"
  by (auto simp: scan_row_def split: sum.splits)

lemma scan_row_lease: "scan_row G r = Inr inst \<Longrightarrow> inst_LeaseOwner inst = ir_lease_owner r"
  by (auto simp: scan_row_def split: sum.splits)

lemma make_row_ID: "make_row G inst = Inr r \<Longrightarrow> ir_id r = inst_ID inst"
  by (auto simp: make_row_def split: sum.splits)

lemma scan_rows_heap:
  "scan_rows G rs h = (r, h') \<Longrightarrow> \<exists>g. h' = h @ g \<and> (\<forall>as. r = Inr as \<longrightarrow> (\<forall>a \<in> set as. a < length h'))"
proof (induction rs arbitrary: h r h')
  case (Cons x rs)
  show ?case
  proof (cases "scan_row G x")
    case (Inl e)
    with Cons.prems show ?thesis by auto
  next
    case (Inr inst)
    obtain r2 h2 where s: "scan_rows G rs (h @ [inst]) = (r2, h2)" by (cases "scan_rows G rs (h @ [inst])")
    from Cons.IH [OF s] obtain g where "h2 = (h @ [inst]) @ g"
      "\<forall>as. r2 = Inr as \<longrightarrow> (\<forall>a \<in> set as. a < length h2)" by blast
    with Cons.prems Inr s show ?thesis by (auto simp: alloc_def split: sum.splits)
  qed
qed simp

lemma sql_inv_append: "sql_inv (h, s) \<Longrightarrow> find_row (ir_id r) s = None \<Longrightarrow> sql_inv (h, s @ [r])"
  by (simp add: sql_inv_def find_row_None)

lemma SQL_UpdateInstance_inv:
  assumes "sql_inv (h, s)" "SQL_UpdateInstance G a h s = (err, s')"
  shows "sql_inv (h, s')"
proof (cases "make_row G (deref h a)")
  case (Inl e)
  with assms show ?thesis by (simp add: SQL_UpdateInstance_def)
next
  case (Inr r)
  have "map ir_id (map (\<lambda>x. if ir_id x = ir_id r then r else x) s) = map ir_id s" by (auto simp: comp_def)
  with Inr assms show ?thesis by (auto simp: SQL_UpdateInstance_def Let_def sql_inv_def simp del: map_map)
qed

lemma SQL_leases_frame:
  "sql_inv (h, s) \<Longrightarrow> SQL_TryAcquireLease now cerr i owner ttl (h, s) = (rb, h', s') \<Longrightarrow> sql_inv (h', s') \<and> h' = h"
  "sql_inv (h, s) \<Longrightarrow> SQL_RenewLease now cerr i owner ttl (h, s) = (err, h', s') \<Longrightarrow> sql_inv (h', s') \<and> h' = h"
  "sql_inv (h, s) \<Longrightarrow> SQL_ReleaseLease cerr i owner (h, s) = (err, h', s') \<Longrightarrow> sql_inv (h', s') \<and> h' = h"
  by (auto simp: SQL_TryAcquireLease_def SQL_RenewLease_def SQL_ReleaseLease_def Let_def
      intro!: lease_update(1) split: option.splits)

interpretation sqlite_engine: engine_store "sqliteStore G" sql_inv
  for G
proof (unfold_locales, goal_cases)
  case (1 h s i r h')
  then show ?case using find_row_Some [of i s]
    by (auto simp: SQL_GetInstance_def alloc_def sql_inv_def dest: scan_row_ID split: option.splits sum.splits)
next
  case (2 h s f rs h')
  then show ?case using scan_rows_heap [of G "filter (row_matches f) s" h rs h']
    by (auto simp: SQL_ListInstances_def sql_inv_def)
next
  case (3 h s a err s')
  then show ?case
    by (auto simp: SQL_SaveInstance_def intro: sql_inv_append split: sum.splits if_splits)
next
  case (4 h s a err s')
  then show ?case using SQL_UpdateInstance_inv by simp
next
  case (5 h s now cerr i owner ttl rb h' s')
  then show ?case using SQL_leases_frame(1) [of h s now cerr i owner ttl rb h' s'] by auto
next
  case (6 h s now cerr i owner ttl err h' s')
  then show ?case using SQL_leases_frame(2) [of h s now cerr i owner ttl err h' s'] by auto
next
  case (7 h s now cerr i owner err h' s')
  then show ?case using SQL_leases_frame(3) [of h s cerr i owner err h' s'] by auto
qed (simp_all add: sql_inv_def)

section \<open>What is read is what was written\<close>

text \<open>
  An instance after a trip through the database: values as gob rebuilds them, the error as
  a plain message, times before 1970 as the zero time, a nil map of results as an empty one.
\<close>

definition reload :: "gob \<Rightarrow> WorkflowInstance \<Rightarrow> WorkflowInstance" where
  "reload G x = x\<lparr>inst_Input := the (gob_image G (inst_Input x)), inst_Output := the (gob_image G (inst_Output x)),
     inst_StepResults := Some (\<lambda>k. Option.bind (cached x k) (gob_image G)),
     inst_Err := (case inst_Err x of None \<Rightarrow> None | Some e \<Rightarrow> if Error e = '''' then None else Some (ErrMsg (Error e))),
     inst_LeaseExpiresAt := (if 0 < UnixNano (inst_LeaseExpiresAt x) then UnixNano (inst_LeaseExpiresAt x) else zero_time)\<rparr>"

lemma EncodeValue_image: "EncodeValue G v = Inr b \<Longrightarrow> gob_image G v \<noteq> None"
  by (auto simp: EncodeValue_def gob_Encode_iface_def split: if_splits option.splits)

lemma value_of_image: "gob_image G v \<noteq> None \<Longrightarrow>
    value_of (if v = VNil then None else map_option GobAny (gob_image G v)) = the (gob_image G v)"
  by auto

lemma scan_make_row:
  assumes "make_row G inst = Inr r"
  shows "scan_row G r = Inr (reload G inst)"
proof -
  from assms obtain i out sr where e: "EncodeValue G (inst_Input inst) = Inr i"
    "EncodeValue G (inst_Output inst) = Inr out" "EncodeStepResults G (inst_StepResults inst) = Inr sr"
    and r: "r = \<lparr>ir_id = inst_ID inst, ir_workflow_name = inst_Name inst, ir_workflow_version = inst_Version inst,
               ir_workflow_fingerprint = inst_Fingerprint inst, ir_status = inst_Status inst,
               ir_current_step = inst_CurrentStep inst, ir_input = i, ir_output = out,
               ir_step_results = sr,
               ir_error = (case inst_Err inst of None \<Rightarrow> '''' | Some e \<Rightarrow> Error e),
               ir_lease_owner = inst_LeaseOwner inst,
               ir_lease_expires_at = UnixNano (inst_LeaseExpiresAt inst)\<rparr>"
    by (auto simp: make_row_def split: sum.splits)
  have c: "Option.bind (inst_StepResults inst) (\<lambda>m. m k) = cached inst k" for k
    by (cases "inst_StepResults inst") (simp_all add: cached_def)
  show ?thesis
    using EncodeValue_DecodeValue [OF e(1)] EncodeValue_DecodeValue [OF e(2)] EncodeStepResults_DecodeValue [OF e(3)]
      value_of_image [OF EncodeValue_image [OF e(1)]] value_of_image [OF EncodeValue_image [OF e(2)]]
    by (simp add: scan_row_def r reload_def c split: option.splits)
qed

lemma SQL_save_get:
  assumes "SQL_SaveInstance G a h s = (None, s')"
  shows "SQL_GetInstance G (inst_ID (deref h a)) g s' = (Inr (length g), g @ [reload G (deref h a)])"
    "j \<noteq> inst_ID (deref h a) \<Longrightarrow> find_row j s' = find_row j s"
proof -
  from assms obtain r where r: "make_row G (deref h a) = Inr r" "find_row (ir_id r) s = None" "s' = s @ [r]"
    by (auto simp: SQL_SaveInstance_def split: sum.splits if_splits)
  have f: "find_row j s' = (if j = ir_id r then Some r else find_row j s)" for j
    using r(2) by (auto simp: r(3) find_row_def map_add_def split: option.splits)
  show "SQL_GetInstance G (inst_ID (deref h a)) g s' = (Inr (length g), g @ [reload G (deref h a)])"
    using f scan_make_row [OF r(1)] make_row_ID [OF r(1)] by (simp add: SQL_GetInstance_def alloc_def)
  show "find_row j s' = find_row j s" if "j \<noteq> inst_ID (deref h a)"
    using f that make_row_ID [OF r(1)] by simp
qed

lemma find_row_replace:
  "find_row j (map (\<lambda>x. if ir_id x = ir_id r then r else x) s) =
     (if j = ir_id r then map_option (\<lambda>_. r) (find_row j s) else find_row j s)"
  unfolding find_row_def by (induction s) auto

lemma SQL_update_cases:
  assumes "SQL_UpdateInstance G a h s = (err, s')"
  shows "(\<exists>e. make_row G (deref h a) = Inl e \<and> err = Some e \<and> s' = s) \<or>
    (\<exists>r. make_row G (deref h a) = Inr r \<and> s' = map (\<lambda>x. if ir_id x = ir_id r then r else x) s \<and>
       err = (if find_row (ir_id r) s = None then Some ErrInstanceNotFound else None))"
proof (cases "make_row G (deref h a)")
  case (Inr r)
  have "filter (\<lambda>x. ir_id x = ir_id r) s = [] \<longleftrightarrow> find_row (ir_id r) s = None"
    unfolding find_row_None filter_empty_conv by (metis imageE image_eqI)
  with Inr assms show ?thesis by (auto simp: SQL_UpdateInstance_def Let_def)
qed (use assms in \<open>simp add: SQL_UpdateInstance_def\<close>)

lemma SQL_update_get:
  assumes "SQL_UpdateInstance G a h s = (None, s')"
  shows "SQL_GetInstance G (inst_ID (deref h a)) g s' = (Inr (length g), g @ [reload G (deref h a)])"
    "j \<noteq> inst_ID (deref h a) \<Longrightarrow> find_row j s' = find_row j s"
proof -
  from SQL_update_cases [OF assms] obtain r where r: "make_row G (deref h a) = Inr r"
    "s' = map (\<lambda>x. if ir_id x = ir_id r then r else x) s" "find_row (ir_id r) s \<noteq> None"
    by (auto split: if_splits)
  have f: "find_row j s' = (if j = ir_id r then Some r else find_row j s)" for j
    unfolding r(2) find_row_replace using r(3) by auto
  show "SQL_GetInstance G (inst_ID (deref h a)) g s' = (Inr (length g), g @ [reload G (deref h a)])"
    using f scan_make_row [OF r(1)] make_row_ID [OF r(1)] by (simp add: SQL_GetInstance_def alloc_def)
  show "find_row j s' = find_row j s" if "j \<noteq> inst_ID (deref h a)"
    using f that make_row_ID [OF r(1)] by simp
qed

text \<open>Plain instances survive unchanged.\<close>

definition storable :: "gob \<Rightarrow> WorkflowInstance \<Rightarrow> bool" where
  "storable G x \<longleftrightarrow> gob_ok G (inst_Input x) \<and> gob_ok G (inst_Output x) \<and>
     (\<exists>m. inst_StepResults x = Some m \<and> (\<forall>v \<in> ran m. gob_ok G v)) \<and>
     (inst_LeaseExpiresAt x = zero_time \<or> 0 < inst_LeaseExpiresAt x \<and> int64 (inst_LeaseExpiresAt x)) \<and>
     (\<forall>e. inst_Err x = Some e \<longrightarrow> (\<exists>s. e = ErrMsg s \<and> s \<noteq> ''''))"

lemma reload_storable: "storable G x \<Longrightarrow> reload G x = x"
proof -
  assume s: "storable G x"
  then obtain m where m: "inst_StepResults x = Some m" "\<forall>v \<in> ran m. gob_ok G v" by (auto simp: storable_def)
  have "Option.bind (m k) (gob_image G) = m k" for k
    using m(2) by (cases "m k") (auto simp: gob_ok_def ran_def)
  then have "inst_StepResults x = Some (\<lambda>k. Option.bind (cached x k) (gob_image G))"
    using m(1) by (simp add: cached_def)
  moreover have "(if 0 < UnixNano (inst_LeaseExpiresAt x) then UnixNano (inst_LeaseExpiresAt x) else zero_time) =
      inst_LeaseExpiresAt x"
    using s by (auto simp: storable_def UnixNano_zero_time)
  ultimately show ?thesis
    using s unfolding reload_def by (auto simp: storable_def gob_ok_def split: option.splits)
qed

lemma make_row_storable: "storable G x \<Longrightarrow> \<exists>r. make_row G x = Inr r"
  by (auto simp: storable_def make_row_def EncodeValue_def EncodeStepResults_def gob_ok_def Let_def
      split: sum.splits if_splits dest!: gob_ok_Encode [unfolded gob_ok_def, OF conjI])

section \<open>What a run leaves in the store\<close>

text \<open>The values of an instance can be encoded.\<close>

definition encodable :: "gob \<Rightarrow> WorkflowInstance \<Rightarrow> bool" where
  "encodable G x \<longleftrightarrow> \<not> isl (EncodeValue G (inst_Input x)) \<and> \<not> isl (EncodeValue G (inst_Output x)) \<and>
     \<not> isl (EncodeStepResults G (inst_StepResults x))"

lemma encodable_strip [simp]: "encodable G (strip_lease x) = encodable G x"
  by (simp add: encodable_def)

lemma encodable_new:
  "encodable G y \<Longrightarrow> same_identity x y \<Longrightarrow> inst_Output x = VNil \<Longrightarrow> inst_StepResults x = Some Map.empty \<Longrightarrow> encodable G x"
  by (simp add: encodable_def same_identity_def EncodeValue_def [of G VNil] EncodeStepResults_def)

lemma encodable_row: "encodable G x \<longleftrightarrow> (\<exists>r. make_row G x = Inr r)"
  by (auto simp: encodable_def make_row_def split: sum.splits)

lemma strip_reload [simp]: "strip_lease (reload G (strip_lease x)) = strip_lease (reload G x)"
  by (simp add: reload_def cached_def) (simp add: strip_lease_def)

definition row_image :: "gob \<Rightarrow> instance_row \<Rightarrow> WorkflowInstance option" where
  "row_image G r = (case scan_row G r of Inl _ \<Rightarrow> None | Inr x \<Rightarrow> Some (strip_lease x))"

lemma stored_in_sqlite: "stored_in (sqliteStore G) i s = Option.bind (find_row i s) (row_image G)"
  by (auto simp: stored_in_def SQL_GetInstance_def alloc_def row_image_def deref_def split: option.splits sum.splits)

lemma row_image_lease [simp]: "row_image G (r\<lparr>ir_lease_owner := ow, ir_lease_expires_at := t\<rparr>) = row_image G r"
  by (simp add: row_image_def scan_row_def strip_lease_def split: sum.splits)

lemma find_row_leases:
  "SQL_TryAcquireLease now cerr j owner ttl (h, s) = (rb, h', s') \<Longrightarrow> find_row i s' = None \<longleftrightarrow> find_row i s = None"
  "SQL_RenewLease now cerr j owner ttl (h, s) = (err, h', s') \<Longrightarrow> find_row i s' = None \<longleftrightarrow> find_row i s = None"
  "SQL_ReleaseLease cerr j owner (h, s) = (err, h', s') \<Longrightarrow> find_row i s' = None \<longleftrightarrow> find_row i s = None"
  "SQL_ReleaseLease cerr j owner (h, s) = (err, h', s') \<Longrightarrow>
     Option.bind (find_row i s') (row_image G) = Option.bind (find_row i s) (row_image G)"
  by (auto simp: SQL_TryAcquireLease_def SQL_RenewLease_def SQL_ReleaseLease_def Let_def find_row_map
      split: option.splits bind_splits)

lemma find_row_writes:
  "SQL_SaveInstance G a h s = (err, s') \<Longrightarrow> find_row i s \<noteq> None \<Longrightarrow> find_row i s' \<noteq> None"
  "SQL_UpdateInstance G a h s = (err, s') \<Longrightarrow> find_row i s' = None \<longleftrightarrow> find_row i s = None"
proof -
  show "find_row i s' \<noteq> None" if "SQL_SaveInstance G a h s = (err, s')" "find_row i s \<noteq> None"
    using that unfolding find_row_None by (auto simp: SQL_SaveInstance_def split: sum.splits if_splits)
  show "find_row i s' = None \<longleftrightarrow> find_row i s = None" if "SQL_UpdateInstance G a h s = (err, s')"
    using SQL_update_cases [OF that] by (auto simp: find_row_replace split: if_splits)
qed

interpretation sqlite_durable: durable_store "sqliteStore G" sql_inv key
  "\<lambda>s. find_row (fst key) s = None" "\<lambda>s. find_row (fst key) s \<noteq> None" "encodable G"
  "\<lambda>x. strip_lease (reload G x)" "stored_in (sqliteStore G) (fst key)"
  for G key
proof (unfold_locales, goal_cases)
  case (1 h s a err s')
  then have "encodable G (deref h a)" by simp
  then obtain r where r: "make_row G (deref h a) = Inr r" by (auto simp: encodable_row)
  with 1(2,4,6) make_row_ID [OF r] show ?case
    by (auto simp: SQL_SaveInstance_def identity_def find_row_None)
next
  case (2 y x)
  then show ?case by (rule encodable_new)
next
  case (3 h s a h')
  then show ?case by (auto simp: SQL_GetInstance_def split: option.splits)
next
  case (8 h a s err s')
  then have "\<not> encodable G (deref h a)" by simp
  with 8(2) show ?case by (auto simp: encodable_row SQL_UpdateInstance_def split: sum.splits)
next
  case (10 h s a err s')
  then have "encodable G (deref h a)" by simp
  then obtain r where r: "make_row G (deref h a) = Inr r" by (auto simp: encodable_row)
  have i: "fst key = inst_ID (deref h a)" using 10(3) by (auto simp: identity_def)
  have "err = None" using SQL_update_cases [of G a h s err s'] 10(2,5) r make_row_ID [OF r] i by auto
  with SQL_update_get(1) [of G a h s s' "[]"] 10(5) i show ?case by (simp add: stored_in_def deref_def)
qed (auto simp: stored_in_sqlite find_row_writes find_row_leases)

end
