(* ===== verification/Sqlite_Props.thy ===== *)
theory Sqlite_Props
  imports Sqlite_Store
begin

text \<open>
  Properties of the SQLite back end: values and instances survive the database, leases exclude
  other engines, and histories are kept in order. The last theorem shows where the store does not give
  the engine what it relies on.
\<close>

section \<open>Fixtures\<close>

definition stored_inst :: WorkflowInstance where
  "stored_inst = \<lparr>inst_ID = ''wf-1'', inst_Name = ''order'', inst_Version = ''v1'', inst_Fingerprint = ''f'',
     inst_LeaseOwner = '''', inst_LeaseExpiresAt = zero_time, inst_Status = StatusFailed, inst_Output = VNil,
     inst_Err = Some (ErrMsg ''boom''), inst_Input = StartWorkflowPayload (VInt 3), inst_CurrentStep = 1,
     inst_StepResults = Some [0 \<mapsto> VStrings [''a'', ''b'']]\<rparr>"

lemma stored_inst_storable: "storable plain_gob stored_inst"
  by (auto simp: storable_def stored_inst_def ran_def)

section \<open>Runs on the in-memory and on the SQLite store\<close>

lemma encodable_new_instance: "encodable G (new_instance i def st v) \<longleftrightarrow> \<not> isl (EncodeValue G v)"
  by (simp add: encodable_def new_instance_def EncodeValue_def [of G VNil] EncodeStepResults_def)

text \<open>Whether SQLite accepts a new instance.\<close>

lemma SQL_save_new:
  assumes "a = length h" "x = new_instance i def st v"
  shows "if find_row i s = None \<and> \<not> isl (EncodeValue G v) then fst (SQL_SaveInstance G a (h @ [x]) s) = None
    else \<exists>er. SQL_SaveInstance G a (h @ [x]) s = (Some er, s)"
proof -
  have "inst_ID x = i" using assms(2) by (simp add: new_instance_def)
  moreover have "encodable G x \<longleftrightarrow> \<not> isl (EncodeValue G v)" using assms(2) by (simp add: encodable_new_instance)
  ultimately show ?thesis
    by (cases "make_row G x") (auto simp: SQL_SaveInstance_def assms(1) encodable_row dest: make_row_ID)
qed

lemma Run_refused:
  assumes "GetLatestWorkflow name (w_workflows w) = Inr def"
    and "is_SaveInstance (e_instances e) (length (w_heap w)) (w_heap w @ [new_instance (fst (nextInstanceID w)) def StatusRunning v])
      (w_store w) = (Some er, s')"
  shows "\<exists>w'. (\<forall>R. Run e R c name v w = (Done (Some (length (w_heap w)), Some er), w')) \<and> w_store w' = s' \<and>
    w_inst w' (length (w_heap w)) = mark_failed er (new_instance (fst (nextInstanceID w)) def StatusRunning v)"
proof -
  obtain a erro w' where cr: "create_instance e def StatusRunning v w = ((a, erro), w')" by (metis prod.exhaust)
  with create_instance_saved [OF cr] assms(2) have "erro = Some er" "w_store w' = s'"
    "w_inst w' a = mark_failed er (new_instance (fst (nextInstanceID w)) def StatusRunning v)" by auto
  moreover have "a = length (w_heap w)"
    using cr by (auto simp: create_instance_def nextInstanceID_def alloc_def Let_def split: prod.splits option.splits)
  ultimately show ?thesis using assms(1) cr by (auto simp: Run_def)
qed

text \<open>
  C1: Running a workflow computes the fold of its step functions. For every workflow whose
  steps return a value that depends only on their input (whatever else they do), \<^verbatim>\<open>Run\<close> with a
  context that is never cancelled returns, and the new instance ends COMPLETED with the
  output of the last step, or stopped at the first step that returns an error: WAITING when
  the error asks to wait, FAILED with that error otherwise (after all its retries). On the in-memory store this is
  always so. On SQLite it is so if and only if the store takes the new instance: when the identifier the engine
  gives is not in the table (after a restart it may be) and the input can be encoded. Otherwise \<^verbatim>\<open>Run\<close> returns the
  error of the store with a FAILED instance, the table is as before, and no step is executed: the outcome is the
  same whatever executing a step would do.
\<close>

theorem Run_refines_fold:
  assumes "ctx_cancel c = None"
  shows "(e_instances e = memoryStore \<and> wf_world mem_inv w \<and> GetLatestWorkflow name (w_workflows w) = Inr def \<and>
      list_all2 (\<lambda>s g. computes mem_inv (step_runner e n d) (step_Fn s) g) (def_Steps def) gs \<longrightarrow>
        (\<exists>w'. Run e (step_runner e n d) c name input w = (Done (Some (length (w_heap w)), spec_err (run_spec gs 0 input)), w') \<and>
          spec_post (length gs) (run_spec gs 0 input) (w_inst w' (length (w_heap w))))) \<and>
    (e_instances f = sqliteStore G \<and> wf_world sql_inv u \<and> GetLatestWorkflow name (w_workflows u) = Inr fdef \<and>
      list_all2 (\<lambda>s g. computes sql_inv (step_runner f n d) (step_Fn s) g) (def_Steps fdef) gs \<longrightarrow>
        (if find_row (fst (nextInstanceID u)) (w_store u) = None \<and> \<not> isl (EncodeValue G input)
         then \<exists>u'. Run f (step_runner f n d) c name input u = (Done (Some (length (w_heap u)), spec_err (run_spec gs 0 input)), u') \<and>
           spec_post (length gs) (run_spec gs 0 input) (w_inst u' (length (w_heap u)))
         else \<exists>er u'. (\<forall>R. Run f R c name input u = (Done (Some (length (w_heap u)), Some er), u')) \<and> w_store u' = w_store u \<and>
           inst_Status (w_inst u' (length (w_heap u))) = StatusFailed \<and> inst_Err (w_inst u' (length (w_heap u))) = Some er))"
proof (intro conjI impI; elim conjE)
  assume e: "e_instances e = memoryStore" and w: "wf_world mem_inv w" and def: "GetLatestWorkflow name (w_workflows w) = Inr def"
    and gs: "list_all2 (\<lambda>s g. computes mem_inv (step_runner e n d) (step_Fn s) g) (def_Steps def) gs"
  from mem_engine.Run_computes [OF e mem_engine.step_runner_frame [OF e] assms w def gs mem_save_ok]
  show "\<exists>w'. Run e (step_runner e n d) c name input w = (Done (Some (length (w_heap w)), spec_err (run_spec gs 0 input)), w') \<and>
          spec_post (length gs) (run_spec gs 0 input) (w_inst w' (length (w_heap w)))" by blast
next
  let ?x = "new_instance (fst (nextInstanceID u)) fdef StatusRunning input"
  assume f: "e_instances f = sqliteStore G" and u: "wf_world sql_inv u" and def: "GetLatestWorkflow name (w_workflows u) = Inr fdef"
    and gs: "list_all2 (\<lambda>s g. computes sql_inv (step_runner f n d) (step_Fn s) g) (def_Steps fdef) gs"
  note save = SQL_save_new [OF refl refl, of "fst (nextInstanceID u)" "w_store u" G input "w_heap u" fdef StatusRunning]
  show "if find_row (fst (nextInstanceID u)) (w_store u) = None \<and> \<not> isl (EncodeValue G input)
         then \<exists>u'. Run f (step_runner f n d) c name input u = (Done (Some (length (w_heap u)), spec_err (run_spec gs 0 input)), u') \<and>
           spec_post (length gs) (run_spec gs 0 input) (w_inst u' (length (w_heap u)))
         else \<exists>er u'. (\<forall>R. Run f R c name input u = (Done (Some (length (w_heap u)), Some er), u')) \<and> w_store u' = w_store u \<and>
           inst_Status (w_inst u' (length (w_heap u))) = StatusFailed \<and> inst_Err (w_inst u' (length (w_heap u))) = Some er"
  proof (cases "find_row (fst (nextInstanceID u)) (w_store u) = None \<and> \<not> isl (EncodeValue G input)")
    case True
    with save have "fst (is_SaveInstance (sqliteStore G) (length (w_heap u)) (w_heap u @ [?x]) (w_store u)) = None" by simp
    from sqlite_engine.Run_computes [OF f sqlite_engine.step_runner_frame [OF f] assms u def gs this] True show ?thesis by auto
  next
    case False
    with save obtain er where "is_SaveInstance (e_instances f) (length (w_heap u)) (w_heap u @ [?x]) (w_store u) = (Some er, w_store u)"
      by (auto simp: f)
    from Run_refused [OF def this, of c] False show ?thesis by (auto simp: mark_failed_def)
  qed
qed

definition fold_engine :: "(instance_table, unit, event_table) engineImpl" where
  "fold_engine = NewEngineWithConfig ''00'' (\<lambda>p. pl_Name p) sample_build (\<lambda>r. 0)
     \<lparr>cfg_Instances = sqliteStore plain_gob, cfg_Events = Some sqliteEvents, cfg_Queue = None, cfg_EngineID = ''e1'', cfg_LeaseTTL = 0\<rparr>"

definition fold_world :: "instance_table \<Rightarrow> (instance_table, unit, event_table, unit) world" where
  "fold_world s = \<lparr>w_heap = [], w_clock = 1000, w_workflows = [(''wf'', [(''v1'', sample_def)])],
     w_store = s, w_events = [], w_queue = (), w_log = [], w_nextID = 0, w_extern = ()\<rparr>"

theorem Run_refines_fold_witness:
  "(\<exists>w'. Run sample_engine (step_runner sample_engine 0 0) Background ''wf'' (VInt 4) sample_world =
      (Done (Some 0, None), w') \<and> inst_Status (w_inst w' 0) = StatusCompleted \<and>
      inst_Output (w_inst w' 0) = VInt 10) \<and>
   (\<exists>w'. Run fold_engine (step_runner fold_engine 0 0) Background ''wf'' (VInt 4) (fold_world []) =
      (Done (Some 0, None), w') \<and> inst_Status (w_inst w' 0) = StatusCompleted \<and>
      inst_Output (w_inst w' 0) = VInt 10)"
proof -
  have c: "ctx_cancel Background = None" by (simp add: Background_def)
  have r: "run_spec [sample_inc, sample_check] 0 (VInt 4) = Inr (VInt 10)" by (simp add: sample_inc_def sample_check_def)
  have w: "wf_world mem_inv sample_world" using sample_world_inv by (simp add: wf_world_def)
  from Run_refines_fold [where n = 0 and d = 0 and input = "VInt 4", OF c, THEN conjunct1, THEN mp, OF conjI [OF sample_engine_sel(1) conjI [OF w conjI [OF sample_latest sample_computes]]]] r
  have mem: "\<exists>w'. Run sample_engine (step_runner sample_engine 0 0) Background ''wf'' (VInt 4) sample_world =
      (Done (Some 0, None), w') \<and> inst_Status (w_inst w' 0) = StatusCompleted \<and>
      inst_Output (w_inst w' 0) = VInt 10" by (auto simp: spec_err_def spec_post_def)
  have f: "e_instances fold_engine = sqliteStore plain_gob" by (simp add: fold_engine_def NewEngineWithConfig_def)
  have u: "wf_world sql_inv (fold_world [])" "GetLatestWorkflow ''wf'' (w_workflows (fold_world [])) = Inr sample_def"
    "find_row i (w_store (fold_world [])) = None" "w_heap (fold_world []) = []" for i
    by (simp_all add: fold_world_def wf_world_def sql_inv_def GetLatestWorkflow_def find_row_def)
  have v: "\<not> isl (EncodeValue plain_gob (VInt 4))"
    by (simp add: EncodeValue_def gob_Encode_iface_def gob_knows_def registered_by_init_def)
  from Run_refines_fold [where n = 0 and d = 0 and input = "VInt 4", OF c, THEN conjunct2, THEN mp, OF conjI [OF f conjI [OF u(1) conjI [OF u(2) sample_computes]]]] r u v
  have "\<exists>w'. Run fold_engine (step_runner fold_engine 0 0) Background ''wf'' (VInt 4) (fold_world []) =
      (Done (Some 0, None), w') \<and> inst_Status (w_inst w' 0) = StatusCompleted \<and>
      inst_Output (w_inst w' 0) = VInt 10" by (auto simp: spec_err_def spec_post_def)
  with mem show ?thesis by blast
qed

text \<open>
  C2: Replay. On the in-memory and on the SQLite store, a step that has a cached result is not executed again by
  \<^verbatim>\<open>executeSteps\<close>: it behaves the same, on every world, when the definitions of the steps for which the
  instance object has a result are replaced by anything whatsoever. (Whether a result is still there after a
  restart depends on the store: a result that could not be encoded is gone, and its step is executed again.)
\<close>

theorem cached_steps_not_executed:
  assumes "ctx_wf c" "length (def_Steps def') = length (def_Steps def)"
  shows "(e_instances e = memoryStore \<and> wf_world mem_inv w \<and> a < length (w_heap w) \<and>
      (\<forall>k < length (def_Steps def). cached (w_inst w a) k = None \<longrightarrow> def_Steps def' ! k = def_Steps def ! k) \<longrightarrow>
      executeSteps e (step_runner e n d) c def' a start input w = executeSteps e (step_runner e n d) c def a start input w) \<and>
    (e_instances f = sqliteStore G \<and> wf_world sql_inv u \<and> a < length (w_heap u) \<and>
      (\<forall>k < length (def_Steps def). cached (w_inst u a) k = None \<longrightarrow> def_Steps def' ! k = def_Steps def ! k) \<longrightarrow>
      executeSteps f (step_runner f n d) c def' a start input u = executeSteps f (step_runner f n d) c def a start input u)"
proof (intro conjI impI; elim conjE)
  assume "e_instances e = memoryStore" "wf_world mem_inv w" "a < length (w_heap w)"
    "\<forall>k < length (def_Steps def). cached (w_inst w a) k = None \<longrightarrow> def_Steps def' ! k = def_Steps def ! k"
  then show "executeSteps e (step_runner e n d) c def' a start input w = executeSteps e (step_runner e n d) c def a start input w"
    by (intro mem_engine.executeSteps_ignores_cached mem_engine.step_runner_frame assms)
next
  assume "e_instances f = sqliteStore G" "wf_world sql_inv u" "a < length (w_heap u)"
    "\<forall>k < length (def_Steps def). cached (w_inst u a) k = None \<longrightarrow> def_Steps def' ! k = def_Steps def ! k"
  then show "executeSteps f (step_runner f n d) c def' a start input u = executeSteps f (step_runner f n d) c def a start input u"
    by (intro sqlite_engine.executeSteps_ignores_cached sqlite_engine.step_runner_frame assms)
qed

theorem cached_steps_not_executed_witness:
  "executeSteps sample_engine (step_runner sample_engine 0 0) Background changed_def 0 0 (VInt 4) failed_world =
     executeSteps sample_engine (step_runner sample_engine 0 0) Background sample_def 0 0 (VInt 4) failed_world"
proof -
  have "\<forall>k < length (def_Steps sample_def). cached (w_inst failed_world 0) k = None \<longrightarrow>
      def_Steps changed_def ! k = def_Steps sample_def ! k"
    by (auto simp: sample_def_def changed_def_def failed_world_def cached_def w_inst_def deref_def less_Suc_eq)
  moreover have "wf_world mem_inv failed_world" "0 < length (w_heap failed_world)" "length (def_Steps changed_def) = length (def_Steps sample_def)"
    using failed_world_inv by (simp_all add: wf_world_def failed_world_def changed_def_def sample_def_def)
  ultimately show ?thesis
    using cached_steps_not_executed [of Background changed_def sample_def sample_engine failed_world 0, THEN conjunct1] sample_engine_sel(1)
    by simp
qed

section \<open>Persistence\<close>



text \<open>
  Values survive gob. Whatever \<^verbatim>\<open>EncodeValue\<close> accepts, \<^verbatim>\<open>DecodeValue\<close> reads back as the value gob
  rebuilds, which for values of the basic types and of the payload types of the package is the value
  itself; payloads that older versions stored as concrete values of a common type are read as well.
\<close>

theorem gob_roundtrip:
  shows "(EncodeValue G v = Inr b \<longrightarrow>
      DecodeValue G TAny b = Inr (if v = VNil then None else Some (GobAny (the (gob_image G v)))) \<and>
      (gob_ok G v \<longrightarrow> the (gob_image G v) = v)) \<and>
    (gobval_type (GobAny v) \<in> set common_types \<longrightarrow>
      DecodeValue G TAny (Some (GobConcrete (GobAny v))) = Inr (Some (GobAny v)))"
  using EncodeValue_DecodeValue [of G v b] EncodeValue_image [of G v b] DecodeValue_legacy [of v G]
  by (auto simp: gob_ok_def)

theorem gob_roundtrip_witness:
  "DecodeValue plain_gob TAny (Some (GobInterface (GobAny (SignalPayload ''ok'' (VInt 7))))) =
     Inr (Some (GobAny (SignalPayload ''ok'' (VInt 7)))) \<and>
   DecodeValue plain_gob TAny (Some (GobConcrete (GobAny (VString ''x'')))) = Inr (Some (GobAny (VString ''x'')))"
proof -
  have "EncodeValue plain_gob (SignalPayload ''ok'' (VInt 7)) = Inr (Some (GobInterface (GobAny (SignalPayload ''ok'' (VInt 7)))))"
    by (simp add: EncodeValue_def)
  with gob_roundtrip [of plain_gob "SignalPayload ''ok'' (VInt 7)"] gob_roundtrip [of plain_gob "VString ''x''"]
  show ?thesis by (simp add: common_types_def)
qed

text \<open>
  C25: Histories. After any sequence of events of any instances is appended to a new event store, each at
  some clock reading, \<^verbatim>\<open>ListEvents\<close> returns exactly the events of the instance asked for, in the order they were
  appended. The in-memory store returns the events themselves. The SQLite store returns them with the time it
  stored: that of the append for an event without a time, and the 64-bit count of nanoseconds otherwise, so
  an event with a time that fits (the years 1678 to 2262) is returned unchanged.
\<close>

theorem history_complete_in_order:
  shows "es_ListEvents memoryEvents None i (append_events memoryEvents evs []) =
      Inr (map snd (filter (\<lambda>(now, ev). ev_InstanceID ev = i) evs)) \<and>
    es_ListEvents sqliteEvents None i (append_events sqliteEvents evs NewSQLiteEventStore) =
      Inr (map (\<lambda>(now, ev). ev\<lparr>ev_At := UnixNano (if IsZero (ev_At ev) then now else ev_At ev)\<rparr>)
        (filter (\<lambda>(now, ev). ev_InstanceID ev = i) evs)) \<and>
    ((\<forall>(now, ev) \<in> set evs. int64 (ev_At ev)) \<longrightarrow>
      es_ListEvents sqliteEvents None i (append_events sqliteEvents evs NewSQLiteEventStore) =
        Inr (map snd (filter (\<lambda>(now, ev). ev_InstanceID ev = i) evs)))"
proof -
  have sql: "es_ListEvents sqliteEvents None i (append_events sqliteEvents evs NewSQLiteEventStore) =
      Inr (map (\<lambda>(now, ev). sql_listed now ev) (filter (\<lambda>(now, ev). ev_InstanceID ev = i) evs))"
    by (rule sqlite_events.history_in_order) (simp add: NewSQLiteEventStore_def)
  have "map (\<lambda>(now, ev). sql_listed now ev) xs = map snd xs" if "\<forall>(now, ev) \<in> set xs. int64 (ev_At ev)" for xs
    using that by (auto simp: sql_listed_int64)
  then show ?thesis using sql mem_events.history_in_order [where evs = evs and es = "[]" and i = i]
    by (auto simp: Mem_ListEvents_def sql_listed_def)
qed

definition sample_event :: "string \<Rightarrow> time \<Rightarrow> WorkflowEvent" where
  "sample_event i t = \<lparr>ev_InstanceID = i, ev_At = t, ev_Type = EventStepStarted, ev_WorkflowName = ''order'',
     ev_WorkflowVersion = ''v1'', ev_Step = 0, ev_Detail = ''''\<rparr>"

theorem history_complete_in_order_witness:
  "es_ListEvents sqliteEvents None ''wf-1'' (append_events sqliteEvents
     [(3, sample_event ''wf-1'' 3), (4, sample_event ''wf-2'' 4), (5, sample_event ''wf-1'' 5)] NewSQLiteEventStore) =
   Inr [sample_event ''wf-1'' 3, sample_event ''wf-1'' 5]"
  using history_complete_in_order [of "''wf-1''" "[(3, sample_event ''wf-1'' 3), (4, sample_event ''wf-2'' 4), (5, sample_event ''wf-1'' 5)]"]
  by (simp add: sample_event_def int64_def)

section \<open>Leases of instances\<close>

text \<open>
  C15: Leases exclude other engines. While engine \<open>owner\<close> holds the lease of an instance and it has not
  run out, no sequence of lease calls by other engines, in any order, gives the lease to anyone or
  changes it, in the in-memory and in the SQLite store.
\<close>

theorem instance_lease_exclusive:
  assumes "\<forall>op \<in> set ops. \<not> lop_by owner i op" "lrun memoryStore ops (now, hs) = (gs, now', hs')"
    and "lrun (sqliteStore G) ops (now, hs2) = (gs2, now2', hs2')"
  shows "(mem_inv hs \<and> after_zero now \<and> lops_ok (\<lambda>ttl. 0 < ttl) after_zero now ops \<and> mem_lease hs i = Some (Leased owner x) \<and> now' < x \<longrightarrow>
      mem_lease hs' i = Some (Leased owner x) \<and> (\<forall>w. (i, w) \<notin> set gs)) \<and>
    (sql_inv hs2 \<and> int64 now \<and> lops_ok (\<lambda>ttl. 0 < ttl) int64 now ops \<and> sql_lease hs2 i = Some (Leased owner x) \<and> now2' < x \<longrightarrow>
      sql_lease hs2' i = Some (Leased owner x) \<and> (\<forall>w. (i, w) \<notin> set gs2))"
  using mem_leases.lease_excludes [OF _ _ _ _ assms(2) _ assms(1)]
    sqlite_leases.lease_excludes [OF _ _ _ _ assms(3) _ assms(1)] by blast

definition leased_row :: "string \<Rightarrow> int \<Rightarrow> instance_row" where
  "leased_row owner x = \<lparr>ir_id = ''wf-1'', ir_workflow_name = ''order'', ir_workflow_version = ''v1'',
     ir_workflow_fingerprint = ''f'', ir_status = StatusFailed, ir_current_step = 0, ir_input = None, ir_output = None,
     ir_step_results = Some (GobInterface (GobMap Map.empty)), ir_error = ''boom'', ir_lease_owner = owner,
     ir_lease_expires_at = x\<rparr>"

lemma leased_row_sel [simp]:
  "ir_id (leased_row w x) = ''wf-1''" "ir_lease_owner (leased_row w x) = w" "ir_lease_expires_at (leased_row w x) = x"
  by (simp_all add: leased_row_def)

theorem instance_lease_exclusive_witness:
  "sql_lease (snd (snd (lrun (sqliteStore plain_gob) [LAcquire ''wf-1'' ''e2'' 10, LTick 50] (0, [], [leased_row ''e1'' 100])))) ''wf-1'' =
    Some (Leased ''e1'' 100)"
proof -
  let ?ops = "[LAcquire ''wf-1'' ''e2'' 10, LTick 50]"
  obtain gs now' hs' where m: "lrun memoryStore ?ops (0, [], []) = (gs, now', hs')"
    by (cases "lrun memoryStore ?ops (0, [], [])")
  obtain gs2 now2' hs2' where s: "lrun (sqliteStore plain_gob) ?ops (0, [], [leased_row ''e1'' 100]) = (gs2, now2', hs2')"
    by (cases "lrun (sqliteStore plain_gob) ?ops (0, [], [leased_row ''e1'' 100])")
  have "fst (snd (lrun (sqliteStore plain_gob) ?ops (0, [], [leased_row ''e1'' 100]))) = 50"
    by (simp add: lexec_def split_beta)
  then have t: "now2' < 100" unfolding s by simp
  have "sql_lease ([], [leased_row ''e1'' 100]) ''wf-1'' = Some (Leased ''e1'' 100)" "sql_inv ([], [leased_row ''e1'' 100])"
    by (simp_all add: sql_lease_def find_row_def row_lease_state_def sql_inv_def)
  with instance_lease_exclusive [OF _ m s, of "''e1''" "''wf-1''" 100] t show ?thesis
    unfolding s by (simp add: int64_def)
qed

text \<open>
  C39: The SQLite store does not keep the lease an engine has acquired. The engine reads an instance that
  is not leased, acquires its lease and writes the instance back through the object it has read, whose
  lease fields are still empty: the write clears the lease, and any other engine can acquire it at once.
\<close>

theorem sqlite_update_clears_lease:
  assumes "sql_inv (h, s)" "int64 now" "int64 (now + ttl)" "owner \<noteq> ''''" "other \<noteq> ''''" "sql_lease (h, s) i = Some Free"
    and "SQL_GetInstance G i h s = (Inr a, h1)" "SQL_TryAcquireLease now None i owner ttl (h1, s) = (Inr True, h2, s2)"
    and "SQL_UpdateInstance G a h2 s2 = (None, s3)"
  shows "sql_lease (h2, s3) i = Some Free \<and>
    fst (SQL_TryAcquireLease now None i other ttl (h2, s3)) = Inr True"
proof -
  from assms(7) obtain r inst where r: "find_row i s = Some r" "scan_row G r = Inr inst" "a = length h" "h1 = h @ [inst]"
    by (auto simp: SQL_GetInstance_def alloc_def split: option.splits sum.splits)
  have h2: "h2 = h1" using SQL_leases_frame(1) [OF _ assms(8)] assms(1) by (simp add: sql_inv_def)
  have inst: "deref h2 a = inst" "inst_ID inst = i" "inst_LeaseOwner inst = ''''"
    using r(1,3,4) find_row_Some [OF r(1)] scan_row_ID [OF r(2)] scan_row_lease [OF r(2)] assms(6)
    by (auto simp: h2 sql_lease_def row_lease_state_def split: if_splits)
  from SQL_update_cases [OF assms(9)] obtain x where x: "make_row G inst = Inr x"
    "s3 = map (\<lambda>y. if ir_id y = ir_id x then x else y) s2" "find_row (ir_id x) s2 \<noteq> None"
    by (auto simp: inst(1) split: if_splits)
  have xi: "ir_id x = i" "ir_lease_owner x = ''''"
    using make_row_ID [OF x(1)] x(1) inst by (auto simp: make_row_def split: sum.splits)
  with x(3) have f: "find_row i s3 = Some x" unfolding x(2) find_row_replace by auto
  then have free: "sql_lease (h2, s3) i = Some Free" by (simp add: sql_lease_def row_lease_state_def xi)
  have "sql_inv (h2, s3)"
    using SQL_UpdateInstance_inv [OF _ assms(9)] SQL_leases_frame(1) [OF _ assms(8)] assms(1) by (simp add: sql_inv_def)
  from sqlite_leases.acquire_law [OF this assms(2,3,5), of G i] free show ?thesis
    by (cases "SQL_TryAcquireLease now None i other ttl (h2, s3)") auto
qed

theorem sqlite_update_clears_lease_witness:
  "\<exists>h1 h2 s2 s3. SQL_GetInstance plain_gob ''wf-1'' [] [leased_row '''' 0] = (Inr 0, h1) \<and>
    SQL_TryAcquireLease 5 None ''wf-1'' ''e1'' 10 (h1, [leased_row '''' 0]) = (Inr True, h2, s2) \<and>
    SQL_UpdateInstance plain_gob 0 h2 s2 = (None, s3) \<and>
    fst (SQL_TryAcquireLease 5 None ''wf-1'' ''e2'' 10 (h2, s3)) = Inr True"
proof -
  let ?r = "leased_row '''' 0"
  let ?i = "\<lparr>inst_ID = ''wf-1'', inst_Name = ''order'', inst_Version = ''v1'', inst_Fingerprint = ''f'',
     inst_LeaseOwner = '''', inst_LeaseExpiresAt = zero_time, inst_Status = StatusFailed, inst_Output = VNil,
     inst_Err = Some (ErrMsg ''boom''), inst_Input = VNil, inst_CurrentStep = 0, inst_StepResults = Some Map.empty\<rparr>"
  have g: "SQL_GetInstance plain_gob ''wf-1'' [] [?r] = (Inr 0, [?i])"
    by (simp add: SQL_GetInstance_def find_row_def scan_row_def alloc_def) (simp add: leased_row_def DecodeValue_def
        tryDecodeAsAny_def alloc_def)
  have l: "SQL_TryAcquireLease 5 None ''wf-1'' ''e1'' 10 ([?i], [?r]) = (Inr True, [?i], [leased_row ''e1'' 15])"
    by (simp add: SQL_TryAcquireLease_def lease_free_def int64_def leased_row_def)
  obtain s3 where u: "SQL_UpdateInstance plain_gob 0 [?i] [leased_row ''e1'' 15] = (None, s3)"
    by (simp add: SQL_UpdateInstance_def make_row_def deref_def EncodeValue_def EncodeStepResults_def Let_def)
  have "sql_inv ([], [?r])" "sql_lease ([], [?r]) ''wf-1'' = Some Free"
    by (simp_all add: sql_inv_def sql_lease_def find_row_def row_lease_state_def)
  from sqlite_update_clears_lease [OF this(1) _ _ _ _ this(2) g l u, of "''e2''"] g l u show ?thesis
    by (auto simp: int64_def)
qed

end
