(* ===== verification/Observers.thy ===== *)
theory Observers
  imports Engine_Core "HOL-Library.Word"
begin

text \<open>
  \<^verbatim>\<open>pkg/api/observer.go\<close>: the observers an engine reports to. The engine model records the
  callbacks it makes in \<open>w_log\<close>; \<open>notify\<close> is what an observer does with one.
\<close>

section \<open>Model\<close>

text \<open>A log record of \<^verbatim>\<open>log/slog\<close>: level, message and attributes.\<close>

datatype slog_level = LevelDebug | LevelInfo | LevelError

datatype slog_value = SlogString string | SlogInt nat | SlogDuration duration | SlogAny "goerr option"

record slog_record =
  sl_level :: slog_level
  sl_msg :: string
  sl_attrs :: "(string \<times> slog_value) list"

text \<open>The atomic counters are 64-bit and wrap.\<close>

record BasicMetrics =
  bm_workflowsStarted :: "64 word"
  bm_workflowsCompleted :: "64 word"
  bm_workflowsFailed :: "64 word"
  bm_stepsCompleted :: "64 word"
  bm_totalStepDuration :: "64 word"

definition zero_BasicMetrics :: BasicMetrics where
  "zero_BasicMetrics = \<lparr>bm_workflowsStarted = 0, bm_workflowsCompleted = 0, bm_workflowsFailed = 0,
     bm_stepsCompleted = 0, bm_totalStepDuration = 0\<rparr>"

text \<open>An observer value; metrics and loggers are pointers, here indices into the state.\<close>

datatype Observer =
    NoopObserver
  | CompositeObserver "Observer list"
  | LoggingObserver nat
  | BasicMetricsObserver nat

record observer_state =
  os_metrics :: "nat \<Rightarrow> BasicMetrics"
  os_logs :: "nat \<Rightarrow> slog_record list"

fun metrics_notify :: "callback \<Rightarrow> BasicMetrics \<Rightarrow> BasicMetrics" where
  "metrics_notify (OnWorkflowStart inst) m = m\<lparr>bm_workflowsStarted := bm_workflowsStarted m + 1\<rparr>"
| "metrics_notify (OnWorkflowCompleted inst) m = m\<lparr>bm_workflowsCompleted := bm_workflowsCompleted m + 1\<rparr>"
| "metrics_notify (OnWorkflowFailed inst err) m = m\<lparr>bm_workflowsFailed := bm_workflowsFailed m + 1\<rparr>"
| "metrics_notify (OnStepStart inst name idx) m = m"
| "metrics_notify (OnStepCompleted inst name idx err d) m =
     (if err = None
      then m\<lparr>bm_stepsCompleted := bm_stepsCompleted m + 1, bm_totalStepDuration := bm_totalStepDuration m + word_of_int d\<rparr>
      else m)"

definition inst_attrs :: "WorkflowInstance \<Rightarrow> (string \<times> slog_value) list" where
  "inst_attrs inst = [(''workflow'', SlogString (inst_Name inst)), (''instance_id'', SlogString (inst_ID inst))]"

fun log_line :: "callback \<Rightarrow> slog_record" where
  "log_line (OnWorkflowStart inst) =
     \<lparr>sl_level = LevelInfo, sl_msg = ''workflow_start'', sl_attrs = inst_attrs inst\<rparr>"
| "log_line (OnWorkflowCompleted inst) =
     \<lparr>sl_level = LevelInfo, sl_msg = ''workflow_completed'', sl_attrs = inst_attrs inst\<rparr>"
| "log_line (OnWorkflowFailed inst err) =
     \<lparr>sl_level = LevelError, sl_msg = ''workflow_failed'', sl_attrs = inst_attrs inst @ [(''error'', SlogAny (Some err))]\<rparr>"
| "log_line (OnStepStart inst name idx) =
     \<lparr>sl_level = LevelDebug, sl_msg = ''step_start'',
      sl_attrs = inst_attrs inst @ [(''step'', SlogString name), (''step_index'', SlogInt idx)]\<rparr>"
| "log_line (OnStepCompleted inst name idx err d) =
     \<lparr>sl_level = (if err \<noteq> None then LevelError else LevelDebug), sl_msg = ''step_completed'',
      sl_attrs = inst_attrs inst @ [(''step'', SlogString name), (''step_index'', SlogInt idx),
        (''duration'', SlogDuration d), (''error'', SlogAny err)]\<rparr>"

fun notify :: "Observer \<Rightarrow> callback \<Rightarrow> observer_state \<Rightarrow> observer_state" where
  "notify NoopObserver cb st = st"
| "notify (CompositeObserver obs) cb st = fold (\<lambda>x s. notify x cb s) obs st"
| "notify (LoggingObserver k) cb st = st\<lparr>os_logs := (os_logs st)(k := os_logs st k @ [log_line cb])\<rparr>"
| "notify (BasicMetricsObserver k) cb st = st\<lparr>os_metrics := (os_metrics st)(k := metrics_notify cb (os_metrics st k))\<rparr>"

text \<open>A nil observer is \<open>None\<close>.\<close>

definition NewCompositeObserver :: "Observer option list \<Rightarrow> Observer" where
  "NewCompositeObserver obs =
     (let filtered = map the (filter (\<lambda>x. x \<noteq> None) obs) in
      case filtered of
        [] \<Rightarrow> NoopObserver
      | [x] \<Rightarrow> x
      | _ \<Rightarrow> CompositeObserver filtered)"

section \<open>Snapshots\<close>

record BasicMetricsSnapshot =
  sn_WorkflowsStarted :: int
  sn_WorkflowsCompleted :: int
  sn_WorkflowsFailed :: int
  sn_PendingWorkflows :: int
  sn_StepsCompleted :: int
  sn_AvgStepDuration :: duration

text \<open>Go's integer division truncates towards zero.\<close>

definition go_div :: "int \<Rightarrow> int \<Rightarrow> int" where
  "go_div a b = sgn a * sgn b * (\<bar>a\<bar> div \<bar>b\<bar>)"

definition Snapshot :: "BasicMetrics \<Rightarrow> BasicMetricsSnapshot" where
  "Snapshot m =
     (let started = bm_workflowsStarted m; completed = bm_workflowsCompleted m; failed = bm_workflowsFailed m;
          steps = bm_stepsCompleted m; totalNs = bm_totalStepDuration m;
          avg = (if sint steps > 0 then go_div (sint totalNs) (sint steps) else 0)
      in \<lparr>sn_WorkflowsStarted = sint started, sn_WorkflowsCompleted = sint completed, sn_WorkflowsFailed = sint failed,
          sn_PendingWorkflows = sint (started - completed - failed), sn_StepsCompleted = sint steps,
          sn_AvgStepDuration = avg\<rparr>)"

section \<open>What the counters count\<close>

definition started_callbacks :: "callback list \<Rightarrow> nat" where
  "started_callbacks cbs = length (filter (\<lambda>cb. case cb of OnWorkflowStart i \<Rightarrow> True | _ \<Rightarrow> False) cbs)"

definition completed_callbacks :: "callback list \<Rightarrow> nat" where
  "completed_callbacks cbs = length (filter (\<lambda>cb. case cb of OnWorkflowCompleted i \<Rightarrow> True | _ \<Rightarrow> False) cbs)"

definition failed_callbacks :: "callback list \<Rightarrow> nat" where
  "failed_callbacks cbs = length (filter (\<lambda>cb. case cb of OnWorkflowFailed i e \<Rightarrow> True | _ \<Rightarrow> False) cbs)"

text \<open>The durations of the steps that succeeded.\<close>

definition step_durations :: "callback list \<Rightarrow> duration list" where
  "step_durations cbs = concat (map (\<lambda>cb. case cb of OnStepCompleted i n k None d \<Rightarrow> [d] | _ \<Rightarrow> []) cbs)"

lemmas callback_counts = started_callbacks_def completed_callbacks_def failed_callbacks_def step_durations_def

lemma metrics_fold:
  "fold metrics_notify cbs m =
     \<lparr>bm_workflowsStarted = bm_workflowsStarted m + of_nat (started_callbacks cbs),
      bm_workflowsCompleted = bm_workflowsCompleted m + of_nat (completed_callbacks cbs),
      bm_workflowsFailed = bm_workflowsFailed m + of_nat (failed_callbacks cbs),
      bm_stepsCompleted = bm_stepsCompleted m + of_nat (length (step_durations cbs)),
      bm_totalStepDuration = bm_totalStepDuration m + of_int (sum_list (step_durations cbs))\<rparr>"
proof (induction cbs arbitrary: m)
  case (Cons cb cbs)
  then show ?case by (cases cb) (auto simp: callback_counts split: option.splits)
qed (simp add: callback_counts)

lemma sint_of_nat_small: "int n < 2 ^ 63 \<Longrightarrow> sint (of_nat n :: 64 word) = int n"
  by (simp add: sint_uint unsigned_of_nat take_bit_nat_eq_self signed_take_bit_int_eq_self)

lemma sint_of_int_small: "- (2 ^ 63) \<le> n \<Longrightarrow> n < 2 ^ 63 \<Longrightarrow> sint (of_int n :: 64 word) = n"
  by (simp add: signed_of_int signed_take_bit_int_eq_self)

section \<open>Properties\<close>

text \<open>
  Composite observers. However many of the observers given to \<^verbatim>\<open>NewCompositeObserver\<close> are nil (none,
  one or several may remain), a callback reaches exactly the others, once each and in order.
\<close>

theorem composite_observer_forwards:
  "notify (NewCompositeObserver obs) cb st = fold (\<lambda>x s. case x of None \<Rightarrow> s | Some y \<Rightarrow> notify y cb s) obs st"
proof -
  have "fold (\<lambda>x s. case x of None \<Rightarrow> s | Some y \<Rightarrow> notify y cb s) obs st =
      fold (\<lambda>x s. notify x cb s) (map the (filter (\<lambda>x. x \<noteq> None) obs)) st" for st
    by (induction obs arbitrary: st) auto
  then show ?thesis by (simp add: NewCompositeObserver_def Let_def split: list.splits)
qed

text \<open>
  C40: Metrics. A \<^verbatim>\<open>BasicMetrics\<close> that has received a sequence of callbacks reports the numbers of workflows
  started, completed and failed and of successful steps among them, their difference as pending, and the
  average duration of the successful steps, as long as there are fewer than two to the 62
  callbacks, no duration is negative and their sum is below two to the 63.
\<close>

theorem metrics_snapshot:
  assumes "int (length cbs) < 2 ^ 62" "\<forall>d \<in> set (step_durations cbs). 0 \<le> d" "sum_list (step_durations cbs) < 2 ^ 63"
    and "sn = Snapshot (fold metrics_notify cbs zero_BasicMetrics)"
  shows "sn_WorkflowsStarted sn = int (started_callbacks cbs) \<and> sn_WorkflowsCompleted sn = int (completed_callbacks cbs) \<and>
    sn_WorkflowsFailed sn = int (failed_callbacks cbs) \<and> sn_StepsCompleted sn = int (length (step_durations cbs)) \<and>
    sn_PendingWorkflows sn = int (started_callbacks cbs) - int (completed_callbacks cbs) - int (failed_callbacks cbs) \<and>
    sn_AvgStepDuration sn = (if step_durations cbs = [] then 0
      else sum_list (step_durations cbs) div int (length (step_durations cbs)))"
proof -
  have "length (step_durations cbs) \<le> length cbs"
    unfolding step_durations_def by (induction cbs) (auto split: callback.splits option.splits)
  moreover have "started_callbacks cbs \<le> length cbs" "completed_callbacks cbs \<le> length cbs" "failed_callbacks cbs \<le> length cbs"
    by (simp_all add: callback_counts)
  ultimately have b: "int (started_callbacks cbs) < 2 ^ 62" "int (completed_callbacks cbs) < 2 ^ 62"
    "int (failed_callbacks cbs) < 2 ^ 62" "int (length (step_durations cbs)) < 2 ^ 62" using assms(1) by linarith+
  have nn: "0 \<le> sum_list (step_durations cbs)" using assms(2) by (simp add: sum_list_nonneg)
  have p: "sint (of_nat (started_callbacks cbs) - of_nat (completed_callbacks cbs) - of_nat (failed_callbacks cbs) :: 64 word) =
      int (started_callbacks cbs) - int (completed_callbacks cbs) - int (failed_callbacks cbs)"
    using sint_of_int_small [of "int (started_callbacks cbs) - int (completed_callbacks cbs) - int (failed_callbacks cbs)"] b by simp
  show ?thesis
    unfolding assms(4) metrics_fold zero_BasicMetrics_def Snapshot_def
    using b nn p assms(3) sint_of_nat_small [of "started_callbacks cbs"] sint_of_nat_small [of "completed_callbacks cbs"]
      sint_of_nat_small [of "failed_callbacks cbs"] sint_of_nat_small [of "length (step_durations cbs)"]
      sint_of_int_small [of "sum_list (step_durations cbs)"]
    by (auto simp: Let_def go_div_def sgn_if)
qed

definition observed_inst :: WorkflowInstance where
  "observed_inst = \<lparr>inst_ID = ''wf-1'', inst_Name = ''order'', inst_Version = ''v1'', inst_Fingerprint = ''f'',
     inst_LeaseOwner = '''', inst_LeaseExpiresAt = zero_time, inst_Status = StatusRunning, inst_Output = VNil,
     inst_Err = None, inst_Input = VNil, inst_CurrentStep = 0, inst_StepResults = None\<rparr>"

text \<open>The callbacks of a run that fails in its third step and fails again when it is resumed.\<close>

definition sample_callbacks :: "callback list" where
  "sample_callbacks = [OnWorkflowStart observed_inst, OnStepCompleted observed_inst ''a'' 0 None 10,
     OnStepCompleted observed_inst ''b'' 1 None 21, OnStepCompleted observed_inst ''c'' 2 (Some (ErrMsg ''boom'')) 5,
     OnWorkflowFailed observed_inst (ErrMsg ''boom''), OnWorkflowFailed observed_inst (ErrMsg ''boom'')]"

theorem metrics_snapshot_witness:
  "Snapshot (fold metrics_notify sample_callbacks zero_BasicMetrics) =
     \<lparr>sn_WorkflowsStarted = 1, sn_WorkflowsCompleted = 0, sn_WorkflowsFailed = 2, sn_PendingWorkflows = -1,
      sn_StepsCompleted = 2, sn_AvgStepDuration = 15\<rparr>"
  using metrics_snapshot [of sample_callbacks, OF _ _ _ refl]
  by (cases "Snapshot (fold metrics_notify sample_callbacks zero_BasicMetrics)")
    (simp add: sample_callbacks_def callback_counts)

end
