(* ===== verification/Local_Runner.thy ===== *)
theory Local_Runner
  imports Sqlite_Props Observers
begin

text \<open>
  How the pieces are put together: the engine constructors of \<^verbatim>\<open>internal/engine/engine_impl.go\<close>, the
  SQLite bundle (\<^verbatim>\<open>bundle.go\<close>) and the local runner with its worker loop (\<^verbatim>\<open>local_runner.go\<close>).
\<close>

section \<open>Engines\<close>

text \<open>
  The arguments stand for the platform: the random part of the engine's identifier, the digest of
  fingerprints, the build information and the conversion of floating point numbers. The observer is
  not a field of the model: it is told the callbacks of \<open>w_log\<close> (theory \<open>Observers\<close>).
\<close>

definition NewInMemoryEngine :: "string \<Rightarrow> (fingerprint_payload \<Rightarrow> string) \<Rightarrow> build_info \<Rightarrow> (rat \<Rightarrow> int)
     \<Rightarrow> (instances, 'q, history) engineImpl" where
  "NewInMemoryEngine rnd digest build conv = NewEngineWithConfig rnd digest build conv
     \<lparr>cfg_Instances = memoryStore, cfg_Events = Some memoryEvents, cfg_Queue = None, cfg_EngineID = '''', cfg_LeaseTTL = 0\<rparr>"

definition NewSQLiteEngine :: "gob \<Rightarrow> string \<Rightarrow> (fingerprint_payload \<Rightarrow> string) \<Rightarrow> build_info \<Rightarrow> (rat \<Rightarrow> int)
     \<Rightarrow> (instance_table, 'q, event_table) engineImpl" where
  "NewSQLiteEngine G rnd digest build conv = NewEngineWithConfig rnd digest build conv
     \<lparr>cfg_Instances = sqliteStore G, cfg_Events = Some sqliteEvents, cfg_Queue = None, cfg_EngineID = '''', cfg_LeaseTTL = 0\<rparr>"

definition NewEngine :: "string \<Rightarrow> (fingerprint_payload \<Rightarrow> string) \<Rightarrow> build_info \<Rightarrow> (rat \<Rightarrow> int)
     \<Rightarrow> 's InstanceStore \<Rightarrow> 'e EventStore option \<Rightarrow> ('s, 'q, 'e) engineImpl" where
  "NewEngine rnd digest build conv instances events = NewEngineWithConfig rnd digest build conv
     \<lparr>cfg_Instances = instances, cfg_Events = events, cfg_Queue = None, cfg_EngineID = '''', cfg_LeaseTTL = 0\<rparr>"

section \<open>The SQLite bundle\<close>

record 'u WorkerBundle =
  bundle_Engine :: "(instance_table, task_table, event_table) engineImpl"
  bundle_Worker :: "(instance_table, task_table, event_table, 'u) Worker"
  bundle_queue :: "task_table Queue"

definition NewSQLiteBundle :: "gob \<Rightarrow> string \<Rightarrow> (fingerprint_payload \<Rightarrow> string) \<Rightarrow> build_info \<Rightarrow> (rat \<Rightarrow> int) \<Rightarrow> nat \<Rightarrow> nat
     \<Rightarrow> string \<Rightarrow> WorkerConfig \<Rightarrow> 'u WorkerBundle" where
  "NewSQLiteBundle G rnd digest build conv n d wrnd cfg =
     (let eng = NewSQLiteEngine G rnd digest build conv;
          q = sqliteQueue G;
          w = NewWithConfig wrnd (engine_api eng n d) q cfg
      in \<lparr>bundle_Engine = eng, bundle_Worker = w, bundle_queue = q\<rparr>)"

section \<open>The local runner\<close>

text \<open>\<open>lr_workers\<close> is the number of worker goroutines that \<^verbatim>\<open>StartWorkers\<close> has started and \<^verbatim>\<open>Stop\<close> waits for.\<close>

record 'u LocalRunner =
  lr_Engine :: "(instances, InMemoryQueue, history) engineImpl"
  lr_Queue :: "InMemoryQueue Queue"
  lr_Worker :: "(instances, InMemoryQueue, history, 'u) Worker"
  lr_running :: bool
  lr_workers :: nat

definition NewLocalRunner :: "string \<Rightarrow> (fingerprint_payload \<Rightarrow> string) \<Rightarrow> build_info \<Rightarrow> (rat \<Rightarrow> int) \<Rightarrow> nat \<Rightarrow> nat \<Rightarrow> string
     \<Rightarrow> 'u LocalRunner" where
  "NewLocalRunner rnd digest build conv n d wrnd =
     (let eng = NewInMemoryEngine rnd digest build conv;
          w = NewWorker wrnd (engine_api eng n d) memoryQueue
      in \<lparr>lr_Engine = eng, lr_Queue = memoryQueue, lr_Worker = w, lr_running = False, lr_workers = 0\<rparr>)"

definition StartWorkers :: "int \<Rightarrow> 'u LocalRunner \<Rightarrow> goerr option \<times> 'u LocalRunner" where
  "StartWorkers concurrency r =
     (if lr_running r then (Some (ErrMsg ''fluxo: LocalRunner already started''), r)
      else (None, r\<lparr>lr_running := True, lr_workers := nat (if concurrency \<le> 0 then 1 else concurrency)\<rparr>))"

definition Stop_runner :: "'u LocalRunner \<Rightarrow> 'u LocalRunner" where
  "Stop_runner r = (if \<not> lr_running r then r else r\<lparr>lr_running := False, lr_workers := 0\<rparr>)"

text \<open>
  The body of a worker goroutine: process tasks until \<^verbatim>\<open>ProcessOne\<close> reports a context error. \<open>k\<close> bounds
  the number of tasks, \<open>n\<close> the polls for one.
\<close>

fun worker_loop :: "('s, 'q, 'e, 'u) Worker \<Rightarrow> nat \<Rightarrow> ctx \<Rightarrow> nat \<Rightarrow> ('s, 'q, 'e, 'u) world \<Rightarrow> unit res \<times> ('s, 'q, 'e, 'u) world" where
  "worker_loop wk n c 0 w = (NoFuel, w)"
| "worker_loop wk n c (Suc k) w =
     (case ProcessOne wk n c w of
        (Done (p, Some err), w1) \<Rightarrow>
          if errors_Is err ContextCanceled \<or> errors_Is err ContextDeadlineExceeded then (Done (), w1)
          else worker_loop wk n c k w1
      | (Done (p, None), w1) \<Rightarrow> worker_loop wk n c k w1
      | (Panicked s, w1) \<Rightarrow> (Panicked s, w1)
      | (NoFuel, w1) \<Rightarrow> (NoFuel, w1))"

definition StartWorkflowAsync :: "'u LocalRunner \<Rightarrow> ctx \<Rightarrow> string \<Rightarrow> anyv \<Rightarrow> (instances, InMemoryQueue, history, 'u) world
     \<Rightarrow> goerr option \<times> (instances, InMemoryQueue, history, 'u) world" where
  "StartWorkflowAsync r c workflowName input w = EnqueueStartWorkflow (lr_Worker r) c workflowName input w"

definition SignalAsync :: "'u LocalRunner \<Rightarrow> ctx \<Rightarrow> string \<Rightarrow> string \<Rightarrow> anyv \<Rightarrow> (instances, InMemoryQueue, history, 'u) world
     \<Rightarrow> goerr option \<times> (instances, InMemoryQueue, history, 'u) world" where
  "SignalAsync r c instanceID name payload w = EnqueueSignal (lr_Worker r) c instanceID name payload w"

section \<open>An asynchronous start is a run\<close>

definition start_workflow_task :: "string \<Rightarrow> anyv \<Rightarrow> time \<Rightarrow> Task" where
  "start_workflow_task name input now = zero_Task\<lparr>task_ID := ''1'', task_Type := TaskTypeStartWorkflow,
     task_WorkflowName := name, task_Payload := StartWorkflowPayload input, task_EnqueuedAt := now\<rparr>"

definition claimed_queue :: "Task \<Rightarrow> string \<Rightarrow> time \<Rightarrow> InMemoryQueue" where
  "claimed_queue t owner x = \<lparr>mq_nextID = 1, mq_ready = [],
     mq_inflight = [(''1'', \<lparr>lt_task = t, lt_owner = owner, lt_expiry = x\<rparr>)]\<rparr>"

lemma claimed_queue_inv:
  assumes "task_ID t = ''1''"
  shows "mq_inv (claimed_queue t owner x)" "mq_view (claimed_queue t owner x) = [''1'' \<mapsto> (t, Leased owner x)]"
proof -
  have "keys (mq_entries (claimed_queue t owner x)) = [''1'']"
    unfolding keys_mq_entries by (simp add: claimed_queue_def keys_def)
  then show "mq_inv (claimed_queue t owner x)" using assms by (simp add: mq_inv_def claimed_queue_def)
  show "mq_view (claimed_queue t owner x) = [''1'' \<mapsto> (t, Leased owner x)]"
    by (simp add: mq_view_def mq_entries_def claimed_queue_def)
qed

lemma enqueue_start:
  assumes "ctx_Err c (w_clock w) = None" "w_queue w = NewInMemoryQueue" "wk_queue wk = memoryQueue"
  shows "EnqueueStartWorkflow wk c name input w = (None, w\<lparr>w_queue := \<lparr>mq_nextID = 1,
     mq_ready = [start_workflow_task name input (w_clock w)], mq_inflight = []\<rparr>\<rparr>)"
  using assms FormatInt_1
  by (simp add: EnqueueStartWorkflow_def enqueue_task_def memoryQueue_def InMemory_Enqueue_def NewInMemoryQueue_def
      start_workflow_task_def zero_Task_def signed_take_bit_int_eq_self)

lemma dequeue_start:
  assumes "ctx_cancel c = None" "0 < ttl" "IsZero (task_NotBefore t)" "task_ID t = ''1''"
  shows "Dequeue memoryQueue (Suc m) c owner ttl now \<lparr>mq_nextID = 1, mq_ready = [t], mq_inflight = []\<rparr> =
    Some (Inr t, now, claimed_queue t owner (now + ttl))"
  using assms by (simp add: Dequeue_def memoryQueue_def InMemory_checkTTL_def ctx_Err_def InMemory_DequeuePoll_def claimed_queue_def)

text \<open>
  C20: Starting asynchronously. On a local runner whose queue is new and with a context that is never
  cancelled, \<^verbatim>\<open>StartWorkflowAsync\<close> accepts the task, and
  the next \<^verbatim>\<open>ProcessOne\<close> of its worker makes the engine's \<^verbatim>\<open>Run\<close> with that name and input, on the world with the
  task claimed: if \<^verbatim>\<open>Run\<close> returns, it reports the error \<^verbatim>\<open>Run\<close> returns, leaves the world as \<^verbatim>\<open>Run\<close> leaves it and the queue empty again.
\<close>

theorem async_start_runs_workflow:
  assumes "r = NewLocalRunner rnd digest build conv n d wrnd" "ctx_cancel c = None"
    and "mem_inv (w_heap w, w_store w)" "w_queue w = NewInMemoryQueue"
    and "wk = lr_Worker r" "t = start_workflow_task name input (w_clock w)"
    and "Run (lr_Engine r) (step_runner (lr_Engine r) n d) c name input
        (w\<lparr>w_queue := claimed_queue t (wc_WorkerID (wk_cfg wk)) (w_clock w + 30 * Second)\<rparr>) = (Done (ao, err), w2)"
  shows "\<exists>w1 w3. StartWorkflowAsync r c name input w = (None, w1) \<and>
    ProcessOne wk (Suc m) c w1 = (Done (True, err), w3) \<and> w3 = w2\<lparr>w_queue := w_queue w3\<rparr> \<and>
    mq_view (w_queue w3) = Map.empty"
proof -
  let ?e = "lr_Engine r :: (instances, InMemoryQueue, history) engineImpl" and ?id = "wc_WorkerID (wk_cfg wk)"
  let ?wc = "w\<lparr>w_queue := claimed_queue t ?id (w_clock w + 30 * Second)\<rparr>"
  have e: "e_instances ?e = memoryStore"
    by (simp add: assms(1) NewLocalRunner_def NewInMemoryEngine_def NewEngineWithConfig_def Let_def)
  have wk: "wk = NewWithConfig wrnd (engine_api ?e n d) memoryQueue \<lparr>wc_MaxAttempts = 1, wc_Backoff = 0,
      wc_DefaultSignalTimeout = 0, wc_WorkerID = '''', wc_LeaseTTL = 0, wc_HeartbeatInterval = 0\<rparr>"
    by (simp add: assms(1,5) NewLocalRunner_def NewWorker_def Let_def)
  have cfg: "wk_queue wk = memoryQueue" "wc_WorkerID (wk_cfg wk) \<noteq> ''''" "wc_LeaseTTL (wk_cfg wk) = 30 * Second"
    "wc_MaxAttempts (wk_cfg wk) = 1" "wc_DefaultSignalTimeout (wk_cfg wk) = 0"
    by (simp_all add: wk NewWithConfig_def)
  have t: "task_ID t = ''1''" "task_Type t = TaskTypeStartWorkflow" "task_Payload t = StartWorkflowPayload input"
    "task_InstanceID t = ''''" "task_WorkflowName t = name" "task_Attempts t = 0" "IsZero (task_NotBefore t)"
    by (simp_all add: assms(6) start_workflow_task_def zero_Task_def IsZero_def)
  note ctx = ctx_cancel_None [OF assms(2)]
  let ?w1 = "w\<lparr>w_queue := \<lparr>mq_nextID = 1, mq_ready = [t], mq_inflight = []\<rparr>\<rparr>"
  have w1: "StartWorkflowAsync r c name input w = (None, ?w1)"
    using enqueue_start [OF ctx(1) assms(4) cfg(1)] by (simp add: StartWorkflowAsync_def assms(5,6))
  have p: "ProcessOne wk (Suc m) c ?w1 = process_task wk c t ?wc"
    using dequeue_start [OF assms(2) _ t(7,1), of "30 * Second" m ?id "w_clock w"] by (simp add: ProcessOne_def cfg Second_def)
  have call: "task_call wk c t = Some (Run ?e (step_runner ?e n d) c name input)"
    by (simp add: task_call_def t wk NewWithConfig_def engine_api_def Let_def)
  have k: "w_queue w2 = w_queue ?wc" "w_clock ?wc \<le> w_clock w2"
    using mem_engine.engine_calls_keep_queue [OF e _ ctx(3) call [unfolded wk] assms(7)] assms(3) by simp_all
  have v: "mq_view (w_queue ?wc) (task_ID t) = Some (t, Leased ?id (w_clock ?wc + wc_LeaseTTL (wk_cfg wk)))"
    using claimed_queue_inv(2) [OF t(1)] by (simp add: cfg t(1))
  have inv: "mq_inv (w_queue ?wc)" using claimed_queue_inv(1) [OF t(1)] by simp
  have nt: "no_timeout wk t err" by (simp add: no_timeout_def t cfg)
  from mem_queue.process_task_settles [where call = "Run ?e (step_runner ?e n d) c name input", OF inv cfg(1,2) _ _ _ v call
      assms(7) k nt assms(2)] obtain w3 where "process_task wk c t ?wc = (Done (True, err), w3)"
    "w3 = w2\<lparr>w_queue := w_queue w3\<rparr>" "mq_view (w_queue w3) = settle (wk_cfg wk) t err (w_clock w2) (mq_view (w_queue ?wc))"
    by (auto simp: cfg t Second_def)
  moreover have "settle (wk_cfg wk) t err (w_clock w2) (mq_view (w_queue ?wc)) = Map.empty"
    using claimed_queue_inv(2) [OF t(1)] by (simp add: settle_def cfg t)
  ultimately show ?thesis using w1 p by auto
qed

definition sample_runner :: "unit LocalRunner" where
  "sample_runner = NewLocalRunner ''00'' (\<lambda>p. pl_Name p) sample_build (\<lambda>r. 0) 0 0 ''1''"

definition runner_world :: "(instances, InMemoryQueue, history, unit) world" where
  "runner_world = \<lparr>w_heap = [], w_clock = 1000, w_workflows = [(''wf'', [(''v1'', sample_def)])],
     w_store = [], w_events = [], w_queue = NewInMemoryQueue, w_log = [], w_nextID = 0, w_extern = ()\<rparr>"

theorem async_start_runs_workflow_witness:
  "\<exists>w1 w3. StartWorkflowAsync sample_runner Background ''wf'' (VInt 4) runner_world = (None, w1) \<and>
    ProcessOne (lr_Worker sample_runner) 1 Background w1 = (Done (True, None), w3) \<and>
    inst_Output (w_inst w3 0) = VInt 10 \<and> mq_view (w_queue w3) = Map.empty"
proof -
  let ?e = "lr_Engine sample_runner" and ?t = "start_workflow_task ''wf'' (VInt 4) 1000"
  let ?w = "runner_world\<lparr>w_queue := claimed_queue ?t (wc_WorkerID (wk_cfg (lr_Worker sample_runner))) (1000 + 30 * Second)\<rparr>"
  have e: "e_instances ?e = memoryStore"
    by (simp add: sample_runner_def NewLocalRunner_def NewInMemoryEngine_def NewEngineWithConfig_def Let_def)
  have wf: "wf_world mem_inv ?w" by (simp add: wf_world_def runner_world_def mem_inv_def)
  have latest: "GetLatestWorkflow ''wf'' (w_workflows ?w) = Inr sample_def"
    by (simp add: runner_world_def GetLatestWorkflow_def)
  have rw: "w_clock runner_world = 1000" "w_heap runner_world = []" "w_queue runner_world = NewInMemoryQueue"
    "mem_inv (w_heap runner_world, w_store runner_world)"
    by (simp_all add: runner_world_def mem_inv_def)
  from mem_engine.Run_computes [OF e mem_engine.step_runner_frame [OF e] _ wf latest sample_computes mem_save_ok,
      of Background 0 0 "VInt 4"] obtain w' where
    run: "Run ?e (step_runner ?e 0 0) Background ''wf'' (VInt 4) ?w = (Done (Some 0, None), w')" "inst_Output (w_inst w' 0) = VInt 10"
    by (auto simp: rw sample_inc_def sample_check_def spec_err_def spec_post_def)
  from async_start_runs_workflow [OF sample_runner_def _ rw(4,3) refl refl, of Background "''wf''" "VInt 4"] run(1) obtain w1 w3 where
    "StartWorkflowAsync sample_runner Background ''wf'' (VInt 4) runner_world = (None, w1)"
    "ProcessOne (lr_Worker sample_runner) (Suc 0) Background w1 = (Done (True, None), w3)" "w3 = w'\<lparr>w_queue := w_queue w3\<rparr>"
    "mq_view (w_queue w3) = Map.empty" by (fastforce simp: rw)
  moreover from this(3) have "w_inst w3 0 = w_inst w' 0" by (metis w_inst_def world.select_convs(1) world.surjective
        world.update_convs(6))
  ultimately show ?thesis using run(2) by auto
qed

section \<open>Workers on the SQLite back end\<close>

text \<open>
  The SQLite bundle. A worker of a SQLite bundle that has claimed a start, signal or resume task reports it
  processed, whatever the engine returns: the task's row is deleted on success and when no attempts are left, and
  otherwise put back with one more attempt and the backoff. All other rows stay as they are.
\<close>

theorem sqlite_bundle_settles_task:
  assumes "b = NewSQLiteBundle G rnd digest build conv n d wrnd cfg" "wk = bundle_Worker b"
    and "sql_inv (w_heap w, w_store w)" "sq_inv G (w_queue w)" "2 \<le> wc_LeaseTTL (wk_cfg wk)" "ctx_cancel c = None"
    and "\<forall>t. w_clock w \<le> t \<and> t \<le> w_clock w1 \<longrightarrow> int64 t \<and> int64 (t + wc_LeaseTTL (wk_cfg wk))"
    and "int64 (w_clock w1 + max 0 (wc_Backoff (wk_cfg wk)))"
    and "sq_view G (w_queue w) (task_ID task) =
      Some (task, Leased (wc_WorkerID (wk_cfg wk)) (w_clock w + wc_LeaseTTL (wk_cfg wk)))"
    and "task_call wk c task = Some call" "call w = (Done (ao, err), w1)" "no_timeout wk task err"
  shows "\<exists>w2. process_task wk c task w =
      (Done (True, if task_Attempts task + 1 < wc_MaxAttempts (wk_cfg wk) then None else err), w2) \<and>
    w2 = w1\<lparr>w_queue := w_queue w2\<rparr> \<and>
    sq_view G (w_queue w2) =
      (if err \<noteq> None \<and> task_Attempts task + 1 < wc_MaxAttempts (wk_cfg wk)
       then (sq_view G (w_queue w))(task_ID task \<mapsto> (task\<lparr>task_NotBefore := w_clock w1 + max 0 (wc_Backoff (wk_cfg wk)),
              task_Attempts := task_Attempts task + 1\<rparr>, Free))
       else (sq_view G (w_queue w))(task_ID task := None))"
proof -
  let ?e = "NewSQLiteEngine G rnd digest build conv :: (instance_table, task_table, event_table) engineImpl"
  have e: "e_instances ?e = sqliteStore G" by (simp add: NewSQLiteEngine_def NewEngineWithConfig_def)
  have wk: "wk = NewWithConfig wrnd (engine_api ?e n d) (sqliteQueue G) cfg" by (simp add: assms(1,2) NewSQLiteBundle_def Let_def)
  have q: "wk_queue wk = sqliteQueue G" "wc_WorkerID (wk_cfg wk) \<noteq> ''''" by (auto simp: wk NewWithConfig_def)
  have ctx: "ctx_wf c" using assms(6) by (rule ctx_cancel_None)
  have k: "w_queue w1 = w_queue w" "w_clock w \<le> w_clock w1"
    using sqlite_engine.engine_calls_keep_queue [OF e assms(3) ctx assms(10) [unfolded wk] assms(11)] by simp_all
  from sqlite_queue.process_task_settles [where call = call, OF assms(4) q assms(5,7,8) assms(9,10,11) k assms(12,6)] assms(9)
  show ?thesis by (auto simp: settle_def)
qed

definition sample_bundle :: "unit WorkerBundle" where
  "sample_bundle = NewSQLiteBundle plain_gob ''00'' (\<lambda>p. pl_Name p) sample_build (\<lambda>r. 0) 0 0 ''1''
     \<lparr>wc_MaxAttempts = 3, wc_Backoff = 5, wc_DefaultSignalTimeout = 0, wc_WorkerID = ''w1'',
      wc_LeaseTTL = 100, wc_HeartbeatInterval = 0\<rparr>"

definition bundle_world :: "(instance_table, task_table, event_table, unit) world" where
  "bundle_world = \<lparr>w_heap = [], w_clock = 0, w_workflows = [], w_store = [], w_events = [],
     w_queue = leased_table, w_log = [], w_nextID = 0, w_extern = ()\<rparr>"

theorem sqlite_bundle_settles_task_witness:
  "\<exists>w2. process_task (bundle_Worker sample_bundle) Background (leased_task\<lparr>task_EnqueuedAt := 0, task_NotBefore := 0\<rparr>) bundle_world =
      (Done (True, None), w2) \<and>
    sq_view plain_gob (w_queue w2) ''1'' = Some (leased_task\<lparr>task_EnqueuedAt := 0, task_NotBefore := 5, task_Attempts := 1\<rparr>, Free)"
proof -
  let ?e = "NewSQLiteEngine plain_gob ''00'' (\<lambda>p. pl_Name p) sample_build (\<lambda>r. 0) :: (instance_table, task_table, event_table) engineImpl"
  let ?wk = "bundle_Worker sample_bundle" and ?t = "leased_task\<lparr>task_EnqueuedAt := 0, task_NotBefore := 0\<rparr>"
  have wk: "?wk = NewWithConfig ''1'' (engine_api ?e 0 0) (sqliteQueue plain_gob)
     \<lparr>wc_MaxAttempts = 3, wc_Backoff = 5, wc_DefaultSignalTimeout = 0, wc_WorkerID = ''w1'', wc_LeaseTTL = 100, wc_HeartbeatInterval = 0\<rparr>"
    by (simp add: sample_bundle_def NewSQLiteBundle_def Let_def)
  have cfg: "wc_WorkerID (wk_cfg ?wk) = ''w1''" "wc_LeaseTTL (wk_cfg ?wk) = 100" "wc_MaxAttempts (wk_cfg ?wk) = 3" "wc_Backoff (wk_cfg ?wk) = 5"
    by (simp_all add: wk NewWithConfig_def)
  have t: "task_ID ?t = ''1''" "task_Attempts ?t = 0" "task_Type ?t = TaskTypeResume" "task_InstanceID ?t = ''wf-1''"
    by (simp_all add: leased_task_def zero_Task_def)
  have call: "task_call ?wk Background ?t = Some (ResumeNow ?e (step_runner ?e 0 0) Background ''wf-1'')"
    by (simp add: task_call_def t wk NewWithConfig_def engine_api_def Let_def)
  have e: "e_instances ?e = sqliteStore plain_gob" by (simp add: NewSQLiteEngine_def NewEngineWithConfig_def)
  have run: "ResumeNow ?e (step_runner ?e 0 0) Background ''wf-1'' bundle_world =
      (Done (None, Some (not_found ''wf-1'' ErrInstanceNotFound)), bundle_world)"
    by (simp add: ResumeNow_def resumeInline_def load_instance_def e bundle_world_def SQL_GetInstance_def find_row_def)
  have w: "w_clock bundle_world = 0" "w_queue bundle_world = leased_table" "sql_inv (w_heap bundle_world, w_store bundle_world)"
    by (simp_all add: bundle_world_def sql_inv_def)
  have "\<forall>t. 0 \<le> t \<and> t \<le> 0 \<longrightarrow> int64 t \<and> int64 (t + 100)" "int64 5" by (auto simp: int64_def)
  moreover have "no_timeout ?wk ?t (Some (not_found ''wf-1'' ErrInstanceNotFound))" by (simp add: no_timeout_def t)
  moreover have "sq_view plain_gob leased_table ''1'' = Some (?t, Leased ''w1'' 100)" by (rule table_views)
  ultimately show ?thesis
    using sqlite_bundle_settles_task [OF sample_bundle_def refl w(3) _ _ _ _ _ _ call run] table_inv(1)
    by (auto simp: w cfg t)
qed

text \<open>
  Instance identifiers after a restart. An engine numbers its instances from one each time it is created; on a
  database in which \<^verbatim>\<open>wf-1\<close> is already stored, the first \<^verbatim>\<open>Run\<close> of a new SQLite engine fails with the violated
  uniqueness constraint and the database is unchanged.
\<close>

theorem sqlite_restart_collides:
  assumes "e_instances e = sqliteStore G" "w_nextID w = 0" "find_row ''wf-1'' (w_store w) \<noteq> None"
    and "GetLatestWorkflow name (w_workflows w) = Inr def" "gob_ok G input"
  shows "\<exists>w'. Run e R c name input w = (Done (Some (length (w_heap w)), Some unique_violation), w') \<and>
    w_store w' = w_store w \<and> inst_Status (w_inst w' (length (w_heap w))) = StatusFailed"
proof -
  let ?x = "new_instance ''wf-1'' def StatusRunning input"
  have id: "nextInstanceID w = (''wf-1'', w\<lparr>w_nextID := 1\<rparr>)"
    using assms(2) FormatInt_1 by (simp add: nextInstanceID_def signed_take_bit_int_eq_self)
  have "storable G ?x" using assms(5) by (simp add: storable_def new_instance_def)
  from make_row_storable [OF this] obtain r where r: "make_row G ?x = Inr r" by blast
  moreover have "ir_id r = ''wf-1''" using make_row_ID [OF r] by (simp add: new_instance_def)
  ultimately have "SQL_SaveInstance G (length (w_heap w)) (w_heap w @ [?x]) (w_store w) = (Some unique_violation, w_store w)"
    using assms(3) by (simp add: SQL_SaveInstance_def)
  then show ?thesis
    by (simp add: Run_def assms(1,4) create_instance_def id alloc_def observe_def w_inst_def set_inst_def Let_def)
qed

theorem sqlite_restart_collides_witness:
  "\<exists>w'. Run (NewSQLiteEngine plain_gob ''00'' (\<lambda>p. pl_Name p) sample_build (\<lambda>r. 0)) (\<lambda>fn c v w. (NoFuel, w)) Background ''wf'' (VInt 4)
      (bundle_world\<lparr>w_workflows := [(''wf'', [(''v1'', sample_def)])], w_store := [leased_row '''' 0]\<rparr>) =
    (Done (Some 0, Some unique_violation), w') \<and> w_store w' = [leased_row '''' 0]"
proof -
  let ?w = "bundle_world\<lparr>w_workflows := [(''wf'', [(''v1'', sample_def)])], w_store := [leased_row '''' 0]\<rparr>"
  have "w_nextID ?w = 0" "find_row ''wf-1'' (w_store ?w) \<noteq> None" "GetLatestWorkflow ''wf'' (w_workflows ?w) = Inr sample_def"
    "w_heap ?w = []" "w_store ?w = [leased_row '''' 0]"
    by (simp_all add: bundle_world_def find_row_def GetLatestWorkflow_def)
  with sqlite_restart_collides [of "NewSQLiteEngine plain_gob ''00'' (\<lambda>p. pl_Name p) sample_build (\<lambda>r. 0)" plain_gob ?w "''wf''"
      sample_def "VInt 4" "\<lambda>fn c v w. (NoFuel, w)" Background] show ?thesis
    by (auto simp: NewSQLiteEngine_def NewEngineWithConfig_def)
qed

end
