(* ===== verification/Postgres_Store.thy ===== *)
theory Postgres_Store
  imports Local_Runner
begin

text \<open>
  The PostgreSQL instance store, \<^verbatim>\<open>postgres/internal/persistence/postgres_store.go\<close>, and the engine on it
  (\<^verbatim>\<open>postgres/engine.go\<close>), with its own table, statements and scans. At the end it is related to the SQLite store,
  which it was written after: for the parameters that the server accepts, its operations are those of
  the SQLite store on the corresponding table.
\<close>

section \<open>The database\<close>

text \<open>
  \<^verbatim>\<open>current_step\<close> is an \<^verbatim>\<open>INTEGER\<close>, which has 32 bits, \<^verbatim>\<open>lease_expires_at\<close> a \<^verbatim>\<open>BIGINT\<close>, which has 64. The columns that
  may be NULL are written by every statement of the store.
\<close>

record pg_instance =
  pi_id :: string
  pi_workflow_name :: string
  pi_workflow_version :: string
  pi_workflow_fingerprint :: string
  pi_status :: Status
  pi_current_step :: int
  pi_input :: bytes
  pi_output :: bytes
  pi_step_results :: bytes
  pi_error :: string
  pi_lease_owner :: string
  pi_lease_expires_at :: int

type_synonym pg_table = "pg_instance list"

text \<open>
  What is left to the server and its driver: the error of a violated constraint, the error with which a string is
  refused as a value of type \<^verbatim>\<open>TEXT\<close> (the type excludes the byte zero and what is not valid in the encoding of the
  database), the error for a number out of the range of \<^verbatim>\<open>INTEGER\<close>, and the order in
  which a \<^verbatim>\<open>SELECT\<close> without \<^verbatim>\<open>ORDER BY\<close> returns its rows.
\<close>

record postgres =
  pg_violation :: "string \<Rightarrow> goerr"
  pg_text :: "string \<Rightarrow> goerr option"
  pg_range :: "int \<Rightarrow> goerr"
  pg_scan :: "pg_instance list \<Rightarrow> pg_instance list"

text \<open>The parameters of a statement that can be refused, in the order of the call.\<close>

datatype pg_param = PText string | PInt int

fun pg_bind :: "postgres \<Rightarrow> pg_param list \<Rightarrow> goerr option" where
  "pg_bind P [] = None"
| "pg_bind P (PText t # ps) = (case pg_text P t of Some e \<Rightarrow> Some e | None \<Rightarrow> pg_bind P ps)"
| "pg_bind P (PInt n # ps) = (if - (2 ^ 31) \<le> n \<and> n < 2 ^ 31 then pg_bind P ps else Some (pg_range P n))"

definition NewPostgresInstanceStore :: pg_table where
  "NewPostgresInstanceStore = []"

section \<open>Operations\<close>

definition pg_errStr :: "WorkflowInstance \<Rightarrow> string" where
  "pg_errStr inst = (case inst_Err inst of None \<Rightarrow> '''' | Some e \<Rightarrow> Error e)"

definition insert_args :: "WorkflowInstance \<Rightarrow> pg_param list" where
  "insert_args inst = [PText (inst_ID inst), PText (inst_Name inst), PText (inst_Version inst), PText (inst_Fingerprint inst),
     PText (status_string (inst_Status inst)), PInt (int (inst_CurrentStep inst)), PText (pg_errStr inst), PText (inst_LeaseOwner inst)]"

definition PG_SaveInstance :: "postgres \<Rightarrow> gob \<Rightarrow> addr \<Rightarrow> heap \<Rightarrow> pg_table \<Rightarrow> goerr option \<times> pg_table" where
  "PG_SaveInstance P G a h s =
     (let inst = deref h a in
      case EncodeValue G (inst_Input inst) of
        Inl e \<Rightarrow> (Some e, s)
      | Inr input \<Rightarrow>
     (case EncodeValue G (inst_Output inst) of
        Inl e \<Rightarrow> (Some e, s)
      | Inr output \<Rightarrow>
     (case EncodeStepResults G (inst_StepResults inst) of
        Inl e \<Rightarrow> (Some e, s)
      | Inr stepResults \<Rightarrow>
     (case pg_bind P (insert_args inst) of
        Some e \<Rightarrow> (Some e, s)
      | None \<Rightarrow>
          if inst_ID inst \<in> set (map pi_id s) then (Some (pg_violation P ''instances_pkey''), s)
          else (None, s @ [\<lparr>pi_id = inst_ID inst, pi_workflow_name = inst_Name inst, pi_workflow_version = inst_Version inst,
                 pi_workflow_fingerprint = inst_Fingerprint inst, pi_status = inst_Status inst,
                 pi_current_step = int (inst_CurrentStep inst), pi_input = input, pi_output = output,
                 pi_step_results = stepResults, pi_error = pg_errStr inst, pi_lease_owner = inst_LeaseOwner inst,
                 pi_lease_expires_at = UnixNano (inst_LeaseExpiresAt inst)\<rparr>])))))"

definition update_args :: "WorkflowInstance \<Rightarrow> pg_param list" where
  "update_args inst = [PText (inst_Name inst), PText (inst_Version inst), PText (inst_Fingerprint inst),
     PText (status_string (inst_Status inst)), PInt (int (inst_CurrentStep inst)), PText (pg_errStr inst), PText (inst_LeaseOwner inst),
     PText (inst_ID inst)]"

definition PG_UpdateInstance :: "postgres \<Rightarrow> gob \<Rightarrow> addr \<Rightarrow> heap \<Rightarrow> pg_table \<Rightarrow> goerr option \<times> pg_table" where
  "PG_UpdateInstance P G a h s =
     (let inst = deref h a in
      case EncodeValue G (inst_Input inst) of
        Inl e \<Rightarrow> (Some e, s)
      | Inr input \<Rightarrow>
     (case EncodeValue G (inst_Output inst) of
        Inl e \<Rightarrow> (Some e, s)
      | Inr output \<Rightarrow>
     (case EncodeStepResults G (inst_StepResults inst) of
        Inl e \<Rightarrow> (Some e, s)
      | Inr stepResults \<Rightarrow>
     (case pg_bind P (update_args inst) of
        Some e \<Rightarrow> (Some e, s)
      | None \<Rightarrow>
          (if filter (\<lambda>r. pi_id r = inst_ID inst) s = [] then Some ErrInstanceNotFound else None,
           map (\<lambda>r. if pi_id r = inst_ID inst
              then r\<lparr>pi_workflow_name := inst_Name inst, pi_workflow_version := inst_Version inst,
                 pi_workflow_fingerprint := inst_Fingerprint inst, pi_status := inst_Status inst,
                 pi_current_step := int (inst_CurrentStep inst), pi_input := input, pi_output := output,
                 pi_step_results := stepResults, pi_error := pg_errStr inst, pi_lease_owner := inst_LeaseOwner inst,
                 pi_lease_expires_at := UnixNano (inst_LeaseExpiresAt inst)\<rparr>
              else r) s)))))"

text \<open>What \<^verbatim>\<open>GetInstance\<close> and the loop of \<^verbatim>\<open>ListInstances\<close> do with a row.\<close>

definition PG_scan_row :: "gob \<Rightarrow> pg_instance \<Rightarrow> goerr + WorkflowInstance" where
  "PG_scan_row G r =
     (case DecodeValue G TAny (pi_input r) of
        Inl e \<Rightarrow> Inl e
      | Inr inVal \<Rightarrow>
     (case DecodeValue G TAny (pi_output r) of
        Inl e \<Rightarrow> Inl e
      | Inr outVal \<Rightarrow>
     (case DecodeValue G TMapIntAny (pi_step_results r) of
        Inl e \<Rightarrow> Inl e
      | Inr stepResultsVal \<Rightarrow>
          Inr \<lparr>inst_ID = pi_id r, inst_Name = pi_workflow_name r, inst_Version = pi_workflow_version r,
               inst_Fingerprint = pi_workflow_fingerprint r, inst_LeaseOwner = pi_lease_owner r,
               inst_LeaseExpiresAt = (if pi_lease_expires_at r > 0 then pi_lease_expires_at r else zero_time),
               inst_Status = pi_status r, inst_Output = value_of outVal,
               inst_Err = (if pi_error r \<noteq> '''' then Some (ErrMsg (pi_error r)) else None),
               inst_Input = value_of inVal, inst_CurrentStep = nat (pi_current_step r),
               inst_StepResults = map_of_gob stepResultsVal\<rparr>)))"

definition PG_GetInstance :: "postgres \<Rightarrow> gob \<Rightarrow> string \<Rightarrow> heap \<Rightarrow> pg_table \<Rightarrow> (goerr + addr) \<times> heap" where
  "PG_GetInstance P G i h s =
     (case pg_bind P [PText i] of
        Some e \<Rightarrow> (Inl e, h)
      | None \<Rightarrow>
     (case filter (\<lambda>r. pi_id r = i) s of
        [] \<Rightarrow> (Inl ErrInstanceNotFound, h)
      | r # _ \<Rightarrow>
          (case PG_scan_row G r of
             Inl e \<Rightarrow> (Inl e, h)
           | Inr inst \<Rightarrow> (let (a, h') = alloc inst h in (Inr a, h')))))"

text \<open>The clauses and the arguments that \<^verbatim>\<open>ListInstances\<close> builds from its filter.\<close>

definition list_args :: "InstanceFilter \<Rightarrow> pg_param list" where
  "list_args f = (if filter_WorkflowName f \<noteq> '''' then [PText (filter_WorkflowName f)] else []) @
     (case filter_Status f of None \<Rightarrow> [] | Some st \<Rightarrow> [PText (status_string st)])"

definition list_where :: "InstanceFilter \<Rightarrow> pg_instance \<Rightarrow> bool" where
  "list_where f r \<longleftrightarrow> (filter_WorkflowName f \<noteq> '''' \<longrightarrow> pi_workflow_name r = filter_WorkflowName f) \<and>
     (\<forall>st. filter_Status f = Some st \<longrightarrow> pi_status r = st)"

fun PG_scan_rows :: "gob \<Rightarrow> pg_instance list \<Rightarrow> heap \<Rightarrow> (goerr + addr list) \<times> heap" where
  "PG_scan_rows G [] h = (Inr [], h)"
| "PG_scan_rows G (r # rs) h =
     (case PG_scan_row G r of
        Inl e \<Rightarrow> (Inl e, h)
      | Inr inst \<Rightarrow>
          let (a, h1) = alloc inst h in
          (case PG_scan_rows G rs h1 of
             (Inl e, h2) \<Rightarrow> (Inl e, h2)
           | (Inr as, h2) \<Rightarrow> (Inr (a # as), h2)))"

definition PG_ListInstances :: "postgres \<Rightarrow> gob \<Rightarrow> InstanceFilter \<Rightarrow> heap \<Rightarrow> pg_table \<Rightarrow> (goerr + addr list) \<times> heap" where
  "PG_ListInstances P G f h s =
     (case pg_bind P (list_args f) of
        Some e \<Rightarrow> (Inl e, h)
      | None \<Rightarrow> PG_scan_rows G (pg_scan P (filter (list_where f) s)) h)"

definition PG_TryAcquireLease :: "postgres \<Rightarrow> time \<Rightarrow> goerr option \<Rightarrow> string \<Rightarrow> string \<Rightarrow> duration \<Rightarrow> heap \<times> pg_table
     \<Rightarrow> (goerr + bool) \<times> heap \<times> pg_table" where
  "PG_TryAcquireLease P now cerr i owner ttl hs =
     (let (h, s) = hs; expires = UnixNano (now + ttl); nowInt = UnixNano now;
          Q = (\<lambda>r. pi_id r = i \<and> (pi_lease_owner r = '''' \<or> pi_lease_expires_at r \<le> nowInt \<or> pi_lease_owner r = owner))
      in case cerr of
           Some e \<Rightarrow> (Inl e, h, s)
         | None \<Rightarrow>
        (case pg_bind P [PText owner, PText i, PText owner] of
           Some e \<Rightarrow> (Inl e, h, s)
         | None \<Rightarrow>
             (Inr (filter Q s \<noteq> []), h,
              map (\<lambda>r. if Q r then r\<lparr>pi_lease_owner := owner, pi_lease_expires_at := expires\<rparr> else r) s)))"

definition PG_RenewLease :: "postgres \<Rightarrow> time \<Rightarrow> goerr option \<Rightarrow> string \<Rightarrow> string \<Rightarrow> duration \<Rightarrow> heap \<times> pg_table
     \<Rightarrow> goerr option \<times> heap \<times> pg_table" where
  "PG_RenewLease P now cerr i owner ttl hs =
     (let (h, s) = hs; expires = UnixNano (now + ttl);
          Q = (\<lambda>r. pi_id r = i \<and> pi_lease_owner r = owner)
      in case cerr of
           Some e \<Rightarrow> (Some e, h, s)
         | None \<Rightarrow>
        (case pg_bind P [PText i, PText owner] of
           Some e \<Rightarrow> (Some e, h, s)
         | None \<Rightarrow>
             (if filter Q s = [] then Some ErrWorkflowInstanceLocked else None, h,
              map (\<lambda>r. if Q r then r\<lparr>pi_lease_expires_at := expires\<rparr> else r) s)))"

definition PG_ReleaseLease :: "postgres \<Rightarrow> goerr option \<Rightarrow> string \<Rightarrow> string \<Rightarrow> heap \<times> pg_table \<Rightarrow> goerr option \<times> heap \<times> pg_table" where
  "PG_ReleaseLease P cerr i owner hs =
     (let (h, s) = hs;
          Q = (\<lambda>r. pi_id r = i \<and> (pi_lease_owner r = '''' \<or> pi_lease_owner r = owner))
      in case cerr of
           Some e \<Rightarrow> (Some e, h, s)
         | None \<Rightarrow>
        (case pg_bind P [PText i, PText owner] of
           Some e \<Rightarrow> (Some e, h, s)
         | None \<Rightarrow>
             (None, h, map (\<lambda>r. if Q r then r\<lparr>pi_lease_owner := '''', pi_lease_expires_at := 0\<rparr> else r) s)))"

definition postgresStore :: "postgres \<Rightarrow> gob \<Rightarrow> pg_table InstanceStore" where
  "postgresStore P G = \<lparr>is_SaveInstance = PG_SaveInstance P G, is_UpdateInstance = PG_UpdateInstance P G,
     is_GetInstance = PG_GetInstance P G, is_ListInstances = PG_ListInstances P G,
     is_TryAcquireLease = PG_TryAcquireLease P, is_RenewLease = PG_RenewLease P, is_ReleaseLease = (\<lambda>now. PG_ReleaseLease P)\<rparr>"

text \<open>Workflow definitions stay in memory, and no event store is configured.\<close>

definition NewPostgresEngine :: "postgres \<Rightarrow> gob \<Rightarrow> string \<Rightarrow> (fingerprint_payload \<Rightarrow> string) \<Rightarrow> build_info \<Rightarrow> (rat \<Rightarrow> int)
     \<Rightarrow> (pg_table, 'q, 'e) engineImpl" where
  "NewPostgresEngine P G rnd digest build conv = NewEngineWithConfig rnd digest build conv
     \<lparr>cfg_Instances = postgresStore P G, cfg_Events = None, cfg_Queue = None, cfg_EngineID = '''', cfg_LeaseTTL = 0\<rparr>"

lemma postgresStore_sel [simp]:
  "is_SaveInstance (postgresStore P G) = PG_SaveInstance P G" "is_UpdateInstance (postgresStore P G) = PG_UpdateInstance P G"
  "is_GetInstance (postgresStore P G) = PG_GetInstance P G" "is_ListInstances (postgresStore P G) = PG_ListInstances P G"
  "is_TryAcquireLease (postgresStore P G) = PG_TryAcquireLease P" "is_RenewLease (postgresStore P G) = PG_RenewLease P"
  "is_ReleaseLease (postgresStore P G) now = PG_ReleaseLease P"
  by (simp_all add: postgresStore_def)

section \<open>The SQLite row of a PostgreSQL row\<close>

definition sql_row :: "pg_instance \<Rightarrow> instance_row" where
  "sql_row r = \<lparr>ir_id = pi_id r, ir_workflow_name = pi_workflow_name r, ir_workflow_version = pi_workflow_version r,
     ir_workflow_fingerprint = pi_workflow_fingerprint r, ir_status = pi_status r, ir_current_step = nat (pi_current_step r),
     ir_input = pi_input r, ir_output = pi_output r, ir_step_results = pi_step_results r, ir_error = pi_error r,
     ir_lease_owner = pi_lease_owner r, ir_lease_expires_at = pi_lease_expires_at r\<rparr>"

lemma sql_row_sel [simp]:
  "ir_id (sql_row r) = pi_id r" "ir_workflow_name (sql_row r) = pi_workflow_name r" "ir_status (sql_row r) = pi_status r"
  "ir_lease_owner (sql_row r) = pi_lease_owner r" "ir_lease_expires_at (sql_row r) = pi_lease_expires_at r"
  by (simp_all add: sql_row_def)

lemma sql_row_lease:
  "sql_row (r\<lparr>pi_lease_owner := w\<rparr>) = (sql_row r)\<lparr>ir_lease_owner := w\<rparr>"
  "sql_row (r\<lparr>pi_lease_expires_at := x\<rparr>) = (sql_row r)\<lparr>ir_lease_expires_at := x\<rparr>"
  by (simp_all add: sql_row_def)

lemma filter_sql_rows:
  "filter Q (map sql_row s) = [] \<longleftrightarrow> filter (\<lambda>r. Q (sql_row r)) s = []"
  by (simp add: filter_map comp_def)

lemma find_sql_row: "find_row i (map sql_row s) = (case filter (\<lambda>r. pi_id r = i) s of [] \<Rightarrow> None | r # _ \<Rightarrow> Some (sql_row r))"
  by (induction s) (auto simp: find_row_def)

lemma scan_sql_row: "scan_row G (sql_row r) = PG_scan_row G r"
  unfolding scan_row_def PG_scan_row_def by (simp add: sql_row_def split: sum.split)

lemma scan_sql_rows: "scan_rows G (map sql_row rs) h = PG_scan_rows G rs h"
  by (induction rs arbitrary: h) (auto simp: scan_sql_row split: sum.split prod.split)

lemma matches_sql_row: "row_matches f (sql_row r) = list_where f r"
  by (auto simp: row_matches_def list_where_def split: option.split)

text \<open>The operations, on the parameters the server accepts.\<close>

lemma PG_Save_refines:
  assumes "pg_bind P (insert_args (deref h a)) = None"
  shows "map sql_row (snd (PG_SaveInstance P G a h s)) = snd (SQL_SaveInstance G a h (map sql_row s))"
    "fst (PG_SaveInstance P G a h s) = None \<longleftrightarrow> fst (SQL_SaveInstance G a h (map sql_row s)) = None"
proof -
  have "find_row i (map sql_row s) = None \<longleftrightarrow> i \<notin> set (map pi_id s)" for i
    by (auto simp: find_row_None image_image)
  then show "map sql_row (snd (PG_SaveInstance P G a h s)) = snd (SQL_SaveInstance G a h (map sql_row s))"
    "fst (PG_SaveInstance P G a h s) = None \<longleftrightarrow> fst (SQL_SaveInstance G a h (map sql_row s)) = None"
    using assms
    by (auto simp: PG_SaveInstance_def SQL_SaveInstance_def make_row_def Let_def split: sum.split)
      (simp add: sql_row_def pg_errStr_def)
qed

lemma PG_Update_refines:
  assumes "pg_bind P (update_args (deref h a)) = None"
  shows "SQL_UpdateInstance G a h (map sql_row s) = map_prod id (map sql_row) (PG_UpdateInstance P G a h s)"
  using assms
  by (auto simp: PG_UpdateInstance_def SQL_UpdateInstance_def make_row_def Let_def filter_sql_rows comp_def pg_errStr_def sql_row_def
      split: sum.split)

text \<open>A write with a parameter that is refused.\<close>

lemma PG_writes_refused:
  "pg_bind P (insert_args (deref h a)) = Some e \<Longrightarrow>
    \<exists>e'. PG_SaveInstance P G a h s = (Some e', s) \<and> (encodable G (deref h a) \<longrightarrow> e' = e)"
  "pg_bind P (update_args (deref h a)) = Some e \<Longrightarrow>
    \<exists>e'. PG_UpdateInstance P G a h s = (Some e', s) \<and> (encodable G (deref h a) \<longrightarrow> e' = e)"
  by (auto simp: PG_SaveInstance_def PG_UpdateInstance_def encodable_def Let_def split: sum.split)

lemma PG_Get_refines:
  "PG_GetInstance P G i h s = (case pg_text P i of None \<Rightarrow> SQL_GetInstance G i h (map sql_row s) | Some e \<Rightarrow> (Inl e, h))"
  by (auto simp: PG_GetInstance_def SQL_GetInstance_def find_sql_row scan_sql_row split: option.split list.split)

text \<open>Listing the same rows in another order gives the same instances in another order.\<close>

lemma scan_rows_all:
  "\<forall>r \<in> set rs. \<exists>x. scan_row G r = Inr x \<Longrightarrow>
    scan_rows G rs h = (Inr [length h..<length h + length rs], h @ map (\<lambda>r. projr (scan_row G r)) rs)"
proof (induction rs arbitrary: h)
  case (Cons r rs)
  then obtain x where x: "scan_row G r = Inr x" by auto
  have "[length h..<length h + length (r # rs)] = length h # [length (h @ [x])..<length (h @ [x]) + length rs]"
    by (simp add: upt_conv_Cons del: upt_Suc)
  with Cons.IH [of "h @ [x]"] Cons.prems x show ?case by (simp add: alloc_def)
qed simp

lemma scan_rows_Inr: "scan_rows G rs h = (Inr as, h') \<Longrightarrow> \<forall>r \<in> set rs. \<exists>x. scan_row G r = Inr x"
  by (induction rs arbitrary: h as h') (auto simp: alloc_def split: sum.splits prod.splits)

lemma map_deref_new: "map (deref (h @ xs)) [length h..<length h + length xs] = xs"
  by (rule nth_equalityI) (simp_all add: deref_def nth_append)

lemma scan_rows_perm:
  assumes "scan_rows G rs h = (Inr as, h')" "mset rs' = mset rs"
  shows "\<exists>bs g'. scan_rows G rs' h = (Inr bs, g') \<and> mset (map (deref g') bs) = mset (map (deref h') as)"
proof -
  let ?f = "\<lambda>r. projr (scan_row G r)"
  have all: "\<forall>r \<in> set rs. \<exists>x. scan_row G r = Inr x" using scan_rows_Inr [OF assms(1)] .
  then have all': "\<forall>r \<in> set rs'. \<exists>x. scan_row G r = Inr x" using mset_eq_setD [OF assms(2)] by simp
  have "mset (map ?f rs') = mset (map ?f rs)" by (simp add: assms(2))
  with assms(1) scan_rows_all [OF all, of h] scan_rows_all [OF all', of h] show ?thesis
    using map_deref_new [of h "map ?f rs"] map_deref_new [of h "map ?f rs'"] by (auto simp del: mset_map)
qed

lemma PG_List_refines:
  assumes "\<forall>rs. mset (pg_scan P rs) = mset rs" "pg_bind P (list_args f) = None"
  shows "case (SQL_ListInstances G f h (map sql_row s), PG_ListInstances P G f h s) of
      ((Inr as, h1), (Inr bs, h2)) \<Rightarrow> mset (map (deref h2) bs) = mset (map (deref h1) as)
    | ((Inl e, h1), (Inl e', h2)) \<Rightarrow> True
    | _ \<Rightarrow> False"
proof -
  let ?rs = "map sql_row (filter (list_where f) s)" and ?rs' = "map sql_row (pg_scan P (filter (list_where f) s))"
  have m: "mset ?rs' = mset ?rs" using assms(1) by simp
  have sql: "SQL_ListInstances G f h (map sql_row s) = scan_rows G ?rs h"
    by (simp add: SQL_ListInstances_def filter_map comp_def matches_sql_row)
  have pg: "PG_ListInstances P G f h s = scan_rows G ?rs' h" using assms(2) by (simp add: PG_ListInstances_def scan_sql_rows)
  obtain r1 h1 where 1: "scan_rows G ?rs h = (r1, h1)" by (cases "scan_rows G ?rs h")
  obtain r2 h2 where 2: "scan_rows G ?rs' h = (r2, h2)" by (cases "scan_rows G ?rs' h")
  have "(\<forall>as. r1 = Inr as \<longrightarrow> (\<exists>bs. r2 = Inr bs \<and> mset (map (deref h2) bs) = mset (map (deref h1) as)))"
    using scan_rows_perm [OF _ m, of G h _ h1] 1 2 by auto
  moreover have "\<forall>bs. r2 = Inr bs \<longrightarrow> (\<exists>as. r1 = Inr as)"
    using scan_rows_perm [OF _ m [symmetric], of G h _ h2] 1 2 by auto
  ultimately show ?thesis unfolding sql pg 1 2 by (auto simp del: mset_map split: sum.splits)
qed

lemma PG_leases_refine:
  "pg_bind P [PText owner, PText i, PText owner] = None \<Longrightarrow>
    SQL_TryAcquireLease now cerr i owner ttl (h, map sql_row s) = apsnd (apsnd (map sql_row)) (PG_TryAcquireLease P now cerr i owner ttl (h, s))"
  "pg_bind P [PText i, PText owner] = None \<Longrightarrow>
    SQL_RenewLease now cerr i owner ttl (h, map sql_row s) = apsnd (apsnd (map sql_row)) (PG_RenewLease P now cerr i owner ttl (h, s))"
  "pg_bind P [PText i, PText owner] = None \<Longrightarrow>
    SQL_ReleaseLease cerr i owner (h, map sql_row s) = apsnd (apsnd (map sql_row)) (PG_ReleaseLease P cerr i owner (h, s))"
  by (auto simp: SQL_TryAcquireLease_def PG_TryAcquireLease_def SQL_RenewLease_def PG_RenewLease_def SQL_ReleaseLease_def
      PG_ReleaseLease_def lease_free_def Let_def filter_sql_rows comp_def sql_row_lease split: option.split)

section \<open>The engine contract\<close>

definition pg_inv :: "heap \<times> pg_table \<Rightarrow> bool" where
  "pg_inv hs \<longleftrightarrow> distinct (map pi_id (snd hs))"

lemma PG_leases_frame:
  "PG_TryAcquireLease P now cerr i owner ttl (h, s) = (rb, h', s') \<Longrightarrow> h' = h \<and> map pi_id s' = map pi_id s"
  "PG_RenewLease P now cerr i owner ttl (h, s) = (err, h', s') \<Longrightarrow> h' = h \<and> map pi_id s' = map pi_id s"
  "PG_ReleaseLease P cerr i owner (h, s) = (err, h', s') \<Longrightarrow> h' = h \<and> map pi_id s' = map pi_id s"
  by (auto simp: PG_TryAcquireLease_def PG_RenewLease_def PG_ReleaseLease_def Let_def split: option.splits)

interpretation postgres_engine: engine_store "postgresStore P G" pg_inv
  for P G
proof (unfold_locales, goal_cases)
  case (1 h s i r h')
  have "sql_inv (h, map sql_row s)" using 1(1) by (simp add: pg_inv_def sql_inv_def comp_def)
  from sqlite_engine.get_law [OF this, of G i] 1 show ?case
    by (auto simp: PG_Get_refines pg_inv_def split: option.splits)
next
  case (2 h s f rs h')
  then show ?case using scan_rows_heap [of G "map sql_row (pg_scan P (filter (list_where f) s))" h rs h']
    by (auto simp: PG_ListInstances_def scan_sql_rows pg_inv_def split: option.splits)
next
  case (3 h s a err s')
  then show ?case
    by (auto simp: PG_SaveInstance_def pg_inv_def Let_def split: sum.splits option.splits if_splits)
next
  case (4 h s a err s')
  then have "map pi_id s' = map pi_id s"
    by (auto simp: PG_UpdateInstance_def Let_def split: sum.splits option.splits)
  with 4(1) show ?case by (simp add: pg_inv_def)
next
  case (5 h s now cerr i owner ttl rb h' s')
  then show ?case using PG_leases_frame(1) [of P now cerr i owner ttl h s rb h' s'] by (auto simp: pg_inv_def)
next
  case (6 h s now cerr i owner ttl err h' s')
  then show ?case using PG_leases_frame(2) [of P now cerr i owner ttl h s err h' s'] by (auto simp: pg_inv_def)
next
  case (7 h s now cerr i owner err h' s')
  then show ?case using PG_leases_frame(3) [of P cerr i owner h s err h' s'] by (auto simp: pg_inv_def)
qed (simp_all add: pg_inv_def)

section \<open>Refinement\<close>

text \<open>
  C34: The PostgreSQL store refines the SQLite store. Both are coded on their own; a table of the one is related to
  the table of the other that has the same columns. If the server returns exactly the selected rows, in whatever
  order, then every operation whose parameters it accepts (no string that the type \<^verbatim>\<open>TEXT\<close> refuses, a current
  step of at most 31 bits) does to the table and returns what the operation of the SQLite store does: \<^verbatim>\<open>SaveInstance\<close>
  up to the error it fails with, \<^verbatim>\<open>ListInstances\<close> up to the order of the instances. An operation with a parameter that
  is refused reports that error (or that of the encoding before it) and leaves the table as it is.
\<close>

theorem postgres_store_refines_sqlite_store:
  assumes "\<forall>rs. mset (pg_scan P rs) = mset rs" "x = deref h a" "t = map sql_row s"
  shows "(case pg_bind P (insert_args x) of
        None \<Rightarrow> (let (err, s') = PG_SaveInstance P G a h s; (err', t') = SQL_SaveInstance G a h t
          in t' = map sql_row s' \<and> (err = None \<longleftrightarrow> err' = None))
      | Some e \<Rightarrow> \<exists>e'. PG_SaveInstance P G a h s = (Some e', s) \<and> (encodable G x \<longrightarrow> e' = e)) \<and>
    (case pg_bind P (update_args x) of
        None \<Rightarrow> (let (err, s') = PG_UpdateInstance P G a h s in SQL_UpdateInstance G a h t = (err, map sql_row s'))
      | Some e \<Rightarrow> \<exists>e'. PG_UpdateInstance P G a h s = (Some e', s) \<and> (encodable G x \<longrightarrow> e' = e)) \<and>
    PG_GetInstance P G i h s = (case pg_text P i of None \<Rightarrow> SQL_GetInstance G i h t | Some e \<Rightarrow> (Inl e, h)) \<and>
    (case pg_bind P (list_args f) of
        None \<Rightarrow> (case (SQL_ListInstances G f h t, PG_ListInstances P G f h s) of
            ((Inr as, h1), (Inr bs, h2)) \<Rightarrow> mset (map (deref h2) bs) = mset (map (deref h1) as)
          | ((Inl e, h1), (Inl e', h2)) \<Rightarrow> True
          | _ \<Rightarrow> False)
      | Some e \<Rightarrow> PG_ListInstances P G f h s = (Inl e, h)) \<and>
    (case pg_bind P [PText i, PText owner] of
        None \<Rightarrow>
          (let (rb, h', s') = PG_TryAcquireLease P now cerr i owner ttl (h, s)
           in SQL_TryAcquireLease now cerr i owner ttl (h, t) = (rb, h', map sql_row s')) \<and>
          (let (err, h', s') = PG_RenewLease P now cerr i owner ttl (h, s)
           in SQL_RenewLease now cerr i owner ttl (h, t) = (err, h', map sql_row s')) \<and>
          (let (err, h', s') = PG_ReleaseLease P cerr i owner (h, s)
           in SQL_ReleaseLease cerr i owner (h, t) = (err, h', map sql_row s'))
      | Some e \<Rightarrow> (\<exists>e'. PG_TryAcquireLease P now cerr i owner ttl (h, s) = (Inl e', h, s)) \<and>
          (\<exists>e'. PG_RenewLease P now cerr i owner ttl (h, s) = (Some e', h, s)) \<and>
          (\<exists>e'. PG_ReleaseLease P cerr i owner (h, s) = (Some e', h, s)))"
proof (intro conjI)
  show "case pg_bind P (insert_args x) of
        None \<Rightarrow> (let (err, s') = PG_SaveInstance P G a h s; (err', t') = SQL_SaveInstance G a h t
          in t' = map sql_row s' \<and> (err = None \<longleftrightarrow> err' = None))
      | Some e \<Rightarrow> \<exists>e'. PG_SaveInstance P G a h s = (Some e', s) \<and> (encodable G x \<longrightarrow> e' = e)"
    using PG_Save_refines [of P h a G s] PG_writes_refused(1) [of P h a _ G s] assms(2,3)
    by (cases "pg_bind P (insert_args x)") (simp_all add: split_beta Let_def)
  show "case pg_bind P (update_args x) of
        None \<Rightarrow> (let (err, s') = PG_UpdateInstance P G a h s in SQL_UpdateInstance G a h t = (err, map sql_row s'))
      | Some e \<Rightarrow> \<exists>e'. PG_UpdateInstance P G a h s = (Some e', s) \<and> (encodable G x \<longrightarrow> e' = e)"
    using PG_Update_refines [of P h a G s] PG_writes_refused(2) [of P h a _ G s] assms(2,3)
    by (cases "pg_bind P (update_args x)") (simp_all add: split_beta map_prod_def)
  show "PG_GetInstance P G i h s = (case pg_text P i of None \<Rightarrow> SQL_GetInstance G i h t | Some e \<Rightarrow> (Inl e, h))"
    unfolding assms(3) by (rule PG_Get_refines)
  show "case pg_bind P (list_args f) of
        None \<Rightarrow> (case (SQL_ListInstances G f h t, PG_ListInstances P G f h s) of
            ((Inr as, h1), (Inr bs, h2)) \<Rightarrow> mset (map (deref h2) bs) = mset (map (deref h1) as)
          | ((Inl e, h1), (Inl e', h2)) \<Rightarrow> True
          | _ \<Rightarrow> False)
      | Some e \<Rightarrow> PG_ListInstances P G f h s = (Inl e, h)"
    using PG_List_refines [OF assms(1), of f G h s] assms(3)
    by (cases "pg_bind P (list_args f)") (simp_all add: PG_ListInstances_def)
  show "case pg_bind P [PText i, PText owner] of
        None \<Rightarrow>
          (let (rb, h', s') = PG_TryAcquireLease P now cerr i owner ttl (h, s)
           in SQL_TryAcquireLease now cerr i owner ttl (h, t) = (rb, h', map sql_row s')) \<and>
          (let (err, h', s') = PG_RenewLease P now cerr i owner ttl (h, s)
           in SQL_RenewLease now cerr i owner ttl (h, t) = (err, h', map sql_row s')) \<and>
          (let (err, h', s') = PG_ReleaseLease P cerr i owner (h, s)
           in SQL_ReleaseLease cerr i owner (h, t) = (err, h', map sql_row s'))
      | Some e \<Rightarrow> (\<exists>e'. PG_TryAcquireLease P now cerr i owner ttl (h, s) = (Inl e', h, s)) \<and>
          (\<exists>e'. PG_RenewLease P now cerr i owner ttl (h, s) = (Some e', h, s)) \<and>
          (\<exists>e'. PG_ReleaseLease P cerr i owner (h, s) = (Some e', h, s))"
  proof (cases "pg_bind P [PText i, PText owner]")
    case None
    then have "pg_bind P [PText owner, PText i, PText owner] = None" by (simp split: option.splits)
    with None PG_leases_refine(1) [of P owner i now cerr ttl h s] PG_leases_refine(2) [of P i owner now cerr ttl h s]
      PG_leases_refine(3) [of P i owner cerr h s] assms(3) show ?thesis
      by (simp add: split_beta apsnd_def map_prod_def del: pg_bind.simps)
  next
    case (Some e)
    then have "pg_bind P [PText owner, PText i, PText owner] \<noteq> None" by (auto split: option.splits)
    with Some show ?thesis
      by (auto simp: PG_TryAcquireLease_def PG_RenewLease_def PG_ReleaseLease_def Let_def simp del: pg_bind.simps split: option.splits)
  qed
qed

text \<open>A server that refuses strings with the byte zero and lists the latest row first.\<close>

definition sample_postgres :: postgres where
  "sample_postgres = \<lparr>pg_violation = (\<lambda>n. ErrMsg (''duplicate key value violates unique constraint '' @ n)),
     pg_text = (\<lambda>t. if CHR 0x00 \<in> set t then Some (ErrMsg ''invalid byte sequence for encoding UTF8: 0x00'') else None),
     pg_range = (\<lambda>n. ErrMsg ''integer out of range''), pg_scan = rev\<rparr>"

theorem postgres_store_refines_sqlite_store_witness:
  "map sql_row (snd (PG_SaveInstance sample_postgres plain_gob 0 [stored_inst] [])) =
     snd (SQL_SaveInstance plain_gob 0 [stored_inst] []) \<and>
   (\<exists>e. PG_SaveInstance sample_postgres plain_gob 0 [stored_inst\<lparr>inst_CurrentStep := 2 ^ 31\<rparr>] [] = (Some e, []))"
proof -
  have o: "\<forall>rs. mset (pg_scan sample_postgres rs) = mset rs" by (simp add: sample_postgres_def)
  have "pg_bind sample_postgres (insert_args (deref [stored_inst] 0)) = None"
    by (simp add: insert_args_def sample_postgres_def deref_def stored_inst_def pg_errStr_def)
  moreover have "pg_bind sample_postgres (insert_args (deref [stored_inst\<lparr>inst_CurrentStep := 2 ^ 31\<rparr>] 0)) = Some (ErrMsg ''integer out of range'')"
    by (simp add: insert_args_def sample_postgres_def deref_def stored_inst_def pg_errStr_def)
  ultimately show ?thesis
    using postgres_store_refines_sqlite_store [where h = "[stored_inst]" and a = 0 and G = plain_gob and s = "[]",
        OF o refl refl, THEN conjunct1]
      postgres_store_refines_sqlite_store [where h = "[stored_inst\<lparr>inst_CurrentStep := 2 ^ 31\<rparr>]" and a = 0
        and G = plain_gob and s = "[]", OF o refl refl, THEN conjunct1]
    by (auto simp: split_beta Let_def)
qed

end
