(* ===== verification/Postgres_Queue.thy ===== *)
theory Postgres_Queue
  imports Postgres_Store
begin

text \<open>
  The PostgreSQL task queue, \<^verbatim>\<open>postgres/internal/taskqueue/postgres_queue.go\<close>. A task is deleted from the
  table in the transaction that claims it, so there are no leases, and \<^verbatim>\<open>RenewLease\<close>, \<^verbatim>\<open>Ack\<close> and \<^verbatim>\<open>Nack\<close> do
  nothing: the queue does not meet the contract \<open>task_queue\<close> (a task is kept until acknowledged), and the
  last theorem shows what this means for a worker.
\<close>

section \<open>The table\<close>

text \<open>\<open>pt_created_at\<close> is a \<^verbatim>\<open>TIMESTAMPTZ\<close>, in microseconds.\<close>

record pg_task =
  pt_id :: string
  pt_payload :: gobstream
  pt_created_at :: int

type_synonym queue_tasks = "pg_task list"

definition NewPostgresQueue :: queue_tasks where
  "NewPostgresQueue = []"

section \<open>Operations\<close>

definition PG_Enqueue :: "postgres \<Rightarrow> gob \<Rightarrow> time \<Rightarrow> goerr option \<Rightarrow> Task \<Rightarrow> queue_tasks \<Rightarrow> goerr option \<times> queue_tasks" where
  "PG_Enqueue P G now cerr t q =
     (case EncodeTask G t of
        Inl e \<Rightarrow> (Some e, q)
      | Inr data \<Rightarrow>
          (case cerr of
             Some e \<Rightarrow> (Some e, q)
           | None \<Rightarrow>
          (case pg_bind P [PText (task_ID t)] of
             Some e \<Rightarrow> (Some e, q)
           | None \<Rightarrow>
               if task_ID t \<in> set (map pt_id q) then (Some (pg_violation P ''queue_tasks_pkey''), q)
               else (None, q @ [\<lparr>pt_id = task_ID t, pt_payload = data, pt_created_at = now div 1000\<rparr>]))))"

text \<open>
  \<^verbatim>\<open>ORDER BY created_at LIMIT 1\<close>: \<open>tie\<close> is the choice of the server among rows of the same microsecond.
\<close>

definition oldest :: "queue_tasks \<Rightarrow> queue_tasks" where
  "oldest q = filter (\<lambda>r. list_all (\<lambda>s. pt_created_at r \<le> pt_created_at s) q) q"

definition PG_DequeuePoll :: "(queue_tasks \<Rightarrow> nat) \<Rightarrow> gob \<Rightarrow> time \<Rightarrow> string \<Rightarrow> duration \<Rightarrow> queue_tasks
     \<Rightarrow> (goerr + Task option) \<times> queue_tasks" where
  "PG_DequeuePoll tie G now owner leaseTTL q =
     (let rs = oldest q in
      if rs = [] then (Inr None, q)
      else
        let r = rs ! (tie rs mod length rs);
            q' = filter (\<lambda>s. pt_id s \<noteq> pt_id r) q
        in (case DecodeTask G (pt_payload r) of
              Inl e \<Rightarrow> (Inl (ErrWrap (''decode task '' @ quote (pt_id r) @ '' failed: '' @ Error e) e), q')
            | Inr task \<Rightarrow> (Inr (Some task), q')))"

definition PG_Len :: "queue_tasks \<Rightarrow> nat" where
  "PG_Len q = length q"

definition PG_RenewTask :: "time \<Rightarrow> string \<Rightarrow> string \<Rightarrow> duration \<Rightarrow> queue_tasks \<Rightarrow> goerr option \<times> queue_tasks" where
  "PG_RenewTask now taskID owner leaseTTL q = (None, q)"

definition PG_Ack :: "goerr option \<Rightarrow> string \<Rightarrow> string \<Rightarrow> queue_tasks \<Rightarrow> goerr option \<times> queue_tasks" where
  "PG_Ack cerr taskID owner q = (None, q)"

definition PG_Nack :: "goerr option \<Rightarrow> string \<Rightarrow> string \<Rightarrow> time \<Rightarrow> int \<Rightarrow> queue_tasks \<Rightarrow> goerr option \<times> queue_tasks" where
  "PG_Nack cerr taskID owner notBefore attempts q = (None, q)"

definition postgresQueue :: "postgres \<Rightarrow> (queue_tasks \<Rightarrow> nat) \<Rightarrow> gob \<Rightarrow> queue_tasks Queue" where
  "postgresQueue P tie G = \<lparr>q_Enqueue = PG_Enqueue P G, q_checkTTL = (\<lambda>_. None),
     q_DequeuePoll = PG_DequeuePoll tie G, q_pollInterval = 100 * Millisecond,
     q_RenewLease = PG_RenewTask, q_Ack = PG_Ack, q_Nack = PG_Nack, q_Len = PG_Len\<rparr>"

lemma postgresQueue_sel [simp]:
  "q_Enqueue (postgresQueue P tie G) = PG_Enqueue P G" "q_DequeuePoll (postgresQueue P tie G) = PG_DequeuePoll tie G"
  "q_Ack (postgresQueue P tie G) = PG_Ack" "q_Nack (postgresQueue P tie G) = PG_Nack"
  "q_RenewLease (postgresQueue P tie G) = PG_RenewTask"
  by (simp_all add: postgresQueue_def)

section \<open>First in, first out\<close>

text \<open>The row a task becomes, and the table of tasks enqueued one after the other with the given gaps.\<close>

definition pg_row :: "Task \<Rightarrow> time \<Rightarrow> pg_task" where
  "pg_row t now = \<lparr>pt_id = task_ID t, pt_payload = GobConcrete (GobTask t), pt_created_at = now div 1000\<rparr>"

fun pg_rows :: "(Task \<times> nat) list \<Rightarrow> time \<Rightarrow> queue_tasks" where
  "pg_rows [] now = []"
| "pg_rows ((t, d) # ts) now = pg_row t now # pg_rows ts (now + int d)"

definition elapsed :: "(Task \<times> nat) list \<Rightarrow> duration" where
  "elapsed ts = (\<Sum>(t, d) \<leftarrow> ts. int d)"

definition spaced :: "postgres \<Rightarrow> gob \<Rightarrow> (Task \<times> nat) list \<Rightarrow> bool" where
  "spaced P G ts \<longleftrightarrow> distinct (map (task_ID \<circ> fst) ts) \<and>
     list_all (\<lambda>(t, d). gob_ok G (task_Payload t) \<and> pg_text P (task_ID t) = None \<and> 1000 \<le> d) ts"

lemma gob_ok_EncodeTask: "gob_ok G (task_Payload t) \<Longrightarrow> EncodeTask G t = Inr (GobConcrete (GobTask t))"
  by (simp add: gob_ok_def EncodeTask_def)

lemma gob_ok_DecodeTask: "gob_ok G (task_Payload t) \<Longrightarrow> DecodeTask G (GobConcrete (GobTask t)) = Inr t"
  using EncodeTask_DecodeTask [OF gob_ok_EncodeTask, of G t] by (simp add: gob_ok_def)

lemma pg_rows_created: "r \<in> set (pg_rows ts now) \<Longrightarrow> now div 1000 \<le> pt_created_at r"
proof (induction ts arbitrary: now)
  case (Cons x ts)
  obtain t d where x: "x = (t, d)" by (cases x)
  have "now div 1000 \<le> (now + int d) div 1000" by (intro zdiv_mono1) simp_all
  with Cons.IH [of "now + int d"] Cons.prems show ?case by (auto simp: pg_row_def x)
qed simp

lemma pg_rows_ids [simp]: "pt_id ` set (pg_rows ts now) = task_ID ` fst ` set ts"
  by (induction ts now rule: pg_rows.induct) (simp_all add: pg_row_def)

lemma pg_rows_append: "pg_rows (ts @ [(t, d)]) now = pg_rows ts now @ [pg_row t (now + elapsed ts)]"
  by (induction ts now rule: pg_rows.induct) (simp_all add: elapsed_def algebra_simps)

lemma oldest_pg_rows:
  assumes "1000 \<le> d"
  shows "oldest (pg_rows ((t, d) # ts) now) = [pg_row t now]"
proof -
  let ?rest = "pg_rows ts (now + int d)"
  have "now div 1000 < (now + 1000) div 1000" by simp
  also have "\<dots> \<le> (now + int d) div 1000" using assms by (intro zdiv_mono1) simp_all
  finally have later: "now div 1000 < pt_created_at r" if "r \<in> set ?rest" for r
    using pg_rows_created [OF that] by simp
  then have "filter (\<lambda>r. list_all (\<lambda>s. pt_created_at r \<le> pt_created_at s) (pg_row t now # ?rest)) ?rest = []"
    by (auto simp: filter_empty_conv pg_row_def not_le)
  moreover have "list_all (\<lambda>s. pt_created_at (pg_row t now) \<le> pt_created_at s) (pg_row t now # ?rest)"
    using later by (auto simp: list_all_iff pg_row_def less_imp_le)
  ultimately show ?thesis by (simp add: oldest_def)
qed

lemma PG_poll_head:
  assumes "spaced P G ((t, d) # ts)"
  shows "PG_DequeuePoll tie G now' owner ttl (pg_rows ((t, d) # ts) now) = (Inr (Some t), pg_rows ts (now + int d))"
proof -
  have t: "1000 \<le> d" "gob_ok G (task_Payload t)" "task_ID t \<notin> task_ID ` fst ` set ts"
    using assms by (auto simp: spaced_def image_iff)
  have "task_ID t \<notin> pt_id ` set (pg_rows ts (now + int d))" using t(3) by simp
  then have "filter (\<lambda>s. pt_id s \<noteq> task_ID t) (pg_rows ts (now + int d)) = pg_rows ts (now + int d)"
    unfolding filter_id_conv by (metis imageI)
  then show ?thesis
    unfolding PG_DequeuePoll_def oldest_pg_rows [OF t(1)] Let_def using gob_ok_DecodeTask [OF t(2)]
    by (simp add: pg_row_def)
qed

lemma PG_enqueue_last:
  assumes "spaced P G (ts @ [(t, d)])"
  shows "PG_Enqueue P G (now + elapsed ts) None t (pg_rows ts now) = (None, pg_rows (ts @ [(t, d)]) now)"
  using assms by (auto simp: PG_Enqueue_def gob_ok_EncodeTask pg_row_def pg_rows_append spaced_def image_iff)

lemma enqueue_all:
  assumes "spaced P G (pre @ ts)"
  shows "qrun (postgresQueue P tie G) (concat (map (\<lambda>(t, d). [QEnqueue t, QTick d]) ts))
      (now + elapsed pre, pg_rows pre now) = ([], now + elapsed (pre @ ts), pg_rows (pre @ ts) now)"
  using assms
proof (induction ts arbitrary: pre)
  case (Cons x ts)
  obtain t d where x: "x = (t, d)" by (cases x)
  have "spaced P G (pre @ [(t, d)])" using Cons.prems by (auto simp: spaced_def x)
  from PG_enqueue_last [OF this] Cons.IH [of "pre @ [(t, d)]"] Cons.prems show ?case
    by (simp add: qexec_def x elapsed_def add.assoc)
qed simp

lemma poll_all:
  assumes "spaced P G ts"
  shows "qrun (postgresQueue P tie G) (replicate (length ts) (QPoll w ttl)) (now', pg_rows ts now) =
    (map (Pair w \<circ> fst) ts, now', [])"
  using assms
proof (induction ts arbitrary: now)
  case (Cons x ts)
  obtain t d where x: "x = (t, d)" by (cases x)
  from PG_poll_head [of P G t d ts tie now' w ttl now] Cons.prems
  have "PG_DequeuePoll tie G now' w ttl (pg_rows (x # ts) now) = (Inr (Some t), pg_rows ts (now + int d))" by (simp add: x)
  with Cons.IH [of "now + int d"] Cons.prems show ?case by (simp add: qexec_def x spaced_def del: pg_rows.simps)
qed simp

text \<open>
  Order of delivery of the PostgreSQL queue. Tasks with different identifiers that the server accepts, enqueued with at
  least a microsecond in between, are delivered in the order they were enqueued, each exactly once,
  and leave the queue empty; when they should start (\<^verbatim>\<open>NotBefore\<close>) plays no role.
\<close>

theorem postgres_fifo:
  assumes "spaced P G ts"
  shows "\<exists>q. qrun (postgresQueue P tie G) (concat (map (\<lambda>(t, d). [QEnqueue t, QTick d]) ts)) (now, NewPostgresQueue) =
      ([], now + elapsed ts, q) \<and> PG_Len q = length ts \<and>
    qrun (postgresQueue P tie G) (replicate (length ts) (QPoll w ttl)) (now', q) =
      (map (Pair w \<circ> fst) ts, now', NewPostgresQueue)"
proof (intro exI conjI)
  show "qrun (postgresQueue P tie G) (concat (map (\<lambda>(t, d). [QEnqueue t, QTick d]) ts)) (now, NewPostgresQueue) =
      ([], now + elapsed ts, pg_rows ts now)"
    using enqueue_all [of P G "[]" ts tie now] assms by (simp add: NewPostgresQueue_def elapsed_def)
  show "PG_Len (pg_rows ts now) = length ts"
    unfolding PG_Len_def by (induction ts now rule: pg_rows.induct) simp_all
  show "qrun (postgresQueue P tie G) (replicate (length ts) (QPoll w ttl)) (now', pg_rows ts now) =
      (map (Pair w \<circ> fst) ts, now', NewPostgresQueue)"
    unfolding NewPostgresQueue_def by (rule poll_all [OF assms])
qed

theorem postgres_fifo_witness:
  "\<exists>q. qrun (postgresQueue sample_postgres length plain_gob)
      [QEnqueue (leased_task\<lparr>task_NotBefore := 10 ^ 18\<rparr>), QTick 1000, QEnqueue (leased_task\<lparr>task_ID := ''2''\<rparr>), QTick 5000]
      (7, NewPostgresQueue) = ([], 6007, q) \<and>
    qrun (postgresQueue sample_postgres length plain_gob) [QPoll ''w'' 1, QPoll ''w'' 1] (6007, q) =
      ([(''w'', leased_task\<lparr>task_NotBefore := 10 ^ 18\<rparr>), (''w'', leased_task\<lparr>task_ID := ''2''\<rparr>)], 6007, [])"
proof -
  let ?ts = "[(leased_task\<lparr>task_NotBefore := 10 ^ 18\<rparr>, 1000), (leased_task\<lparr>task_ID := ''2''\<rparr>, 5000)]"
  have "spaced sample_postgres plain_gob ?ts" by (simp add: spaced_def sample_postgres_def leased_task_def zero_Task_def)
  from postgres_fifo [OF this, of length 7 "''w''" 1 6007] show ?thesis
    by (auto simp: elapsed_def NewPostgresQueue_def numeral_2_eq_2 simp del: qrun.simps)
qed

section \<open>A worker on the PostgreSQL queue\<close>

lemma oldest_subset: "r \<in> set (oldest q) \<Longrightarrow> r \<in> set q"
  by (simp add: oldest_def)

lemma PG_poll_removes:
  assumes "PG_DequeuePoll tie G now owner ttl q = (Inr (Some t), q')"
  shows "length q' < length q"
proof -
  from assms have ne: "oldest q \<noteq> []" by (auto simp: PG_DequeuePoll_def)
  define r where "r = oldest q ! (tie (oldest q) mod length (oldest q))"
  have "r \<in> set (oldest q)" unfolding r_def using ne by simp
  then have "r \<in> set q" by (rule oldest_subset)
  moreover have "q' = filter (\<lambda>s. pt_id s \<noteq> pt_id r) q"
    using assms ne by (auto simp: PG_DequeuePoll_def Let_def r_def split: sum.splits)
  ultimately show ?thesis by (auto intro: length_filter_less)
qed

text \<open>
  C35: Two hazards of a worker on the PostgreSQL queue. A task whose handler fails although attempts are
  left is reported as processed without an error and is not put back: claiming it has deleted its row
  and \<^verbatim>\<open>Nack\<close> does nothing. And the tasks the worker's enqueue functions make have no identifier, so
  while one of them is in the queue, a second one is refused by the primary key.
\<close>

theorem postgres_worker_hazards:
  assumes "wk_queue wk = postgresQueue P tie G"
  shows "(PG_DequeuePoll tie G now (wc_WorkerID (wk_cfg wk)) ttl q = (Inr (Some t), q') \<and>
        task_Attempts t + 1 < wc_MaxAttempts (wk_cfg wk) \<longrightarrow>
      length q' < length q \<and>
      handleErr wk c t (Some er) (w\<lparr>w_queue := q'\<rparr>) = (None, w\<lparr>w_queue := q'\<rparr>)) \<and>
    (EnqueueStartWorkflow wk c workflow1 input1 w = (None, w1) \<and> gob_ok G input2 \<longrightarrow>
      EnqueueStartWorkflow wk c workflow2 input2 w1 = (Some (pg_violation P ''queue_tasks_pkey''), w1))"
proof (intro conjI impI)
  assume a: "PG_DequeuePoll tie G now (wc_WorkerID (wk_cfg wk)) ttl q = (Inr (Some t), q') \<and>
    task_Attempts t + 1 < wc_MaxAttempts (wk_cfg wk)"
  then show "length q' < length q" using PG_poll_removes by blast
  from a show "handleErr wk c t (Some er) (w\<lparr>w_queue := q'\<rparr>) = (None, w\<lparr>w_queue := q'\<rparr>)"
    using assms by (simp add: handleErr_def PG_Nack_def)
next
  assume a: "EnqueueStartWorkflow wk c workflow1 input1 w = (None, w1) \<and> gob_ok G input2"
  then have 1: "ctx_Err c (w_clock w1) = None" "'''' \<in> set (map pt_id (w_queue w1))" "pg_text P '''' = None"
    using assms by (auto simp: EnqueueStartWorkflow_def enqueue_task_def PG_Enqueue_def zero_Task_def
        split: sum.splits option.splits if_splits)
  from a have "gob_ok G (StartWorkflowPayload input2)" by simp
  with 1 show "EnqueueStartWorkflow wk c workflow2 input2 w1 = (Some (pg_violation P ''queue_tasks_pkey''), w1)"
    using assms by (simp add: EnqueueStartWorkflow_def enqueue_task_def PG_Enqueue_def gob_ok_EncodeTask zero_Task_def)
qed

definition postgres_worker :: "(pg_table, queue_tasks, unit, unit) Worker" where
  "postgres_worker = NewWithConfig ''1'' (engine_api (NewPostgresEngine sample_postgres plain_gob ''00'' pl_Name sample_build (\<lambda>r. 0)) 0 0)
     (postgresQueue sample_postgres length plain_gob)
     \<lparr>wc_MaxAttempts = 3, wc_Backoff = 5, wc_DefaultSignalTimeout = 0, wc_WorkerID = ''w1'',
      wc_LeaseTTL = 100, wc_HeartbeatInterval = 0\<rparr>"

definition postgres_world :: "(pg_table, queue_tasks, unit, unit) world" where
  "postgres_world = \<lparr>w_heap = [], w_clock = 0, w_workflows = [], w_store = [], w_events = (),
     w_queue = [], w_log = [], w_nextID = 0, w_extern = ()\<rparr>"

theorem postgres_worker_hazards_witness:
  "handleErr postgres_worker Background leased_task (Some (ErrMsg ''boom'')) (postgres_world\<lparr>w_queue := []\<rparr>) =
      (None, postgres_world\<lparr>w_queue := []\<rparr>) \<and>
   (\<exists>w1. EnqueueStartWorkflow postgres_worker Background ''order'' (VInt 1) postgres_world = (None, w1) \<and>
      EnqueueStartWorkflow postgres_worker Background ''order'' (VInt 2) w1 =
        (Some (ErrMsg ''duplicate key value violates unique constraint queue_tasks_pkey''), w1))"
proof -
  have wk: "wk_queue postgres_worker = postgresQueue sample_postgres length plain_gob"
    and cfg: "wc_WorkerID (wk_cfg postgres_worker) = ''w1''" "wc_MaxAttempts (wk_cfg postgres_worker) = 3"
    by (simp_all add: postgres_worker_def NewWithConfig_def)
  have ok: "spaced sample_postgres plain_gob [(leased_task, 1000)]" by (simp add: spaced_def sample_postgres_def leased_task_def zero_Task_def)
  have poll: "PG_DequeuePoll length plain_gob 0 ''w1'' 100 [pg_row leased_task 0] = (Inr (Some leased_task), [])"
    using PG_poll_head [OF ok, of length 0 "''w1''" 100 0] by simp
  have a: "task_Attempts leased_task = 0" by (simp add: leased_task_def zero_Task_def)
  have v: "pg_violation sample_postgres ''queue_tasks_pkey'' =
      ErrMsg ''duplicate key value violates unique constraint queue_tasks_pkey''"
    by (simp add: sample_postgres_def)
  obtain w1 where w1: "EnqueueStartWorkflow postgres_worker Background ''order'' (VInt 1) postgres_world = (None, w1)"
    by (simp add: EnqueueStartWorkflow_def enqueue_task_def wk PG_Enqueue_def gob_ok_EncodeTask postgres_world_def zero_Task_def)
      (simp add: sample_postgres_def)
  show ?thesis
    using postgres_worker_hazards [OF wk, of 0 100 "[pg_row leased_task 0]" leased_task "[]" Background "ErrMsg ''boom''"
        postgres_world "''order''" "VInt 1" w1 "VInt 2" "''order''"] poll a w1
    unfolding cfg v by simp
qed

end
