(* ===== verification/Mongo_Queue.thy ===== *)
theory Mongo_Queue
  imports Postgres_Queue
begin

text \<open>
  The MongoDB task queue, \<^verbatim>\<open>mongo/internal/taskqueue/mongo_queue.go\<close>: the documents of the collection, one
  definition per operation, and the proof that the queue meets the contract \<open>exact_queue\<close> with
  \<open>reclaims\<close>: the filter of \<^verbatim>\<open>Dequeue\<close> also matches the tasks the caller holds already, so a lease
  excludes the other workers but not a second \<^verbatim>\<open>Dequeue\<close> of the same worker.
\<close>

section \<open>The collection\<close>

text \<open>
  A field tagged \<^verbatim>\<open>omitempty\<close> is absent (\<open>None\<close>) while it has the zero value and was never set;
  \<open>md_CreatedAt\<close> is a BSON date, in milliseconds.
\<close>

record mongoQueueDoc =
  md_ID :: string
  md_Payload :: gobstream
  md_CreatedAt :: int
  md_NotBefore :: int
  md_Attempts :: int
  md_LeasedBy :: "string option"
  md_LeaseExpiresAt :: "int option"

text \<open>The documents, and how many identifiers have been drawn from \<^verbatim>\<open>crypto/rand\<close>.\<close>

record MongoQueue =
  mgq_docs :: "mongoQueueDoc list"
  mgq_draws :: nat

definition NewMongoQueue :: MongoQueue where
  "NewMongoQueue = \<lparr>mgq_docs = [], mgq_draws = 0\<rparr>"

text \<open>
  What the model leaves open: the bytes the \<open>n\<close>th call of \<^verbatim>\<open>rand.Read\<close> fills in, the server's error for a
  duplicate \<^verbatim>\<open>_id\<close> and its choice among documents that the sort order leaves equal.
\<close>

record mongo =
  mg_rand :: "nat \<Rightarrow> nat list"
  mg_duplicate :: "string \<Rightarrow> goerr"
  mg_tie :: "mongoQueueDoc list \<Rightarrow> nat"

text \<open>\<^verbatim>\<open>hex.EncodeToString\<close>\<close>

definition EncodeToString :: "nat list \<Rightarrow> string" where
  "EncodeToString bs = concat (map (\<lambda>b. [hex_digit (b div 16), hex_digit (b mod 16)]) bs)"

definition newTaskID :: "mongo \<Rightarrow> nat \<Rightarrow> string" where
  "newTaskID M n = EncodeToString (mg_rand M n)"

section \<open>Operations\<close>

definition mongoEncodeTask :: "gob \<Rightarrow> Task \<Rightarrow> goerr + gobstream" where
  "mongoEncodeTask G t = EncodeTask G t"

definition mongoDecodeTask :: "gob \<Rightarrow> gobstream \<Rightarrow> goerr + Task" where
  "mongoDecodeTask G data = DecodeTask G data"

text \<open>The task is encoded before its identifier is chosen; \<^verbatim>\<open>Dequeue\<close> takes the identifier from the document.\<close>

definition Mongo_Enqueue :: "mongo \<Rightarrow> gob \<Rightarrow> time \<Rightarrow> goerr option \<Rightarrow> Task \<Rightarrow> MongoQueue \<Rightarrow> goerr option \<times> MongoQueue" where
  "Mongo_Enqueue M G now cerr t q =
     (case mongoEncodeTask G t of
        Inl e \<Rightarrow> (Some e, q)
      | Inr data \<Rightarrow>
          let (i, q1) = (if task_ID t = '''' then (newTaskID M (mgq_draws q), q\<lparr>mgq_draws := Suc (mgq_draws q)\<rparr>)
                         else (task_ID t, q));
              nb = (if IsZero (task_NotBefore t) then now else task_NotBefore t);
              doc = \<lparr>md_ID = i, md_Payload = data, md_CreatedAt = now div Millisecond, md_NotBefore = UnixNano nb,
                     md_Attempts = task_Attempts t, md_LeasedBy = None, md_LeaseExpiresAt = None\<rparr>
          in (case cerr of
                Some e \<Rightarrow> (Some e, q1)
              | None \<Rightarrow>
                  if i \<in> set (map md_ID (mgq_docs q1)) then (Some (mg_duplicate M i), q1)
                  else (None, q1\<lparr>mgq_docs := mgq_docs q1 @ [doc]\<rparr>)))"

definition Mongo_checkTTL :: "duration \<Rightarrow> goerr option" where
  "Mongo_checkTTL ttl = (if ttl \<le> 0 then Some (ErrMsg ''leaseTTL must be > 0'') else None)"

text \<open>The filter of \<^verbatim>\<open>FindOneAndUpdate\<close>: a comparison with an absent field does not match.\<close>

definition doc_claimable :: "int \<Rightarrow> string \<Rightarrow> mongoQueueDoc \<Rightarrow> bool" where
  "doc_claimable now owner d \<longleftrightarrow> md_NotBefore d \<le> now \<and>
     (md_LeasedBy d = None \<or> md_LeasedBy d = Some '''' \<or>
      (case md_LeaseExpiresAt d of Some x \<Rightarrow> x \<le> now | None \<Rightarrow> False) \<or> md_LeasedBy d = Some owner)"

text \<open>Its sort order: by \<^verbatim>\<open>not_before\<close>, then by \<^verbatim>\<open>created_at\<close>.\<close>

definition doc_before :: "mongoQueueDoc \<Rightarrow> mongoQueueDoc \<Rightarrow> bool" where
  "doc_before d e \<longleftrightarrow> md_NotBefore d < md_NotBefore e \<or>
     md_NotBefore d = md_NotBefore e \<and> md_CreatedAt d \<le> md_CreatedAt e"

text \<open>\<^verbatim>\<open>UpdateOne\<close>; the filters name the \<^verbatim>\<open>_id\<close>, so at most one document matches.\<close>

definition update_docs :: "(mongoQueueDoc \<Rightarrow> bool) \<Rightarrow> (mongoQueueDoc \<Rightarrow> mongoQueueDoc) \<Rightarrow> MongoQueue \<Rightarrow> MongoQueue" where
  "update_docs P f q = q\<lparr>mgq_docs := map (\<lambda>d. if P d then f d else d) (mgq_docs q)\<rparr>"

definition doc_task :: "mongoQueueDoc \<Rightarrow> Task \<Rightarrow> Task" where
  "doc_task d task = task\<lparr>task_ID := md_ID d, task_Attempts := md_Attempts d, task_NotBefore := md_NotBefore d\<rparr>"

definition Mongo_DequeuePoll :: "mongo \<Rightarrow> gob \<Rightarrow> time \<Rightarrow> string \<Rightarrow> duration \<Rightarrow> MongoQueue
     \<Rightarrow> (goerr + Task option) \<times> MongoQueue" where
  "Mongo_DequeuePoll M G now owner leaseTTL q =
     (let nowInt = UnixNano now; expires = UnixNano (now + leaseTTL);
          ds = least_by doc_before (filter (doc_claimable nowInt owner) (mgq_docs q))
      in if ds = [] then (Inr None, q)
         else
           let d = pick (mg_tie M) ds;
               q' = update_docs (\<lambda>e. md_ID e = md_ID d)
                      (\<lambda>e. e\<lparr>md_LeasedBy := Some owner, md_LeaseExpiresAt := Some expires\<rparr>) q
           in (case mongoDecodeTask G (md_Payload d) of
                 Inl e \<Rightarrow> (Inl e, q')
               | Inr task \<Rightarrow> (Inr (Some (doc_task d task)), q')))"

definition Mongo_Len :: "MongoQueue \<Rightarrow> nat" where
  "Mongo_Len q = length (mgq_docs q)"

definition held_doc :: "string \<Rightarrow> string \<Rightarrow> mongoQueueDoc \<Rightarrow> bool" where
  "held_doc taskID owner d \<longleftrightarrow> md_ID d = taskID \<and> md_LeasedBy d = Some owner"

definition Mongo_RenewTask :: "time \<Rightarrow> string \<Rightarrow> string \<Rightarrow> duration \<Rightarrow> MongoQueue \<Rightarrow> goerr option \<times> MongoQueue" where
  "Mongo_RenewTask now taskID owner leaseTTL q =
     (let expiry = UnixNano (now + leaseTTL);
          matched = length (filter (held_doc taskID owner) (mgq_docs q));
          q' = update_docs (held_doc taskID owner) (\<lambda>d. d\<lparr>md_LeaseExpiresAt := Some expiry\<rparr>) q
      in (if matched = 0 then Some (ErrMsg ''task leased by another owner'') else None, q'))"

definition Mongo_Ack :: "goerr option \<Rightarrow> string \<Rightarrow> string \<Rightarrow> MongoQueue \<Rightarrow> goerr option \<times> MongoQueue" where
  "Mongo_Ack cerr taskID owner q =
     (case cerr of
        Some e \<Rightarrow> (Some e, q)
      | None \<Rightarrow> (None, q\<lparr>mgq_docs := filter (\<lambda>d. \<not> held_doc taskID owner d) (mgq_docs q)\<rparr>))"

definition Mongo_Nack :: "goerr option \<Rightarrow> string \<Rightarrow> string \<Rightarrow> time \<Rightarrow> int \<Rightarrow> MongoQueue \<Rightarrow> goerr option \<times> MongoQueue" where
  "Mongo_Nack cerr taskID owner notBefore attempts q =
     (case cerr of
        Some e \<Rightarrow> (Some e, q)
      | None \<Rightarrow> (None, update_docs (held_doc taskID owner)
          (\<lambda>d. d\<lparr>md_LeasedBy := Some '''', md_LeaseExpiresAt := Some 0, md_NotBefore := UnixNano notBefore,
                md_Attempts := attempts\<rparr>) q))"

definition mongoQueue :: "mongo \<Rightarrow> gob \<Rightarrow> MongoQueue Queue" where
  "mongoQueue M G = \<lparr>q_Enqueue = Mongo_Enqueue M G, q_checkTTL = Mongo_checkTTL,
     q_DequeuePoll = Mongo_DequeuePoll M G, q_pollInterval = 100 * Millisecond,
     q_RenewLease = Mongo_RenewTask, q_Ack = Mongo_Ack, q_Nack = Mongo_Nack, q_Len = Mongo_Len\<rparr>"

lemma mongoQueue_sel [simp]:
  "q_Enqueue (mongoQueue M G) = Mongo_Enqueue M G" "q_DequeuePoll (mongoQueue M G) = Mongo_DequeuePoll M G"
  "q_RenewLease (mongoQueue M G) = Mongo_RenewTask" "q_Ack (mongoQueue M G) = Mongo_Ack"
  "q_Nack (mongoQueue M G) = Mongo_Nack" "q_pollInterval (mongoQueue M G) = 100 * Millisecond"
  by (simp_all add: mongoQueue_def)

section \<open>Invariant and view\<close>

definition doc_lease :: "mongoQueueDoc \<Rightarrow> lease" where
  "doc_lease d = (case md_LeasedBy d of
     None \<Rightarrow> Free
   | Some w \<Rightarrow> if w = '''' then Free else Leased w (case md_LeaseExpiresAt d of Some x \<Rightarrow> x | None \<Rightarrow> 0))"

definition doc_value :: "gob \<Rightarrow> mongoQueueDoc \<Rightarrow> Task \<times> lease" where
  "doc_value G d = (doc_task d (case DecodeTask G (md_Payload d) of Inr t \<Rightarrow> t | Inl _ \<Rightarrow> zero_Task), doc_lease d)"

definition mgq_view :: "gob \<Rightarrow> MongoQueue \<Rightarrow> table" where
  "mgq_view G q i = map_option (doc_value G) (lookup_by md_ID (mgq_docs q) i)"

text \<open>Keys are unique, times are 64-bit, a lease has an end, and every payload decodes.\<close>

definition doc_ok :: "gob \<Rightarrow> mongoQueueDoc \<Rightarrow> bool" where
  "doc_ok G d \<longleftrightarrow> int64 (md_NotBefore d) \<and> (md_LeaseExpiresAt d = None \<longrightarrow> md_LeasedBy d = None) \<and>
     (\<exists>t. DecodeTask G (md_Payload d) = Inr t)"

definition mgq_inv :: "gob \<Rightarrow> MongoQueue \<Rightarrow> bool" where
  "mgq_inv G q \<longleftrightarrow> distinct (map md_ID (mgq_docs q)) \<and> list_all (doc_ok G) (mgq_docs q)"

lemma mgq_inv_update:
  assumes "mgq_inv G q" "\<And>d. md_ID (f d) = md_ID d" "\<And>d. doc_ok G d \<Longrightarrow> doc_ok G (f d)"
  shows "mgq_inv G (update_docs P f q)"
proof -
  have "map md_ID (mgq_docs (update_docs P f q)) = map md_ID (mgq_docs q)"
    using assms(2) by (simp add: update_docs_def)
  then have "distinct (map md_ID (mgq_docs (update_docs P f q)))" using assms(1) by (simp add: mgq_inv_def)
  moreover have "list_all (doc_ok G) (mgq_docs (update_docs P f q))"
    using assms(1,3) by (auto simp: mgq_inv_def update_docs_def list_all_iff)
  ultimately show ?thesis by (simp add: mgq_inv_def)
qed

lemma doc_lease_owner: "owner \<noteq> '''' \<Longrightarrow> (\<exists>x. doc_lease d = Leased owner x) \<longleftrightarrow> md_LeasedBy d = Some owner"
  by (cases "md_LeasedBy d") (auto simp: doc_lease_def)

lemma leased_by_doc:
  assumes "owner \<noteq> ''''"
  shows "leased_by (mgq_view G q) i owner \<longleftrightarrow>
    (\<exists>d. lookup_by md_ID (mgq_docs q) i = Some d \<and> md_LeasedBy d = Some owner)"
  using doc_lease_owner [OF assms] by (auto simp: leased_by_def mgq_view_def doc_value_def)

text \<open>An update of the document with the key \<open>i\<close>, on a condition.\<close>

lemma mgq_view_update:
  assumes "\<And>d. md_ID (f d) = md_ID d" "\<And>d. P d \<Longrightarrow> md_ID d = i"
  shows "mgq_view G (update_docs P f q) =
    (case lookup_by md_ID (mgq_docs q) i of
       Some d \<Rightarrow> if P d then (mgq_view G q)(i \<mapsto> doc_value G (f d)) else mgq_view G q
     | None \<Rightarrow> mgq_view G q)"
proof
  fix j
  have l: "lookup_by md_ID (mgq_docs (update_docs P f q)) j =
      map_option (\<lambda>d. if P d then f d else d) (lookup_by md_ID (mgq_docs q) j)"
    unfolding update_docs_def by (simp add: lookup_by_map assms(1))
  show "mgq_view G (update_docs P f q) j = (case lookup_by md_ID (mgq_docs q) i of
       Some d \<Rightarrow> if P d then (mgq_view G q)(i \<mapsto> doc_value G (f d)) else mgq_view G q
     | None \<Rightarrow> mgq_view G q) j"
  proof (cases "lookup_by md_ID (mgq_docs q) j")
    case None
    then show ?thesis by (auto simp: mgq_view_def l split: option.splits)
  next
    case (Some e)
    with lookup_by_Some [OF this] assms(2) [of e] show ?thesis
      by (auto simp: mgq_view_def l split: option.splits)
  qed
qed

section \<open>The MongoDB queue meets the contract\<close>

lemma mongo_enqueue:
  assumes "mgq_inv G q" "int64 now" "IsZero (task_NotBefore t) \<or> int64 (task_NotBefore t)"
    and e: "Mongo_Enqueue M G now None t q = (r, q')"
  shows "mgq_inv G q' \<and> (if r = None then \<exists>i t'. mgq_view G q i = None \<and> scheduled (\<lambda>t. t) now t t' \<and>
        (gob_ok G (task_Payload t) \<longrightarrow> same_job t' t) \<and> mgq_view G q' = (mgq_view G q)(i \<mapsto> (t', Free))
      else mgq_view G q' = mgq_view G q)"
proof (cases "r = None")
  case False
  with e have "mgq_docs q' = mgq_docs q"
    by (auto simp: Mongo_Enqueue_def Let_def split: sum.splits if_splits prod.splits)
  then have "mgq_view G q' = mgq_view G q" "mgq_inv G q'"
    using assms(1) by (simp_all add: mgq_inv_def mgq_view_def fun_eq_iff)
  with False show ?thesis by auto
next
  case True
  with e obtain b where b: "EncodeTask G t = Inr b"
    by (auto simp: Mongo_Enqueue_def mongoEncodeTask_def split: sum.splits)
  define i where "i = (if task_ID t = '''' then newTaskID M (mgq_draws q) else task_ID t)"
  define nb where "nb = (if IsZero (task_NotBefore t) then now else task_NotBefore t)"
  define d where "d = \<lparr>md_ID = i, md_Payload = b, md_CreatedAt = now div Millisecond, md_NotBefore = nb,
    md_Attempts = task_Attempts t, md_LeasedBy = None, md_LeaseExpiresAt = None\<rparr>"
  have nb: "int64 nb" "UnixNano nb = nb" using assms(2,3) by (auto simp: nb_def)
  have new: "i \<notin> md_ID ` set (mgq_docs q)" and q': "mgq_docs q' = mgq_docs q @ [d]"
    using e True b nb(2)
    by (auto simp: Mongo_Enqueue_def mongoEncodeTask_def Let_def i_def nb_def d_def split: if_splits)
  from EncodeTask_DecodeTask [OF b] obtain v where v: "gob_image G (task_Payload t) = Some v"
    "DecodeTask G b = Inr (t\<lparr>task_Payload := v\<rparr>)" by auto
  let ?t' = "doc_task d (t\<lparr>task_Payload := v\<rparr>)"
  have "mgq_inv G q'"
    using assms(1) new nb(1) v(2) by (auto simp: mgq_inv_def q' d_def doc_ok_def)
  moreover have "mgq_view G q i = None" using new by (simp add: mgq_view_def lookup_by_None)
  moreover have "mgq_view G q' = (mgq_view G q)(i \<mapsto> (?t', Free))"
  proof
    fix j
    show "mgq_view G q' j = ((mgq_view G q)(i \<mapsto> (?t', Free))) j"
      using new v(2) lookup_by_None [of md_ID "mgq_docs q" i]
      by (auto simp: mgq_view_def q' lookup_by_snoc doc_value_def doc_lease_def d_def split: option.splits)
  qed
  moreover have "scheduled (\<lambda>t. t) now t ?t'" by (simp add: scheduled_def doc_task_def d_def nb_def)
  moreover have "same_job ?t' t" if "gob_ok G (task_Payload t)"
    using that v(1) by (simp add: gob_ok_def same_job_def doc_task_def d_def)
  ultimately show ?thesis using True by auto
qed

lemma doc_before_least: "ds \<noteq> [] \<Longrightarrow> least_by doc_before ds \<noteq> []"
  by (rule least_by_ne) (auto simp: doc_before_def)

lemma doc_claimable_view:
  assumes "doc_ok G d" "owner \<noteq> ''''"
  shows "doc_claimable now owner d \<longleftrightarrow> runnable now (fst (doc_value G d)) \<and>
    (available now (doc_lease d) \<or> (\<exists>y. doc_lease d = Leased owner y))"
  using assms zero_time_not_int64
  by (auto simp: doc_claimable_def doc_ok_def doc_value_def doc_lease_def doc_task_def runnable_def split: option.splits)

lemma mongo_poll:
  assumes "mgq_inv G q" "int64 now" "int64 (now + ttl)" "owner \<noteq> ''''"
    and p: "Mongo_DequeuePoll M G now owner ttl q = (pr, q')"
  shows "pr = Inr None \<and> q' = q \<and> (\<forall>i t l. mgq_view G q i = Some (t, l) \<longrightarrow>
      available now l \<or> (\<exists>y. l = Leased owner y) \<longrightarrow> \<not> runnable now t) \<or>
    (\<exists>t l. pr = Inr (Some t) \<and> mgq_inv G q' \<and> mgq_view G q (task_ID t) = Some (t, l) \<and>
       (available now l \<or> (\<exists>y. l = Leased owner y)) \<and> runnable now t \<and>
       mgq_view G q' = (mgq_view G q)(task_ID t \<mapsto> (t, Leased owner (now + ttl))))"
proof (cases "filter (doc_claimable now owner) (mgq_docs q) = []")
  case True
  then have "pr = Inr None" "q' = q" using p assms(2,3) by (simp_all add: Mongo_DequeuePoll_def least_by_def)
  moreover have "\<not> runnable now t" if v: "mgq_view G q i = Some (t, l)" "available now l \<or> (\<exists>y. l = Leased owner y)" for i t l
  proof -
    from v(1) obtain d where d: "lookup_by md_ID (mgq_docs q) i = Some d" "doc_value G d = (t, l)"
      by (auto simp: mgq_view_def)
    have "d \<in> set (mgq_docs q)" using lookup_by_Some [OF d(1)] by simp
    with True assms(1) have "\<not> doc_claimable now owner d" "doc_ok G d"
      by (auto simp: filter_empty_conv mgq_inv_def list_all_iff)
    with doc_claimable_view [of G d owner now] assms(4) v(2) d(2) show ?thesis by (auto simp: doc_value_def)
  qed
  ultimately show ?thesis by blast
next
  case False
  define ds where "ds = least_by doc_before (filter (doc_claimable now owner) (mgq_docs q))"
  define d where "d = pick (mg_tie M) ds"
  have ne: "ds \<noteq> []" unfolding ds_def by (rule doc_before_least [OF False])
  have d: "d \<in> set (mgq_docs q)" "doc_claimable now owner d"
    using pick_in [OF ne, of "mg_tie M"] by (auto simp: d_def ds_def least_by_iff)
  have ok: "doc_ok G d" "distinct (map md_ID (mgq_docs q))" using assms(1) d(1) by (auto simp: mgq_inv_def list_all_iff)
  then obtain t where t: "DecodeTask G (md_Payload d) = Inr t" by (auto simp: doc_ok_def)
  let ?f = "\<lambda>e. e\<lparr>md_LeasedBy := Some owner, md_LeaseExpiresAt := Some (now + ttl)\<rparr>"
  have pr: "pr = Inr (Some (doc_task d t))" and q': "q' = update_docs (\<lambda>e. md_ID e = md_ID d) ?f q"
    using p ne t assms(2,3) by (auto simp: Mongo_DequeuePoll_def Let_def ds_def [symmetric] d_def [symmetric] mongoDecodeTask_def)
  have l: "lookup_by md_ID (mgq_docs q) (md_ID d) = Some d" by (rule lookup_by_mem [OF ok(2) d(1)])
  have val: "doc_value G d = (doc_task d t, doc_lease d)" by (simp add: doc_value_def t)
  have val': "doc_value G (?f d) = (doc_task d t, Leased owner (now + ttl))"
    using assms(4) by (simp add: doc_value_def t doc_lease_def doc_task_def)
  have "mgq_view G q' = (mgq_view G q)(md_ID d \<mapsto> (doc_task d t, Leased owner (now + ttl)))"
    unfolding q' using mgq_view_update [of ?f "\<lambda>e. md_ID e = md_ID d" "md_ID d" G q] l val' by simp
  moreover have "mgq_inv G q'" unfolding q' by (rule mgq_inv_update [OF assms(1)]) (simp_all add: doc_ok_def)
  moreover have "mgq_view G q (md_ID d) = Some (doc_task d t, doc_lease d)" using l val by (simp add: mgq_view_def)
  moreover have "runnable now (doc_task d t)" "available now (doc_lease d) \<or> (\<exists>y. doc_lease d = Leased owner y)"
    using doc_claimable_view [OF ok(1) assms(4), of now] d(2) val by simp_all
  moreover have "task_ID (doc_task d t) = md_ID d" by (simp add: doc_task_def)
  ultimately show ?thesis using pr by auto
qed

text \<open>The operations of a holder change its document only, those of others change nothing.\<close>

lemma mgq_view_held:
  assumes "owner \<noteq> ''''" "\<And>d. md_ID (f d) = md_ID d"
  shows "mgq_view G (update_docs (held_doc i owner) f q) = (if leased_by (mgq_view G q) i owner
    then (mgq_view G q)(i \<mapsto> doc_value G (f (the (lookup_by md_ID (mgq_docs q) i)))) else mgq_view G q)"
  using mgq_view_update [of f "held_doc i owner" i G q] assms(2)
  by (auto simp: leased_by_doc [OF assms(1)] held_doc_def split: option.splits dest: lookup_by_Some)

lemma mongo_renew:
  assumes "mgq_inv G q" "int64 (now + ttl)" "owner \<noteq> ''''" "Mongo_RenewTask now i owner ttl q = (r, q')"
  shows "mgq_inv G q' \<and> mgq_view G q' = (if leased_by (mgq_view G q) i owner
    then (mgq_view G q)(i \<mapsto> (fst (the (mgq_view G q i)), Leased owner (now + ttl))) else mgq_view G q)"
proof -
  let ?f = "\<lambda>d. d\<lparr>md_LeaseExpiresAt := Some (now + ttl)\<rparr>"
  have q': "q' = update_docs (held_doc i owner) ?f q" using assms(2,4) by (simp add: Mongo_RenewTask_def Let_def)
  have "mgq_inv G q'" unfolding q' by (rule mgq_inv_update [OF assms(1)]) (simp_all add: doc_ok_def)
  moreover have "doc_value G (?f (the (lookup_by md_ID (mgq_docs q) i))) = (fst (the (mgq_view G q i)), Leased owner (now + ttl))"
    if "leased_by (mgq_view G q) i owner"
    using that assms(3) by (auto simp: leased_by_doc mgq_view_def doc_value_def doc_lease_def doc_task_def)
  ultimately show ?thesis using mgq_view_held [OF assms(3), of ?f G i q] by (simp add: q')
qed

lemma mongo_ack:
  assumes "mgq_inv G q" "owner \<noteq> ''''" "Mongo_Ack None i owner q = (r, q')"
  shows "mgq_inv G q' \<and> r = None \<and>
    mgq_view G q' = (if leased_by (mgq_view G q) i owner then (mgq_view G q)(i := None) else mgq_view G q)"
proof -
  have q': "q' = q\<lparr>mgq_docs := filter (\<lambda>d. \<not> held_doc i owner d) (mgq_docs q)\<rparr>" and r: "r = None"
    using assms(3) by (simp_all add: Mongo_Ack_def)
  have d: "distinct (map md_ID (mgq_docs q))" using assms(1) by (simp add: mgq_inv_def)
  have "mgq_inv G q'" using assms(1) by (auto simp: q' mgq_inv_def distinct_map_filter list_all_iff)
  moreover have "mgq_view G q' j = (if leased_by (mgq_view G q) i owner then (mgq_view G q)(i := None) else mgq_view G q) j" for j
    by (auto simp: q' mgq_view_def lookup_by_filter [OF d] leased_by_doc [OF assms(2)] held_doc_def
        split: option.splits dest: lookup_by_Some)
  ultimately show ?thesis using r by blast
qed

lemma mongo_nack:
  assumes "mgq_inv G q" "owner \<noteq> ''''" "int64 nb" "Mongo_Nack None i owner nb n q = (r, q')"
  shows "mgq_inv G q' \<and> r = None \<and> mgq_view G q' = (if leased_by (mgq_view G q) i owner
    then (mgq_view G q)(i \<mapsto> ((fst (the (mgq_view G q i)))\<lparr>task_NotBefore := nb, task_Attempts := n\<rparr>, Free)) else mgq_view G q)"
proof -
  let ?f = "\<lambda>d. d\<lparr>md_LeasedBy := Some '''', md_LeaseExpiresAt := Some 0, md_NotBefore := nb, md_Attempts := n\<rparr>"
  have q': "q' = update_docs (held_doc i owner) ?f q" and r: "r = None" using assms(3,4) by (simp_all add: Mongo_Nack_def)
  have "mgq_inv G q'" unfolding q' by (rule mgq_inv_update [OF assms(1)]) (simp_all add: doc_ok_def assms(3))
  moreover have "doc_value G (?f (the (lookup_by md_ID (mgq_docs q) i))) =
      ((fst (the (mgq_view G q i)))\<lparr>task_NotBefore := nb, task_Attempts := n\<rparr>, Free)"
    if "leased_by (mgq_view G q) i owner"
    using that assms(2) by (auto simp: leased_by_doc mgq_view_def doc_value_def doc_lease_def doc_task_def)
  ultimately show ?thesis using mgq_view_held [OF assms(2), of ?f G i q] r by (simp add: q')
qed

interpretation mongo_queue: exact_queue "mongoQueue M G" "mgq_view G" "mgq_inv G" int64 "gob_ok G" "\<lambda>_. True" True "\<lambda>_ _. True"
  for M G
proof (unfold_locales, goal_cases)
  case (5 now q)
  have "dom (mgq_view G q) \<subseteq> md_ID ` set (mgq_docs q)"
    by (force simp: mgq_view_def dest: lookup_by_Some)
  then show ?case by (rule finite_subset) simp
next
  case (7 now q t r q')
  from 7(5) have "Mongo_Enqueue M G now None t q = (r, q')" by simp
  from mongo_enqueue [OF 7(1,2,4) this] show ?case .
next
  case (8 now q ttl owner t q')
  then show ?case using mongo_poll [of G q now ttl owner M "Inr (Some t)" q'] by auto
next
  case (9 now q ttl owner q')
  then show ?case using mongo_poll [of G q now ttl owner M "Inr None" q'] by auto
next
  case (10 now q ttl owner pr q')
  then show ?case using mongo_poll [of G q now ttl owner M pr q'] by auto
next
  case (11 now q ttl owner i r q')
  then show ?case using mongo_renew [of G q now ttl owner i r q'] by simp
next
  case (12 now q owner i r q')
  then show ?case using mongo_ack [of G q owner i r q'] by simp
next
  case (13 now q owner i nb n r q')
  then show ?case using mongo_nack [of G q owner nb i n r q'] by (simp add: prod.rel_eq option.rel_eq)
qed simp_all

section \<open>Properties\<close>

definition sample_mongo :: mongo where
  "sample_mongo = \<lparr>mg_rand = (\<lambda>n. [n div 256, n mod 256]), mg_duplicate = (\<lambda>i. ErrMsg (''E11000 duplicate key '' @ i)), mg_tie = length\<rparr>"

definition leased_doc :: mongoQueueDoc where
  "leased_doc = \<lparr>md_ID = ''1'', md_Payload = GobConcrete (GobTask leased_task), md_CreatedAt = 0, md_NotBefore = 0,
     md_Attempts = 0, md_LeasedBy = Some ''w1'', md_LeaseExpiresAt = Some 100\<rparr>"

definition leased_collection :: MongoQueue where
  "leased_collection = \<lparr>mgq_docs = [leased_doc], mgq_draws = 1\<rparr>"

lemma leased_task_decodes: "DecodeTask plain_gob (GobConcrete (GobTask leased_task)) = Inr leased_task"
  by (rule gob_ok_DecodeTask) (simp add: leased_task_def zero_Task_def)

lemma collection_inv: "mgq_inv plain_gob leased_collection"
  by (simp add: mgq_inv_def leased_collection_def leased_doc_def doc_ok_def leased_task_decodes int64_def)

lemma collection_view:
  "mgq_view plain_gob leased_collection = [''1'' \<mapsto> (leased_task\<lparr>task_NotBefore := 0\<rparr>, Leased ''w1'' 100)]"
proof -
  have "doc_value plain_gob leased_doc = (leased_task\<lparr>task_NotBefore := 0\<rparr>, Leased ''w1'' 100)"
    by (simp add: doc_value_def leased_doc_def leased_task_decodes doc_task_def doc_lease_def)
      (simp add: leased_task_def zero_Task_def)
  moreover have "md_ID leased_doc = ''1''" by (simp add: leased_doc_def)
  ultimately show ?thesis by (auto simp: mgq_view_def leased_collection_def)
qed

text \<open>
  C18: A lease of the MongoDB queue excludes the other workers, and no task is lost. While a task is
  leased and the lease has not run out, no sequence of calls by other workers hands it out or takes
  the lease away, provided that its owner does not poll meanwhile; and a stored task stays stored,
  whatever calls are made, until some worker acknowledges it. Identifiers need no particular form, and a
  task that is enqueued under one in use is refused. The calls are those of workers that have a name and ask for
  leases of a positive duration.
\<close>

theorem mongo_lease_excludes_others:
  assumes "mgq_inv G q" "int64 now" "qops_ok (mongoQueue M G) (\<lambda>_ _. True) (\<lambda>_. True) int64 (now, q) ops"
    and "mgq_view G q i = Some (t, Leased owner x)" and "qrun (mongoQueue M G) ops (now, q) = (ds, now', q')"
  shows "(now' < x \<and> (\<forall>op \<in> set ops. \<not> touches owner i op \<and> \<not> polls owner op) \<longrightarrow>
      mgq_view G q' i = Some (t, Leased owner x) \<and> (\<forall>(w, t') \<in> set ds. task_ID t' \<noteq> i)) \<and>
    ((\<forall>op \<in> set ops. \<not> acks i op) \<longrightarrow> i \<in> dom (mgq_view G q'))"
  using mongo_queue.lease_excludes_others [OF assms] mongo_queue.unacked_stays [OF assms(1-3) _ assms(5)] assms(4)
  by auto

theorem mongo_lease_excludes_others_witness:
  "mgq_view plain_gob (snd (snd (qrun (mongoQueue sample_mongo plain_gob) [QPoll ''w2'' 5, QAck ''1'' ''w2'', QTick 99]
     (0, leased_collection)))) ''1'' = Some (leased_task\<lparr>task_NotBefore := 0\<rparr>, Leased ''w1'' 100)"
proof -
  let ?ops = "[QPoll ''w2'' 5, QAck ''1'' ''w2'', QTick 99]"
  let ?Q = "mongoQueue sample_mongo plain_gob"
  obtain ds now' q' where r: "qrun ?Q ?ops (0, leased_collection) = (ds, now', q')"
    by (cases "qrun ?Q ?ops (0, leased_collection)")
  have "fst (snd (qrun ?Q ?ops (0, leased_collection))) = 99"
    using fst_snd_qexec [of ?Q "QPoll ''w2'' 5" 0 leased_collection] by (simp add: qexec_def split_beta)
  then have t: "now' < 100" unfolding r by simp
  from mongo_lease_excludes_others [OF collection_inv _ _ _ r, of "''1''"] t
  show ?thesis by (simp add: int64_def r collection_view del: qrun.simps)
qed

text \<open>
  The MongoDB queue hands a task out twice to the same worker. A poll of the worker that holds a
  due task, made while its lease runs and when it finds nothing else to do, returns the task again:
  two goroutines that process tasks under one worker name execute it at the same time.
\<close>

theorem mongo_redelivers_to_holder:
  assumes "mgq_inv G q" "int64 now" "int64 (now + ttl)" "owner \<noteq> ''''"
    and "mgq_view G q i = Some (t, Leased owner x)" "runnable now t"
    and "\<forall>j. j \<noteq> i \<longrightarrow> j \<notin> claimable now (mgq_view G q) \<and> \<not> leased_by (mgq_view G q) j owner"
  shows "\<exists>q'. Mongo_DequeuePoll M G now owner ttl q = (Inr (Some t), q') \<and> task_ID t = i"
proof -
  obtain pr q' where p: "Mongo_DequeuePoll M G now owner ttl q = (pr, q')" by fastforce
  from mongo_poll [OF assms(1-4) p] assms(5,6) obtain u l where u: "pr = Inr (Some u)"
    "mgq_view G q (task_ID u) = Some (u, l)" "available now l \<or> (\<exists>y. l = Leased owner y)" "runnable now u"
    by blast
  from u(2-4) assms(7) have "task_ID u = i" by (auto simp: claimable_def leased_by_def)
  with u(1,2) assms(5) p show ?thesis by auto
qed

theorem mongo_redelivers_to_holder_witness:
  "\<exists>q'. Mongo_DequeuePoll sample_mongo plain_gob 5 ''w1'' 100 leased_collection =
     (Inr (Some (leased_task\<lparr>task_NotBefore := 0\<rparr>)), q')"
  using mongo_redelivers_to_holder [OF collection_inv, of 5 100 "''w1''" "''1''" "leased_task\<lparr>task_NotBefore := 0\<rparr>" 100 sample_mongo]
  by (simp add: int64_def collection_view claimable_def leased_by_def runnable_def)

end
