(* ===== verification/Mongo_Store.thy ===== *)
theory Mongo_Store
  imports Mongo_Queue
begin

text \<open>
  The MongoDB instance store, \<^verbatim>\<open>mongo/internal/persistence/mongo_store.go\<close>, and the engine on it
  (\<^verbatim>\<open>mongo/engine.go\<close>). \<^verbatim>\<open>UpdateInstance\<close> sets the fields of the instance and leaves those of the lease
  alone, so that this store, unlike the SQL stores, meets the contract \<open>lease_keeping_store\<close>. It also
  writes the version and the fingerprint into fields that are never read.
\<close>

section \<open>The collection\<close>

text \<open>
  A document: the fields of \<^verbatim>\<open>mongoInstanceDoc\<close>, those that only \<^verbatim>\<open>UpdateInstance\<close> writes, and those of the
  lease; a field that was never set is absent.
\<close>

record mongoInstanceDoc =
  mi_ID :: string
  mi_Workflow :: string
  mi_Version :: string
  mi_Fingerprint :: string
  mi_Status :: Status
  mi_CurrentStep :: nat
  mi_Input :: bytes
  mi_Output :: bytes
  mi_StepResults :: bytes
  mi_Error :: string
  mi_workflow_version :: "string option"
  mi_workflow_fingerprint :: "string option"
  mi_lease_owner :: "string option"
  mi_lease_expires_at :: "int option"

type_synonym instances = "mongoInstanceDoc list"

definition NewMongoInstanceStore :: instances where
  "NewMongoInstanceStore = []"

section \<open>Operations\<close>

text \<open>The encoding both \<^verbatim>\<open>SaveInstance\<close> and \<^verbatim>\<open>UpdateInstance\<close> begin with.\<close>

definition encode_values :: "gob \<Rightarrow> WorkflowInstance \<Rightarrow> goerr + bytes \<times> bytes \<times> bytes" where
  "encode_values G inst =
     (case EncodeValue G (inst_Input inst) of
        Inl e \<Rightarrow> Inl e
      | Inr inBytes \<Rightarrow>
     (case EncodeValue G (inst_Output inst) of
        Inl e \<Rightarrow> Inl e
      | Inr outBytes \<Rightarrow>
     (case EncodeStepResults G (inst_StepResults inst) of
        Inl e \<Rightarrow> Inl e
      | Inr stepResultsBytes \<Rightarrow> Inr (inBytes, outBytes, stepResultsBytes))))"

definition errStr :: "WorkflowInstance \<Rightarrow> string" where
  "errStr inst = (case inst_Err inst of None \<Rightarrow> '''' | Some e \<Rightarrow> Error e)"

definition Mongo_SaveInstance :: "mongo \<Rightarrow> gob \<Rightarrow> addr \<Rightarrow> heap \<Rightarrow> instances \<Rightarrow> goerr option \<times> instances" where
  "Mongo_SaveInstance M G a h s =
     (let inst = deref h a in
      case encode_values G inst of
        Inl e \<Rightarrow> (Some e, s)
      | Inr (inBytes, outBytes, stepResultsBytes) \<Rightarrow>
          let doc = \<lparr>mi_ID = inst_ID inst, mi_Workflow = inst_Name inst, mi_Version = inst_Version inst,
                mi_Fingerprint = inst_Fingerprint inst, mi_Status = inst_Status inst,
                mi_CurrentStep = inst_CurrentStep inst, mi_Input = inBytes, mi_Output = outBytes,
                mi_StepResults = stepResultsBytes, mi_Error = errStr inst, mi_workflow_version = None,
                mi_workflow_fingerprint = None, mi_lease_owner = None, mi_lease_expires_at = None\<rparr>
          in if inst_ID inst \<in> set (map mi_ID s) then (Some (mg_duplicate M (inst_ID inst)), s)
             else (None, s @ [doc]))"

text \<open>\<^verbatim>\<open>$set\<close>: the fields named are replaced, the others stay.\<close>

definition set_fields :: "WorkflowInstance \<Rightarrow> bytes \<Rightarrow> bytes \<Rightarrow> bytes \<Rightarrow> mongoInstanceDoc \<Rightarrow> mongoInstanceDoc" where
  "set_fields inst inBytes outBytes stepResultsBytes d =
     d\<lparr>mi_Workflow := inst_Name inst, mi_workflow_version := Some (inst_Version inst),
       mi_workflow_fingerprint := Some (inst_Fingerprint inst), mi_Status := inst_Status inst,
       mi_CurrentStep := inst_CurrentStep inst, mi_Input := inBytes, mi_Output := outBytes,
       mi_StepResults := stepResultsBytes, mi_Error := errStr inst\<rparr>"

definition Mongo_UpdateInstance :: "gob \<Rightarrow> addr \<Rightarrow> heap \<Rightarrow> instances \<Rightarrow> goerr option \<times> instances" where
  "Mongo_UpdateInstance G a h s =
     (let inst = deref h a in
      case encode_values G inst of
        Inl e \<Rightarrow> (Some e, s)
      | Inr (inBytes, outBytes, stepResultsBytes) \<Rightarrow>
          (if inst_ID inst \<in> set (map mi_ID s) then None else Some ErrInstanceNotFound,
           map (\<lambda>d. if mi_ID d = inst_ID inst then set_fields inst inBytes outBytes stepResultsBytes d else d) s))"

text \<open>The decoding of \<^verbatim>\<open>GetInstance\<close> and of the loop of \<^verbatim>\<open>ListInstances\<close>.\<close>

definition decode_doc :: "gob \<Rightarrow> mongoInstanceDoc \<Rightarrow> goerr + WorkflowInstance" where
  "decode_doc G d =
     (case DecodeValue G TAny (mi_Input d) of
        Inl e \<Rightarrow> Inl e
      | Inr inVal \<Rightarrow>
     (case DecodeValue G TAny (mi_Output d) of
        Inl e \<Rightarrow> Inl e
      | Inr outVal \<Rightarrow>
     (case DecodeValue G TMapIntAny (mi_StepResults d) of
        Inl e \<Rightarrow> Inl e
      | Inr stepResultsVal \<Rightarrow>
          Inr \<lparr>inst_ID = mi_ID d, inst_Name = mi_Workflow d, inst_Version = mi_Version d,
               inst_Fingerprint = mi_Fingerprint d, inst_LeaseOwner = '''', inst_LeaseExpiresAt = zero_time,
               inst_Status = mi_Status d, inst_Output = value_of outVal,
               inst_Err = (if mi_Error d = '''' then None else Some (ErrMsg (mi_Error d))),
               inst_Input = value_of inVal, inst_CurrentStep = mi_CurrentStep d,
               inst_StepResults = map_of_gob stepResultsVal\<rparr>)))"

definition Mongo_GetInstance :: "gob \<Rightarrow> string \<Rightarrow> heap \<Rightarrow> instances \<Rightarrow> (goerr + addr) \<times> heap" where
  "Mongo_GetInstance G i h s =
     (case lookup_by mi_ID s i of
        None \<Rightarrow> (Inl ErrInstanceNotFound, h)
      | Some d \<Rightarrow>
          (case decode_doc G d of
             Inl e \<Rightarrow> (Inl e, h)
           | Inr inst \<Rightarrow> (let (a, h') = alloc inst h in (Inr a, h'))))"

definition doc_matches :: "InstanceFilter \<Rightarrow> mongoInstanceDoc \<Rightarrow> bool" where
  "doc_matches f d \<longleftrightarrow>
     (filter_WorkflowName f \<noteq> '''' \<longrightarrow> mi_Workflow d = filter_WorkflowName f) \<and>
     (case filter_Status f of None \<Rightarrow> True | Some st \<Rightarrow> mi_Status d = st)"

fun decode_docs :: "gob \<Rightarrow> mongoInstanceDoc list \<Rightarrow> heap \<Rightarrow> (goerr + addr list) \<times> heap" where
  "decode_docs G [] h = (Inr [], h)"
| "decode_docs G (d # ds) h =
     (case decode_doc G d of
        Inl e \<Rightarrow> (Inl e, h)
      | Inr inst \<Rightarrow>
          let (a, h1) = alloc inst h in
          (case decode_docs G ds h1 of
             (Inl e, h2) \<Rightarrow> (Inl e, h2)
           | (Inr as, h2) \<Rightarrow> (Inr (a # as), h2)))"

text \<open>\<open>cursor\<close> is the order in which the server returns the documents that match.\<close>

definition Mongo_ListInstances :: "(instances \<Rightarrow> instances) \<Rightarrow> gob \<Rightarrow> InstanceFilter \<Rightarrow> heap \<Rightarrow> instances
     \<Rightarrow> (goerr + addr list) \<times> heap" where
  "Mongo_ListInstances cursor G f h s = decode_docs G (cursor (filter (doc_matches f) s)) h"

definition free_for :: "int \<Rightarrow> string \<Rightarrow> mongoInstanceDoc \<Rightarrow> bool" where
  "free_for now owner d \<longleftrightarrow> mi_lease_owner d = None \<or> mi_lease_owner d = Some '''' \<or>
     (case mi_lease_expires_at d of Some x \<Rightarrow> x \<le> now | None \<Rightarrow> False) \<or> mi_lease_owner d = Some owner"

definition Mongo_TryAcquireLease :: "time \<Rightarrow> goerr option \<Rightarrow> string \<Rightarrow> string \<Rightarrow> duration \<Rightarrow> heap \<times> instances
     \<Rightarrow> (goerr + bool) \<times> heap \<times> instances" where
  "Mongo_TryAcquireLease now cerr i owner ttl hs =
     (let (h, s) = hs; expires = UnixNano (now + ttl);
          P = (\<lambda>d. mi_ID d = i \<and> free_for (UnixNano now) owner d)
      in case cerr of
           Some e \<Rightarrow> (Inl e, h, s)
         | None \<Rightarrow>
             (Inr (filter P s \<noteq> []), h,
              map (\<lambda>d. if P d then d\<lparr>mi_lease_owner := Some owner, mi_lease_expires_at := Some expires\<rparr> else d) s))"

definition Mongo_RenewLease :: "time \<Rightarrow> goerr option \<Rightarrow> string \<Rightarrow> string \<Rightarrow> duration \<Rightarrow> heap \<times> instances
     \<Rightarrow> goerr option \<times> heap \<times> instances" where
  "Mongo_RenewLease now cerr i owner ttl hs =
     (let (h, s) = hs; expires = UnixNano (now + ttl);
          P = (\<lambda>d. mi_ID d = i \<and> mi_lease_owner d = Some owner)
      in case cerr of
           Some e \<Rightarrow> (Some e, h, s)
         | None \<Rightarrow>
             (if filter P s = [] then Some ErrWorkflowInstanceLocked else None, h,
              map (\<lambda>d. if P d then d\<lparr>mi_lease_expires_at := Some expires\<rparr> else d) s))"

definition Mongo_ReleaseLease :: "goerr option \<Rightarrow> string \<Rightarrow> string \<Rightarrow> heap \<times> instances \<Rightarrow> goerr option \<times> heap \<times> instances" where
  "Mongo_ReleaseLease cerr i owner hs =
     (let (h, s) = hs;
          P = (\<lambda>d. mi_ID d = i \<and> mi_lease_owner d = Some owner)
      in case cerr of
           Some e \<Rightarrow> (Some e, h, s)
         | None \<Rightarrow>
             if filter P s = []
             then (case lookup_by mi_ID s i of
                     None \<Rightarrow> (Some ErrInstanceNotFound, h, s)
                   | Some d \<Rightarrow>
                       (case mi_lease_owner d of
                          Some lo \<Rightarrow> (if lo \<noteq> '''' \<and> lo \<noteq> owner then Some ErrWorkflowInstanceLocked else None, h, s)
                        | None \<Rightarrow> (None, h, s)))
             else (None, h, map (\<lambda>d. if P d then d\<lparr>mi_lease_owner := Some '''', mi_lease_expires_at := Some 0\<rparr> else d) s))"

definition mongoStore :: "mongo \<Rightarrow> (instances \<Rightarrow> instances) \<Rightarrow> gob \<Rightarrow> instances InstanceStore" where
  "mongoStore M cursor G = \<lparr>is_SaveInstance = Mongo_SaveInstance M G, is_UpdateInstance = Mongo_UpdateInstance G,
     is_GetInstance = Mongo_GetInstance G, is_ListInstances = Mongo_ListInstances cursor G,
     is_TryAcquireLease = Mongo_TryAcquireLease, is_RenewLease = Mongo_RenewLease,
     is_ReleaseLease = (\<lambda>now. Mongo_ReleaseLease)\<rparr>"

definition NewMongoEngine :: "mongo \<Rightarrow> (instances \<Rightarrow> instances) \<Rightarrow> gob \<Rightarrow> string \<Rightarrow> (fingerprint_payload \<Rightarrow> string)
     \<Rightarrow> build_info \<Rightarrow> (rat \<Rightarrow> int) \<Rightarrow> (instances, 'q, 'e) engineImpl" where
  "NewMongoEngine M cursor G rnd digest build conv = NewEngineWithConfig rnd digest build conv
     \<lparr>cfg_Instances = mongoStore M cursor G, cfg_Events = None, cfg_Queue = None, cfg_EngineID = '''', cfg_LeaseTTL = 0\<rparr>"

lemma mongoStore_sel [simp]:
  "is_SaveInstance (mongoStore M cursor G) = Mongo_SaveInstance M G" "is_UpdateInstance (mongoStore M cursor G) = Mongo_UpdateInstance G"
  "is_GetInstance (mongoStore M cursor G) = Mongo_GetInstance G" "is_ListInstances (mongoStore M cursor G) = Mongo_ListInstances cursor G"
  "is_TryAcquireLease (mongoStore M cursor G) = Mongo_TryAcquireLease" "is_RenewLease (mongoStore M cursor G) = Mongo_RenewLease"
  "is_ReleaseLease (mongoStore M cursor G) now = Mongo_ReleaseLease"
  by (simp_all add: mongoStore_def)

section \<open>Leases\<close>

definition mi_lease :: "mongoInstanceDoc \<Rightarrow> lease" where
  "mi_lease d = (case mi_lease_owner d of
     None \<Rightarrow> Free
   | Some w \<Rightarrow> if w = '''' then Free else Leased w (case mi_lease_expires_at d of Some x \<Rightarrow> x | None \<Rightarrow> 0))"

definition mongo_lease :: "heap \<times> instances \<Rightarrow> string \<Rightarrow> lease option" where
  "mongo_lease hs i = map_option mi_lease (lookup_by mi_ID (snd hs) i)"

definition mi_ok :: "mongoInstanceDoc \<Rightarrow> bool" where
  "mi_ok d \<longleftrightarrow> (mi_lease_expires_at d = None \<longrightarrow> mi_lease_owner d = None)"

definition mongo_inv :: "heap \<times> instances \<Rightarrow> bool" where
  "mongo_inv hs \<longleftrightarrow> distinct (map mi_ID (snd hs)) \<and> list_all mi_ok (snd hs)"

lemma mi_lease_owner_iff: "owner \<noteq> '''' \<Longrightarrow> (\<exists>x. mi_lease d = Leased owner x) \<longleftrightarrow> mi_lease_owner d = Some owner"
  by (cases "mi_lease_owner d") (auto simp: mi_lease_def)

lemma free_for_iff: "mi_ok d \<Longrightarrow> owner \<noteq> '''' \<Longrightarrow>
    free_for now owner d \<longleftrightarrow> available now (mi_lease d) \<or> (\<exists>x. mi_lease d = Leased owner x)"
  by (auto simp: free_for_def mi_ok_def mi_lease_def split: option.splits)

text \<open>An update of the document with the key \<open>i\<close>, on a condition.\<close>

lemma mongo_update_inv:
  assumes "mongo_inv (h, s)" "\<And>d. mi_ID (f d) = mi_ID d" "\<And>d. mi_ok d \<Longrightarrow> mi_ok (f d)"
  shows "mongo_inv (g, map (\<lambda>d. if P d then f d else d) s)"
proof -
  have "map mi_ID (map (\<lambda>d. if P d then f d else d) s) = map mi_ID s" using assms(2) by simp
  then have "distinct (map mi_ID (map (\<lambda>d. if P d then f d else d) s))"
    using assms(1) by (simp add: mongo_inv_def del: map_map)
  moreover have "list_all mi_ok (map (\<lambda>d. if P d then f d else d) s)"
    using assms(1,3) by (auto simp: mongo_inv_def list_all_iff)
  ultimately show ?thesis by (simp add: mongo_inv_def)
qed

lemma mongo_lease_update:
  assumes "\<And>d. mi_ID (f d) = mi_ID d"
  shows "mongo_lease (g, map (\<lambda>d. if mi_ID d = i \<and> P d then f d else d) s) =
    (case lookup_by mi_ID s i of
       Some d \<Rightarrow> if P d then (mongo_lease (h, s))(i \<mapsto> mi_lease (f d)) else mongo_lease (h, s)
     | None \<Rightarrow> mongo_lease (h, s))"
proof
  fix j
  let ?f = "\<lambda>d. if mi_ID d = i \<and> P d then f d else d"
  have l: "mongo_lease (g, map ?f s) j = map_option (\<lambda>d. mi_lease (?f d)) (lookup_by mi_ID s j)"
    using lookup_by_map [of mi_ID ?f s j] assms by (simp add: mongo_lease_def option.map_comp comp_def)
  have k: "mongo_lease (h, s) j = map_option mi_lease (lookup_by mi_ID s j)" for j by (simp add: mongo_lease_def)
  show "mongo_lease (g, map ?f s) j = (case lookup_by mi_ID s i of
       Some d \<Rightarrow> if P d then (mongo_lease (h, s))(i \<mapsto> mi_lease (f d)) else mongo_lease (h, s)
     | None \<Rightarrow> mongo_lease (h, s)) j"
  proof (cases "lookup_by mi_ID s j")
    case None
    then show ?thesis unfolding l by (cases "lookup_by mi_ID s i"; cases "j = i") (simp_all add: k)
  next
    case (Some d)
    have "mi_ID d = j" using lookup_by_Some [OF Some] by simp
    with Some show ?thesis unfolding l by (cases "lookup_by mi_ID s i"; cases "j = i") (simp_all add: k)
  qed
qed

lemma filter_doc:
  assumes "distinct (map mi_ID s)"
  shows "filter (\<lambda>d. mi_ID d = i \<and> P d) s = [] \<longleftrightarrow> (case lookup_by mi_ID s i of None \<Rightarrow> True | Some d \<Rightarrow> \<not> P d)"
proof (cases "lookup_by mi_ID s i")
  case None
  then have "\<forall>d \<in> set s. mi_ID d \<noteq> i" by (auto simp: lookup_by_None)
  with None show ?thesis by (simp add: filter_empty_conv)
next
  case (Some d)
  have "d \<in> set s" "mi_ID d = i" using lookup_by_Some [OF Some] by simp_all
  moreover have "x = d" if "x \<in> set s" "mi_ID x = i" for x
    using lookup_by_mem [OF assms that(1)] that(2) Some by simp
  ultimately show ?thesis unfolding filter_empty_conv using Some by (metis option.simps(5))
qed

interpretation mongo_leases: lease_store "mongoStore M cursor G" mongo_lease mongo_inv int64
  for M cursor G
proof (unfold_locales, goal_cases)
  case (1 hs now ttl owner i r hs')
  obtain h s where hs: "hs = (h, s)" by (cases hs)
  have d: "distinct (map mi_ID s)" using 1(1) by (simp add: hs mongo_inv_def)
  let ?f = "\<lambda>d. d\<lparr>mi_lease_owner := Some owner, mi_lease_expires_at := Some (now + ttl)\<rparr>"
  have r: "r = Inr (\<not> (case lookup_by mi_ID s i of None \<Rightarrow> True | Some d \<Rightarrow> \<not> free_for now owner d))"
    and hs': "hs' = (h, map (\<lambda>d. if mi_ID d = i \<and> free_for now owner d then ?f d else d) s)"
    using 1(5) 1(2,3) by (simp_all add: hs Mongo_TryAcquireLease_def filter_doc [OF d] Let_def)
  have "mi_ok d" if "lookup_by mi_ID s i = Some d" for d
    using lookup_by_Some [OF that] 1(1) by (auto simp: hs mongo_inv_def list_all_iff)
  with free_for_iff 1(4) have "free_for now owner d \<longleftrightarrow> available now (mi_lease d) \<or> (\<exists>t. mi_lease d = Leased owner t)"
    if "lookup_by mi_ID s i = Some d" for d using that by blast
  with r mongo_lease_update [of ?f h i "free_for now owner" s h] 1(4)
    mongo_update_inv [OF 1(1) [unfolded hs], of ?f h "\<lambda>d. mi_ID d = i \<and> free_for now owner d"] show ?case
    unfolding hs' hs by (auto simp: mongo_lease_def [of "(h, s)"] mi_lease_def [of "?f _"] mi_ok_def split: option.splits)
next
  case (2 hs now ttl owner i e hs')
  obtain h s where hs: "hs = (h, s)" by (cases hs)
  have d: "distinct (map mi_ID s)" using 2(1) by (simp add: hs mongo_inv_def)
  let ?f = "\<lambda>d. d\<lparr>mi_lease_expires_at := Some (now + ttl)\<rparr>"
  let ?P = "\<lambda>d. mi_lease_owner d = Some owner"
  have e: "e = (if case lookup_by mi_ID s i of None \<Rightarrow> True | Some d \<Rightarrow> \<not> ?P d then Some ErrWorkflowInstanceLocked else None)"
    and hs': "hs' = (h, map (\<lambda>d. if mi_ID d = i \<and> ?P d then ?f d else d) s)"
    using 2(5) 2(2,3) by (simp_all add: hs Mongo_RenewLease_def filter_doc [OF d] Let_def)
  from e mongo_lease_update [of ?f h i ?P s h] mi_lease_owner_iff [OF 2(4)] 2(4)
    mongo_update_inv [OF 2(1) [unfolded hs], of ?f h "\<lambda>d. mi_ID d = i \<and> ?P d"] show ?case
    unfolding hs' hs by (auto simp: mongo_lease_def [of "(h, s)"] mi_lease_def [of "?f _"] mi_ok_def split: option.splits)
next
  case (3 hs owner now i e hs')
  obtain h s where hs: "hs = (h, s)" by (cases hs)
  have d: "distinct (map mi_ID s)" using 3(1) by (simp add: hs mongo_inv_def)
  let ?f = "\<lambda>d. d\<lparr>mi_lease_owner := Some '''', mi_lease_expires_at := Some 0\<rparr>"
  let ?P = "\<lambda>d. mi_lease_owner d = Some owner"
  have same: "map (\<lambda>d. if mi_ID d = i \<and> ?P d then ?f d else d) s = s" if "filter (\<lambda>d. mi_ID d = i \<and> ?P d) s = []"
    using that by (intro map_idI) (auto simp: filter_empty_conv)
  have hs': "hs' = (h, map (\<lambda>d. if mi_ID d = i \<and> ?P d then ?f d else d) s)"
    using 3(3) same by (auto simp: hs Mongo_ReleaseLease_def Let_def split: if_splits option.splits)
  from mongo_lease_update [of ?f h i ?P s h] mi_lease_owner_iff [OF 3(2)] 3(2)
    mongo_update_inv [OF 3(1) [unfolded hs], of ?f h "\<lambda>d. mi_ID d = i \<and> ?P d"] show ?case
    unfolding hs' hs by (auto simp: mongo_lease_def [of "(h, s)"] mi_lease_def [of "?f _"] mi_ok_def split: option.splits)
qed

section \<open>Writing and reading instances\<close>

lemma mongo_update_cases:
  assumes "Mongo_UpdateInstance G a h s = (e, s')"
  obtains "s' = s" "e \<noteq> None" | b1 b2 b3 where "encode_values G (deref h a) = Inr (b1, b2, b3)"
    "e = (if inst_ID (deref h a) \<in> set (map mi_ID s) then None else Some ErrInstanceNotFound)"
    "s' = map (\<lambda>d. if mi_ID d = inst_ID (deref h a) then set_fields (deref h a) b1 b2 b3 d else d) s"
  using assms by (auto simp: Mongo_UpdateInstance_def Let_def split: sum.splits prod.splits)

lemma set_fields_sel [simp]:
  "mi_ID (set_fields x b1 b2 b3 d) = mi_ID d" "mi_lease (set_fields x b1 b2 b3 d) = mi_lease d"
  "mi_ok (set_fields x b1 b2 b3 d) = mi_ok d"
proof -
  have l: "mi_lease_owner (set_fields x b1 b2 b3 d) = mi_lease_owner d"
    "mi_lease_expires_at (set_fields x b1 b2 b3 d) = mi_lease_expires_at d"
    by (simp_all add: set_fields_def)
  show "mi_ID (set_fields x b1 b2 b3 d) = mi_ID d" by (simp add: set_fields_def)
  show "mi_lease (set_fields x b1 b2 b3 d) = mi_lease d" "mi_ok (set_fields x b1 b2 b3 d) = mi_ok d"
    unfolding mi_lease_def mi_ok_def l by (rule refl)+
qed

lemma mongo_update_frame:
  assumes "mongo_inv (h, s)" "Mongo_UpdateInstance G a h s = (e, s')"
  shows "mongo_inv (g, s') \<and> mongo_lease (g, s') = mongo_lease (h, s)"
  using assms(2)
proof (cases rule: mongo_update_cases)
  case 1
  then show ?thesis using assms(1) by (simp add: mongo_inv_def mongo_lease_def fun_eq_iff)
next
  case (2 b1 b2 b3)
  let ?f = "set_fields (deref h a) b1 b2 b3"
  have s': "s' = map (\<lambda>d. if mi_ID d = inst_ID (deref h a) \<and> True then ?f d else d) s" using 2(3) by simp
  have "mongo_inv (g, s')" unfolding s' by (rule mongo_update_inv [OF assms(1)]) simp_all
  moreover have "mongo_lease (g, s') = mongo_lease (h, s)"
    unfolding s' using mongo_lease_update [of ?f g "inst_ID (deref h a)" "\<lambda>_. True" s h]
    by (auto simp: mongo_lease_def fun_eq_iff split: option.splits)
  ultimately show ?thesis by blast
qed

lemma mongo_leases_frame:
  "mongo_inv (h, s) \<Longrightarrow> Mongo_TryAcquireLease now cerr i owner ttl (h, s) = (rb, h', s') \<Longrightarrow> mongo_inv (h', s') \<and> h' = h"
  "mongo_inv (h, s) \<Longrightarrow> Mongo_RenewLease now cerr i owner ttl (h, s) = (err, h', s') \<Longrightarrow> mongo_inv (h', s') \<and> h' = h"
  "mongo_inv (h, s) \<Longrightarrow> Mongo_ReleaseLease cerr i owner (h, s) = (err, h', s') \<Longrightarrow> mongo_inv (h', s') \<and> h' = h"
  by (auto simp: Mongo_TryAcquireLease_def Mongo_RenewLease_def Mongo_ReleaseLease_def Let_def mi_ok_def
      intro!: mongo_update_inv split: option.splits if_splits)

interpretation mongo_handles: lease_neutral_store "mongoStore M cursor G" mongo_lease mongo_inv int64 "\<lambda>ttl. 0 < ttl" "\<lambda>now ttl x. x = now + ttl"
  for M cursor G
proof (unfold_locales, goal_cases)
  case (1 h s g)
  then show ?case by (simp add: mongo_inv_def mongo_lease_def fun_eq_iff)
next
  case (2 h s a e s')
  then show ?case using mongo_update_frame [of h s G a e s' h] by simp
qed

lemma decode_doc_ID: "decode_doc G d = Inr inst \<Longrightarrow> inst_ID inst = mi_ID d"
  by (auto simp: decode_doc_def split: sum.splits)

lemma decode_docs_heap:
  "decode_docs G ds h = (r, h') \<Longrightarrow> \<exists>g. h' = h @ g \<and> (\<forall>as. r = Inr as \<longrightarrow> (\<forall>a \<in> set as. a < length h'))"
proof (induction ds arbitrary: h r h')
  case (Cons d ds)
  show ?case
  proof (cases "decode_doc G d")
    case (Inl e)
    with Cons.prems show ?thesis by auto
  next
    case (Inr inst)
    obtain r2 h2 where s: "decode_docs G ds (h @ [inst]) = (r2, h2)" by (cases "decode_docs G ds (h @ [inst])")
    from Cons.IH [OF s] obtain g where "h2 = (h @ [inst]) @ g"
      "\<forall>as. r2 = Inr as \<longrightarrow> (\<forall>a \<in> set as. a < length h2)" by blast
    with Cons.prems Inr s show ?thesis by (auto simp: alloc_def split: sum.splits)
  qed
qed simp

lemma mongo_save_inv:
  assumes "mongo_inv (h, s)" "Mongo_SaveInstance M G a h s = (err, s')"
  shows "mongo_inv (h, s')"
  using assms by (auto simp: mongo_inv_def Mongo_SaveInstance_def Let_def mi_ok_def split: sum.splits if_splits)

interpretation mongo_engine: engine_store "mongoStore M cursor G" mongo_inv
  for M cursor G
proof (unfold_locales, goal_cases)
  case (1 h s i r h')
  show ?case
  proof (cases "lookup_by mi_ID s i")
    case (Some d)
    with 1 lookup_by_Some [OF Some] show ?thesis
      by (auto simp: Mongo_GetInstance_def alloc_def mongo_inv_def dest: decode_doc_ID split: sum.splits)
  qed (use 1 in \<open>auto simp: Mongo_GetInstance_def\<close>)
next
  case (2 h s f rs h')
  then show ?case using decode_docs_heap [of G "cursor (filter (doc_matches f) s)" h rs h']
    by (auto simp: Mongo_ListInstances_def mongo_inv_def)
next
  case (3 h s a err s')
  then show ?case using mongo_save_inv by simp
next
  case (4 h s a err s')
  then show ?case using mongo_update_frame [of h s G a err s' h] by simp
next
  case (5 h s now cerr i owner ttl rb h' s')
  then show ?case using mongo_leases_frame(1) [of h s now cerr i owner ttl rb h' s'] by auto
next
  case (6 h s now cerr i owner ttl err h' s')
  then show ?case using mongo_leases_frame(2) [of h s now cerr i owner ttl err h' s'] by auto
next
  case (7 h s now cerr i owner err h' s')
  then show ?case using mongo_leases_frame(3) [of h s cerr i owner err h' s'] by auto
qed (simp_all add: mongo_inv_def)

text \<open>What the encoded values decode to.\<close>

lemma encode_decode_values:
  assumes "encode_values G inst = Inr (b1, b2, b3)"
  shows "map_sum id value_of (DecodeValue G TAny b1) = Inr (inst_Input (reload G inst))"
    "map_sum id value_of (DecodeValue G TAny b2) = Inr (inst_Output (reload G inst))"
    "map_sum id map_of_gob (DecodeValue G TMapIntAny b3) = Inr (inst_StepResults (reload G inst))"
proof -
  from assms have e: "EncodeValue G (inst_Input inst) = Inr b1" "EncodeValue G (inst_Output inst) = Inr b2"
    "EncodeStepResults G (inst_StepResults inst) = Inr b3"
    by (auto simp: encode_values_def split: sum.splits)
  have c: "Option.bind (inst_StepResults inst) (\<lambda>m. m k) = cached inst k" for k
    by (cases "inst_StepResults inst") (simp_all add: cached_def)
  show "map_sum id value_of (DecodeValue G TAny b1) = Inr (inst_Input (reload G inst))"
    "map_sum id value_of (DecodeValue G TAny b2) = Inr (inst_Output (reload G inst))"
    "map_sum id map_of_gob (DecodeValue G TMapIntAny b3) = Inr (inst_StepResults (reload G inst))"
    using EncodeValue_DecodeValue [OF e(1)] EncodeValue_DecodeValue [OF e(2)] EncodeStepResults_DecodeValue [OF e(3)]
      value_of_image [OF EncodeValue_image [OF e(1)]] value_of_image [OF EncodeValue_image [OF e(2)]]
    by (simp_all add: reload_def c)
qed

lemma decode_doc_written:
  assumes "encode_values G inst = Inr (mi_Input d, mi_Output d, mi_StepResults d)" "mi_ID d = inst_ID inst"
    "mi_Workflow d = inst_Name inst" "mi_Status d = inst_Status inst" "mi_CurrentStep d = inst_CurrentStep inst"
    "mi_Error d = errStr inst"
  shows "decode_doc G d = Inr (strip_lease ((reload G inst)\<lparr>inst_Version := mi_Version d, inst_Fingerprint := mi_Fingerprint d\<rparr>))"
proof -
  note dec = encode_decode_values [OF assms(1)]
  show ?thesis
    using dec assms(2-6)
    by (cases "DecodeValue G TAny (mi_Input d)"; cases "DecodeValue G TAny (mi_Output d)";
        cases "DecodeValue G TMapIntAny (mi_StepResults d)")
      (simp_all add: decode_doc_def strip_lease_def reload_def errStr_def split: option.splits)
qed

lemma storable_encode: "storable G x \<Longrightarrow> \<exists>b1 b2 b3. encode_values G x = Inr (b1, b2, b3)"
  using make_row_storable [of G x] by (auto simp: make_row_def encode_values_def split: sum.splits)

section \<open>What a run leaves in the store\<close>

lemma encodable_values: "encodable G x \<longleftrightarrow> (\<exists>b1 b2 b3. encode_values G x = Inr (b1, b2, b3))"
  by (auto simp: encodable_def encode_values_def split: sum.splits)

definition doc_image :: "gob \<Rightarrow> mongoInstanceDoc \<Rightarrow> WorkflowInstance option" where
  "doc_image G d = (case decode_doc G d of Inl _ \<Rightarrow> None | Inr x \<Rightarrow> Some (strip_lease x))"

lemma stored_in_mongo: "stored_in (mongoStore M cursor G) i s = Option.bind (lookup_by mi_ID s i) (doc_image G)"
  by (auto simp: stored_in_def Mongo_GetInstance_def alloc_def doc_image_def deref_def split: option.splits sum.splits)

text \<open>The document of an instance, with the version and the fingerprint it was created with.\<close>

definition has_doc :: "string \<times> string \<times> string \<Rightarrow> instances \<Rightarrow> bool" where
  "has_doc key s \<longleftrightarrow> (case lookup_by mi_ID s (fst key) of None \<Rightarrow> False | Some d \<Rightarrow> (mi_Version d, mi_Fingerprint d) = snd key)"

lemma has_doc_map:
  assumes "\<And>d. mi_ID (f d) = mi_ID d" "\<And>d. mi_Version (f d) = mi_Version d" "\<And>d. mi_Fingerprint (f d) = mi_Fingerprint d"
  shows "has_doc key (map f s) = has_doc key s"
  using assms by (simp add: has_doc_def lookup_by_map split: option.splits)

lemma doc_image_lease [simp]: "doc_image G (d\<lparr>mi_lease_owner := ow, mi_lease_expires_at := t\<rparr>) = doc_image G d"
  by (simp add: doc_image_def decode_doc_def split: sum.split)

lemma has_doc_leases:
  "Mongo_TryAcquireLease now cerr j owner ttl (h, s) = (rb, h', s') \<Longrightarrow> has_doc key s' = has_doc key s"
  "Mongo_RenewLease now cerr j owner ttl (h, s) = (err, h', s') \<Longrightarrow> has_doc key s' = has_doc key s"
  "Mongo_ReleaseLease cerr j owner (h, s) = (err, h', s') \<Longrightarrow> has_doc key s' = has_doc key s"
  "Mongo_ReleaseLease cerr j owner (h, s) = (err, h', s') \<Longrightarrow>
     Option.bind (lookup_by mi_ID s' i) (doc_image G) = Option.bind (lookup_by mi_ID s i) (doc_image G)"
  by (auto simp: Mongo_TryAcquireLease_def Mongo_RenewLease_def Mongo_ReleaseLease_def Let_def lookup_by_map has_doc_map
      split: option.splits if_splits bind_splits)

lemma has_doc_writes:
  assumes "has_doc key s"
  shows "Mongo_SaveInstance M G a h s = (err, s') \<Longrightarrow> has_doc key s'"
    and "Mongo_UpdateInstance G a h s = (err, s') \<Longrightarrow> has_doc key s'"
proof -
  show "has_doc key s'" if "Mongo_SaveInstance M G a h s = (err, s')"
    using that assms by (auto simp: Mongo_SaveInstance_def Let_def has_doc_def lookup_by_snoc split: sum.splits if_splits option.splits)
  show "has_doc key s'" if u: "Mongo_UpdateInstance G a h s = (err, s')"
    using u
  proof (cases rule: mongo_update_cases)
    case (2 b1 b2 b3)
    with assms show ?thesis using has_doc_map [of _ key s] by (auto simp: set_fields_def)
  qed (use assms in simp)
qed

interpretation mongo_durable: durable_store "mongoStore M cursor G" mongo_inv key
  "\<lambda>s. lookup_by mi_ID s (fst key) = None" "has_doc key" "encodable G"
  "\<lambda>x. strip_lease (reload G x)" "stored_in (mongoStore M cursor G) (fst key)"
  for M cursor G key
proof (unfold_locales, goal_cases)
  case (1 h s a err s')
  then have "encodable G (deref h a)" by simp
  then obtain b1 b2 b3 where b: "encode_values G (deref h a) = Inr (b1, b2, b3)" by (auto simp: encodable_values)
  have k: "key = identity (deref h a)" using 1(4) by simp
  have "inst_ID (deref h a) \<notin> set (map mi_ID s)" using 1(2) by (simp add: k identity_def lookup_by_None)
  with 1(2,6) b k show ?case
    by (auto simp: Mongo_SaveInstance_def Let_def has_doc_def identity_def lookup_by_snoc)
next
  case (2 y x)
  then show ?case by (rule encodable_new)
next
  case (3 h s a h')
  then show ?case
    by (auto simp: Mongo_GetInstance_def has_doc_def alloc_def identity_def deref_def decode_doc_def split: option.splits sum.splits if_splits)
next
  case (8 h a s err s')
  then have "\<not> encodable G (deref h a)" by simp
  with 8(2) show ?case by (auto simp: encodable_values Mongo_UpdateInstance_def Let_def split: sum.splits)
next
  case (10 h s a err s')
  then have "encodable G (deref h a)" by simp
  then obtain b1 b2 b3 where b: "encode_values G (deref h a) = Inr (b1, b2, b3)" by (auto simp: encodable_values)
  let ?x = "deref h a" and ?i = "inst_ID (deref h a)"
  have k: "key = identity ?x" using 10(3) by simp
  from 10(2) obtain d where d: "lookup_by mi_ID s ?i = Some d" "mi_Version d = inst_Version ?x"
    "mi_Fingerprint d = inst_Fingerprint ?x" by (auto simp: has_doc_def k identity_def split: option.splits)
  have "mi_ID d = ?i" using lookup_by_Some [OF d(1)] by simp
  then have dec: "decode_doc G (set_fields ?x b1 b2 b3 d) = Inr (strip_lease (reload G ?x))"
    using decode_doc_written [of G ?x "set_fields ?x b1 b2 b3 d"] b d(2,3)
    by (simp add: set_fields_def) (simp add: reload_def)
  have s': "s' = map (\<lambda>d. if mi_ID d = ?i then set_fields ?x b1 b2 b3 d else d) s"
    using 10(5) b by (simp add: Mongo_UpdateInstance_def Let_def)
  have "lookup_by mi_ID s' ?i = Some (set_fields ?x b1 b2 b3 d)"
    using d(1) \<open>mi_ID d = ?i\<close> unfolding s' by (simp add: lookup_by_map)
  with dec show ?case by (simp add: stored_in_mongo k identity_def doc_image_def) (simp add: strip_lease_def)
qed (auto simp: stored_in_mongo has_doc_leases intro: has_doc_writes)

section \<open>Properties\<close>

text \<open>
  C26: An instance survives the MongoDB store, its lease apart. If gob can encode its values,
  \<^verbatim>\<open>SaveInstance\<close> of a new identifier and \<^verbatim>\<open>UpdateInstance\<close> of an existing one succeed, \<^verbatim>\<open>GetInstance\<close> then
  returns a new object that is the one written as \<open>reload\<close> gives it (the values that gob rebuilds, a map of results
  that is not nil, and of an error only its text) with empty lease fields, no other
  instance is affected, and every lease stays as it was. The object is equal to the one written but for the lease
  fields if it is \<open>storable\<close>: gob rebuilds its values as they are, its map of step results is not nil, and it has no
  error or a plain one with a non-empty message. An update does not change the version and the
  fingerprint that are read: it writes them to fields with other names.
\<close>

theorem mongo_instance_roundtrip:
  assumes "mongo_inv (h, s)" "encodable G (deref h a)" "i = inst_ID (deref h a)" "y = reload G (deref h a)"
  shows "(storable G (deref h a) \<longrightarrow> y = deref h a) \<and>
    (\<exists>s'. (case lookup_by mi_ID s i of
        None \<Rightarrow> Mongo_SaveInstance M G a h s = (None, s') \<and>
          Mongo_GetInstance G i g s' = (Inr (length g), g @ [strip_lease y]) \<and>
          mongo_lease (h, s') = (mongo_lease (h, s))(i \<mapsto> Free)
      | Some d \<Rightarrow> Mongo_UpdateInstance G a h s = (None, s') \<and>
          Mongo_GetInstance G i g s' = (Inr (length g),
            g @ [strip_lease (y\<lparr>inst_Version := mi_Version d, inst_Fingerprint := mi_Fingerprint d\<rparr>)]) \<and>
          mongo_lease (h, s') = mongo_lease (h, s)) \<and>
    (\<forall>j. j \<noteq> i \<longrightarrow> Mongo_GetInstance G j g s' = Mongo_GetInstance G j g s))"
proof (rule conjI)
  show "storable G (deref h a) \<longrightarrow> y = deref h a" using reload_storable assms(4) by simp
next
  let ?x = "deref h a"
  from assms(2) obtain b1 b2 b3 where b: "encode_values G ?x = Inr (b1, b2, b3)" by (auto simp: encodable_values)
  have re: "reload G ?x = y" "inst_Version y = inst_Version ?x" "inst_Fingerprint y = inst_Fingerprint ?x"
    using assms(4) by (simp_all add: reload_def)
  show "\<exists>s'. (case lookup_by mi_ID s i of
        None \<Rightarrow> Mongo_SaveInstance M G a h s = (None, s') \<and>
          Mongo_GetInstance G i g s' = (Inr (length g), g @ [strip_lease y]) \<and>
          mongo_lease (h, s') = (mongo_lease (h, s))(i \<mapsto> Free)
      | Some d \<Rightarrow> Mongo_UpdateInstance G a h s = (None, s') \<and>
          Mongo_GetInstance G i g s' = (Inr (length g),
            g @ [strip_lease (y\<lparr>inst_Version := mi_Version d, inst_Fingerprint := mi_Fingerprint d\<rparr>)]) \<and>
          mongo_lease (h, s') = mongo_lease (h, s)) \<and>
    (\<forall>j. j \<noteq> i \<longrightarrow> Mongo_GetInstance G j g s' = Mongo_GetInstance G j g s)"
  proof (cases "lookup_by mi_ID s i")
    case None
    then have new: "i \<notin> set (map mi_ID s)" by (simp add: lookup_by_None)
    define d where "d = \<lparr>mi_ID = inst_ID ?x, mi_Workflow = inst_Name ?x, mi_Version = inst_Version ?x,
      mi_Fingerprint = inst_Fingerprint ?x, mi_Status = inst_Status ?x, mi_CurrentStep = inst_CurrentStep ?x,
      mi_Input = b1, mi_Output = b2, mi_StepResults = b3, mi_Error = errStr ?x, mi_workflow_version = None,
      mi_workflow_fingerprint = None, mi_lease_owner = None, mi_lease_expires_at = None\<rparr>"
    have s: "Mongo_SaveInstance M G a h s = (None, s @ [d])"
      and d: "encode_values G ?x = Inr (mi_Input d, mi_Output d, mi_StepResults d)" "mi_ID d = inst_ID ?x"
        "mi_Workflow d = inst_Name ?x" "mi_Status d = inst_Status ?x" "mi_CurrentStep d = inst_CurrentStep ?x"
        "mi_Error d = errStr ?x" "mi_Version d = inst_Version ?x" "mi_Fingerprint d = inst_Fingerprint ?x"
        "mi_lease_owner d = None"
      using b new assms(3) by (simp_all add: Mongo_SaveInstance_def Let_def d_def)
    have l: "lookup_by mi_ID (s @ [d]) j = (if j = i then Some d else lookup_by mi_ID s j)" for j
      using None d(2) assms(3) by (simp add: lookup_by_snoc split: option.splits)
    have "y\<lparr>inst_Version := inst_Version ?x, inst_Fingerprint := inst_Fingerprint ?x\<rparr> = y"
      using re(2,3) by (cases y) simp
    then have dec: "decode_doc G d = Inr (strip_lease y)" using decode_doc_written [OF d(1-6)] d(7,8) by (simp add: re(1))
    have "mongo_lease (h, s @ [d]) = (mongo_lease (h, s))(i \<mapsto> Free)"
      by (simp add: fun_eq_iff mongo_lease_def l mi_lease_def d(9))
    with s dec None l show ?thesis by (auto simp: Mongo_GetInstance_def alloc_def)
  next
    case (Some d)
    let ?f = "set_fields ?x b1 b2 b3"
    let ?s = "map (\<lambda>d. if mi_ID d = i then ?f d else d) s"
    have d: "d \<in> set s" "mi_ID d = i" using lookup_by_Some [OF Some] by simp_all
    have u: "Mongo_UpdateInstance G a h s = (None, ?s)"
      using b imageI [OF d(1), of mi_ID] d(2) assms(3) by (simp add: Mongo_UpdateInstance_def Let_def)
    have l: "lookup_by mi_ID ?s j = (if j = i then Some (?f d) else lookup_by mi_ID s j)" for j
      using assms(1) Some d(2) by (intro lookup_by_update) (simp_all add: mongo_inv_def)
    have dec: "decode_doc G (?f d) = Inr (strip_lease (y\<lparr>inst_Version := mi_Version d, inst_Fingerprint := mi_Fingerprint d\<rparr>))"
      using decode_doc_written [of G ?x "?f d"] b d(2) assms(3) by (simp add: set_fields_def re(1))
    from mongo_update_frame [OF assms(1) u, of h] u dec Some l show ?thesis
      by (auto simp: Mongo_GetInstance_def alloc_def)
  qed
qed

theorem mongo_instance_roundtrip_witness:
  "\<exists>s'. Mongo_SaveInstance sample_mongo plain_gob 0 [stored_inst] NewMongoInstanceStore = (None, s') \<and>
     Mongo_GetInstance plain_gob ''wf-1'' [] s' = (Inr 0, [stored_inst])"
proof -
  have d: "deref [stored_inst] 0 = stored_inst" "inst_ID stored_inst = ''wf-1''" "strip_lease stored_inst = stored_inst"
    by (simp_all add: deref_def stored_inst_def strip_lease_def)
  have i: "mongo_inv ([stored_inst], [])" by (simp add: mongo_inv_def)
  have e: "encodable plain_gob stored_inst" using storable_encode [OF stored_inst_storable] by (simp add: encodable_values)
  from mongo_instance_roundtrip [OF i, of plain_gob 0 "''wf-1''" _ sample_mongo "[]", unfolded d, OF e refl refl] stored_inst_storable d(3)
  show ?thesis by (auto simp: NewMongoInstanceStore_def)
qed

end
