(* ===== verification/Redis_Scores.thy ===== *)
theory Redis_Scores
  imports Mongo_Store "HOL-Library.Char_ord" "HOL-Library.List_Lexorder" "HOL-Library.Product_Lexorder"
begin

text \<open>
  What the Redis queue computes with: the scores of a sorted set and the numbers of a Lua script are
  IEEE double-precision numbers, which hold whole numbers of up to 53 bits. A clock reading in nanoseconds has
  61 bits, so it is rounded to a multiple of 256 and more. The theory gives the rounding and its
  laws (it is monotone, idempotent and off by less than a unit in the last place), and the sorted sets.
\<close>

section \<open>Rounding to a double\<close>

text \<open>To a multiple of \<open>2 ^ e\<close>, ties to the even one.\<close>

definition round_to :: "nat \<Rightarrow> int \<Rightarrow> int" where
  "round_to e t =
     (let q = t div 2 ^ e; r = t mod 2 ^ e in
      (if 2 * r < 2 ^ e \<or> 2 * r = 2 ^ e \<and> even q then q else q + 1) * 2 ^ e)"

text \<open>The exponent of the unit in the last of 53 places.\<close>

definition ulp :: "int \<Rightarrow> nat" where
  "ulp t = floorlog 2 (nat t) - 53"

definition float64 :: "int \<Rightarrow> int" where
  "float64 t = (if t < 0 then - round_to (ulp (- t)) (- t) else round_to (ulp t) t)"

lemma round_to_or: "round_to e t = t div 2 ^ e * 2 ^ e \<or> round_to e t = (t div 2 ^ e + 1) * 2 ^ e"
  by (simp add: round_to_def Let_def)

lemma round_to_dvd: "2 ^ e dvd round_to e t"
  using round_to_or [of e t] by auto

lemma round_to_floor: "t div 2 ^ e * 2 ^ e \<le> round_to e t" "round_to e t \<le> (t div 2 ^ e + 1) * 2 ^ e"
  using round_to_or [of e t] by (auto simp: distrib_right)

lemma round_to_near: "t - 2 ^ e < round_to e t" "round_to e t \<le> t + 2 ^ e"
proof -
  have "t = t div 2 ^ e * 2 ^ e + t mod 2 ^ e" by (rule div_mult_mod_eq [symmetric])
  moreover have "0 \<le> t mod 2 ^ e" "t mod 2 ^ e < 2 ^ e" by simp_all
  ultimately show "t - 2 ^ e < round_to e t" "round_to e t \<le> t + 2 ^ e"
    using round_to_floor [where t = t and e = e] unfolding distrib_right by linarith+
qed

lemma round_to_multiple: "2 ^ e dvd t \<Longrightarrow> round_to e t = t"
  by (auto simp: round_to_def Let_def)

lemma round_to_mono:
  assumes "s \<le> t"
  shows "round_to e s \<le> round_to e t"
proof -
  let ?p = "2 ^ e :: int"
  have "s div ?p \<le> t div ?p" using assms by (intro zdiv_mono1) simp_all
  then consider "s div ?p = t div ?p" | "s div ?p + 1 \<le> t div ?p" by linarith
  then show ?thesis
  proof cases
    case 1
    have "s mod ?p \<le> t mod ?p" using assms 1 minus_mult_div_eq_mod [of s ?p] minus_mult_div_eq_mod [of t ?p] by simp
    with 1 show ?thesis by (auto simp: round_to_def Let_def intro!: mult_right_mono)
  next
    case 2
    have "round_to e s \<le> (s div ?p + 1) * ?p" by (rule round_to_floor)
    also have "\<dots> \<le> t div ?p * ?p" using 2 by (intro mult_right_mono) simp_all
    also have "\<dots> \<le> round_to e t" by (rule round_to_floor)
    finally show ?thesis .
  qed
qed

lemma round_to_power:
  "e \<le> n \<Longrightarrow> t \<le> 2 ^ n \<Longrightarrow> round_to e t \<le> 2 ^ n" "e \<le> n \<Longrightarrow> 2 ^ n \<le> t \<Longrightarrow> 2 ^ n \<le> round_to e t"
  using round_to_mono [of t "2 ^ n" e] round_to_mono [of "2 ^ n" t e] round_to_multiple [of e "2 ^ n"]
  by (simp_all add: le_imp_power_dvd)

lemma floorlog_int:
  assumes "0 < t"
  shows "2 ^ (floorlog 2 (nat t) - 1) \<le> t" "t < 2 ^ floorlog 2 (nat t)" "0 < floorlog 2 (nat t)"
proof -
  have "2 ^ (floorlog 2 (nat t) - 1) \<le> nat t" "nat t < 2 ^ floorlog 2 (nat t)"
    using floorlog_bounds [of "nat t" 2] assms by simp_all
  then have "int (2 ^ (floorlog 2 (nat t) - 1)) \<le> int (nat t)" "int (nat t) < int (2 ^ floorlog 2 (nat t))"
    unfolding of_nat_le_iff of_nat_less_iff .
  with assms show "2 ^ (floorlog 2 (nat t) - 1) \<le> t" "t < 2 ^ floorlog 2 (nat t)" by simp_all
  show "0 < floorlog 2 (nat t)" using assms by (simp add: floorlog_def)
qed

lemma float64_nonneg: "0 \<le> t \<Longrightarrow> float64 t = round_to (ulp t) t \<and> 0 \<le> float64 t"
  using round_to_mono [of 0 t "ulp t"] round_to_multiple [of "ulp t" 0] by (simp add: float64_def)

lemma float64_0 [simp]: "float64 0 = 0"
  using float64_nonneg [of 0] round_to_multiple [of "ulp 0" 0] by simp

text \<open>Between two powers of two.\<close>

lemma float64_power:
  assumes "0 < t"
  shows "float64 t \<le> 2 ^ floorlog 2 (nat t)" "2 ^ (floorlog 2 (nat t) - 1) \<le> float64 t"
proof -
  have u: "ulp t \<le> floorlog 2 (nat t)" "ulp t \<le> floorlog 2 (nat t) - 1" by (auto simp: ulp_def)
  from assms round_to_power(1) [OF u(1), of t] round_to_power(2) [OF u(2), of t] floorlog_int [OF assms] float64_nonneg [of t]
  show "float64 t \<le> 2 ^ floorlog 2 (nat t)" "2 ^ (floorlog 2 (nat t) - 1) \<le> float64 t" by simp_all
qed

lemma float64_mono:
  assumes "0 \<le> s" "s \<le> t"
  shows "float64 s \<le> float64 t"
proof (cases "s = 0 \<or> floorlog 2 (nat s) = floorlog 2 (nat t)")
  case True
  with assms float64_nonneg [of s] float64_nonneg [of t] round_to_mono [OF assms(2)] show ?thesis
    by (auto simp: ulp_def)
next
  case False
  then have pos: "0 < s" "0 < t" using assms by simp_all
  have "floorlog 2 (nat s) \<le> floorlog 2 (nat t)" using assms by (intro floorlog_mono) simp
  with False have "floorlog 2 (nat s) \<le> floorlog 2 (nat t) - 1" by linarith
  then have "(2::int) ^ floorlog 2 (nat s) \<le> 2 ^ (floorlog 2 (nat t) - 1)" by simp
  with float64_power(1) [OF pos(1)] float64_power(2) [OF pos(2)] show ?thesis by linarith
qed

lemma float64_exact: "0 \<le> t \<Longrightarrow> 2 ^ e dvd t \<Longrightarrow> t \<le> 2 ^ (e + 53) \<Longrightarrow> float64 t = t"
proof (cases "t = 2 ^ (e + 53)")
  case True
  have "floorlog 2 (2 ^ (e + 53) :: nat) \<le> Suc (e + 53)" by (simp add: floorlog_le_iff)
  then have "2 ^ ulp t dvd t" unfolding True by (intro le_imp_power_dvd) (simp add: ulp_def nat_power_eq)
  then show ?thesis using float64_nonneg [of t] round_to_multiple True by simp
next
  case False
  assume t: "0 \<le> t" "2 ^ e dvd t" "t \<le> 2 ^ (e + 53)"
  then have "nat t < 2 ^ (e + 53)" using False by (simp add: nat_less_iff)
  then have "floorlog 2 (nat t) \<le> e + 53" by (simp add: floorlog_le_iff)
  then have "(2::int) ^ ulp t dvd 2 ^ e" by (intro le_imp_power_dvd) (simp add: ulp_def)
  with t show ?thesis using float64_nonneg [of t] round_to_multiple [of "ulp t" t] dvd_trans by metis
qed

lemma float64_idem:
  assumes "0 \<le> t"
  shows "float64 (float64 t) = float64 t"
proof (cases "t = 0")
  case False
  then have t: "0 < t" using assms by simp
  have "(2::int) ^ floorlog 2 (nat t) \<le> 2 ^ (ulp t + 53)" by (simp add: ulp_def)
  with float64_power(1) [OF t] have "float64 t \<le> 2 ^ (ulp t + 53)" by linarith
  with float64_nonneg [OF assms] round_to_dvd [of "ulp t" t] show ?thesis by (intro float64_exact [of _ "ulp t"]) simp_all
qed simp

lemma float64_near:
  assumes "0 \<le> t" "t < 2 ^ n" "53 \<le> n"
  shows "t - 2 ^ (n - 53) < float64 t" "float64 t \<le> t + 2 ^ (n - 53)"
proof -
  have "nat t < 2 ^ n" using assms by (simp add: nat_less_iff)
  then have "ulp t \<le> n - 53" by (simp add: ulp_def floorlog_le_iff diff_le_mono)
  then have "(2::int) ^ ulp t \<le> 2 ^ (n - 53)" by simp
  with round_to_near [where t = t and e = "ulp t"] float64_nonneg [OF assms(1)]
  show "t - 2 ^ (n - 53) < float64 t" "float64 t \<le> t + 2 ^ (n - 53)" by linarith+
qed

section \<open>Sorted sets\<close>

text \<open>
  A sorted set: members with their scores, in the order of the scores and, for equal scores, of the
  bytes of the members. \<open>ZADD\<close> and \<open>ZREM\<close> are those of association lists.
\<close>

type_synonym zset = "(string \<times> int) list"

definition ZADD :: "int \<Rightarrow> string \<Rightarrow> zset \<Rightarrow> zset" where
  "ZADD score member z = AList.update member score z"

definition ZREM :: "string \<Rightarrow> zset \<Rightarrow> zset" where
  "ZREM member z = AList.delete member z"

text \<open>\<^verbatim>\<open>ZRANGEBYSCORE key -inf max LIMIT 0 n\<close>\<close>

definition ZRANGEBYSCORE :: "int \<Rightarrow> nat \<Rightarrow> zset \<Rightarrow> string list" where
  "ZRANGEBYSCORE limit n z = take n (map fst (sort_key (\<lambda>(m, s). (s, m)) (filter (\<lambda>(m, s). s \<le> limit) z)))"

lemma map_of_ZADD [simp]: "map_of (ZADD s m z) = (map_of z)(m \<mapsto> s)"
  by (simp add: ZADD_def update_conv')

lemma map_of_ZREM [simp]: "map_of (ZREM m z) = (map_of z)(m := None)"
  by (simp add: ZREM_def delete_conv')

lemma distinct_ZADD [simp]: "distinct (map fst z) \<Longrightarrow> distinct (map fst (ZADD s m z))"
  by (simp add: ZADD_def distinct_update)

lemma distinct_ZREM [simp]: "distinct (map fst z) \<Longrightarrow> distinct (map fst (ZREM m z))"
  by (simp add: ZREM_def distinct_delete)

lemma ZRANGE_distinct: "distinct (map fst z) \<Longrightarrow> distinct (ZRANGEBYSCORE x n z)"
proof -
  assume "distinct (map fst z)"
  then have d: "distinct (map fst (filter (\<lambda>(m, s). s \<le> x) z))" by (rule distinct_map_filter)
  have "mset (map fst (sort_key (\<lambda>(m, s). (s, m)) (filter (\<lambda>(m, s). s \<le> x) z))) = mset (map fst (filter (\<lambda>(m, s). s \<le> x) z))"
    by simp
  then have "distinct (map fst (sort_key (\<lambda>(m, s). (s, m)) (filter (\<lambda>(m, s). s \<le> x) z)))"
    using d by (metis mset_eq_imp_distinct_iff)
  then show ?thesis by (simp add: ZRANGEBYSCORE_def)
qed

lemma ZRANGE_member: "distinct (map fst z) \<Longrightarrow> m \<in> set (ZRANGEBYSCORE x n z) \<Longrightarrow> \<exists>s. map_of z m = Some s \<and> s \<le> x"
  by (force simp: ZRANGEBYSCORE_def dest!: in_set_takeD)

lemma ZRANGE_Nil: "0 < n \<Longrightarrow> ZRANGEBYSCORE x n z = [] \<longleftrightarrow> (\<forall>(m, s) \<in> set z. x < s)"
proof -
  assume n: "0 < n"
  let ?f = "filter (\<lambda>(m, s). s \<le> x) z"
  have "sort_key (\<lambda>(m, s). (s, m)) ?f = [] \<longleftrightarrow> ?f = []" by (metis set_sort set_empty)
  with n have "ZRANGEBYSCORE x n z = [] \<longleftrightarrow> ?f = []" by (simp add: ZRANGEBYSCORE_def)
  then show ?thesis by (auto simp: filter_empty_conv)
qed

lemma ZRANGE_first:
  assumes "distinct (map fst z)" "ZRANGEBYSCORE x n z = m # ms" "map_of z m = Some s" "map_of z m' = Some s'"
  shows "s \<le> s'"
proof (cases "s' \<le> x")
  case True
  let ?k = "\<lambda>(m, s). (s, m) :: int \<times> string"
  let ?f = "filter (\<lambda>(m, s). s \<le> x) z"
  obtain p ps where p: "sort_key ?k ?f = p # ps" "fst p = m"
    using assms(2) by (cases "sort_key ?k ?f"; cases n) (auto simp: ZRANGEBYSCORE_def)
  have "set (sort_key ?k ?f) \<subseteq> set z" by auto
  with p(1) have "p \<in> set z" by auto
  then have "p = (m, s)" using p(2) assms(1,3) by (metis map_of_is_SomeI option.inject surjective_pairing)
  moreover have "(m', s') \<in> set (sort_key ?k ?f)" using True map_of_SomeD [OF assms(4)] by simp
  moreover have "sorted (map ?k (p # ps))" using sorted_sort_key [of ?k ?f] p(1) by simp
  ultimately show ?thesis unfolding p(1) by (auto dest!: bspec [of _ _ "(m', s')"])
next
  case False
  have "\<exists>t. map_of z m = Some t \<and> t \<le> x" by (rule ZRANGE_member [OF assms(1), of _ x n]) (simp add: assms(2))
  with assms(3) False show ?thesis by simp
qed

end
