(* ===== verification/Redis_Queue.thy ===== *)
theory Redis_Queue
  imports Redis_Scores
begin

text \<open>
  The Redis task queue, \<^verbatim>\<open>redis/internal/taskqueue/redis_queue.go\<close>: two sorted sets (the tasks that wait
  and those that are leased) and three hashes, one definition per Lua script and per operation, and the
  proof that the queue meets the contract \<open>leased_queue\<close>. The times it keeps are doubles, \<^verbatim>\<open>Nack\<close>
  rewrites the attempts of a task before it looks at who holds it, and one poll puts back
  at most 100 expired tasks; none of this costs exclusive leases or loses a task.
\<close>

section \<open>The keys\<close>

record RedisQueue =
  rq_ready :: zset
  rq_inflight :: zset
  rq_payload :: "string \<rightharpoonup> gobstream"
  rq_notBefore :: "string \<rightharpoonup> int"
  rq_owner :: "string \<rightharpoonup> string"
  rq_draws :: nat

text \<open>The queue on an empty database; \<open>rq_draws\<close> counts the calls of \<^verbatim>\<open>rand.Read\<close>.\<close>

definition NewRedisQueue :: RedisQueue where
  "NewRedisQueue = \<lparr>rq_ready = [], rq_inflight = [], rq_payload = Map.empty, rq_notBefore = Map.empty,
     rq_owner = Map.empty, rq_draws = 0\<rparr>"

section \<open>The scripts\<close>

text \<open>One pass of the loop that puts an expired task back; \<open>now\<close> is a Lua number.\<close>

definition requeue :: "int \<Rightarrow> string \<Rightarrow> RedisQueue \<Rightarrow> RedisQueue" where
  "requeue now i q =
     q\<lparr>rq_inflight := ZREM i (rq_inflight q), rq_owner := (rq_owner q)(i := None),
       rq_ready := ZADD (case rq_notBefore q i of Some nb \<Rightarrow> float64 nb | None \<Rightarrow> now) i (rq_ready q)\<rparr>"

text \<open>The script returns nothing, or the identifier and what the payload hash holds for it.\<close>

definition redisDequeueLua :: "int \<Rightarrow> int \<Rightarrow> string \<Rightarrow> RedisQueue \<Rightarrow> (string \<times> gobstream option) option \<times> RedisQueue" where
  "redisDequeueLua nowNanos leaseMs owner q =
     (let now = float64 nowNanos;
          expired = ZRANGEBYSCORE now 100 (rq_inflight q);
          q1 = fold (requeue now) expired q
      in (case ZRANGEBYSCORE now 1 (rq_ready q1) of
            [] \<Rightarrow> (None, q1)
          | i # _ \<Rightarrow>
              (Some (i, rq_payload q1 i),
               q1\<lparr>rq_ready := ZREM i (rq_ready q1),
                  rq_inflight := ZADD (float64 (now + float64 (float64 leaseMs * 1000000))) i (rq_inflight q1),
                  rq_owner := (rq_owner q1)(i \<mapsto> owner)\<rparr>)))"

definition redisAckLua :: "string \<Rightarrow> string \<Rightarrow> RedisQueue \<Rightarrow> int \<times> RedisQueue" where
  "redisAckLua i owner q =
     (case rq_owner q i of
        None \<Rightarrow> (1, q)
      | Some cur \<Rightarrow>
          if cur \<noteq> owner then (0, q)
          else (1, q\<lparr>rq_inflight := ZREM i (rq_inflight q), rq_owner := (rq_owner q)(i := None),
                     rq_payload := (rq_payload q)(i := None), rq_notBefore := (rq_notBefore q)(i := None)\<rparr>))"

definition redisNackLua :: "string \<Rightarrow> string \<Rightarrow> int \<Rightarrow> RedisQueue \<Rightarrow> int \<times> RedisQueue" where
  "redisNackLua i owner notBeforeNanos q =
     (let nb = float64 notBeforeNanos in
      case rq_owner q i of
        None \<Rightarrow> (1, q)
      | Some cur \<Rightarrow>
          if cur \<noteq> owner then (0, q)
          else (1, q\<lparr>rq_inflight := ZREM i (rq_inflight q), rq_owner := (rq_owner q)(i := None),
                     rq_notBefore := (rq_notBefore q)(i \<mapsto> nb), rq_ready := ZADD nb i (rq_ready q)\<rparr>))"

definition redisRenewLua :: "string \<Rightarrow> string \<Rightarrow> int \<Rightarrow> RedisQueue \<Rightarrow> int \<times> RedisQueue" where
  "redisRenewLua i owner newExpiryNanos q =
     (case rq_owner q i of
        None \<Rightarrow> (0, q)
      | Some cur \<Rightarrow>
          if cur \<noteq> owner then (0, q)
          else (1, q\<lparr>rq_inflight := ZADD (float64 newExpiryNanos) i (rq_inflight q)\<rparr>))"

section \<open>Operations\<close>

text \<open>\<^verbatim>\<open>Duration.Milliseconds\<close> truncates towards zero.\<close>

definition Milliseconds :: "duration \<Rightarrow> int" where
  "Milliseconds d = sgn d * (\<bar>d\<bar> div Millisecond)"

text \<open>\<open>rand n\<close> is what the \<open>n\<close>th call of \<^verbatim>\<open>rand.Read\<close> gives. The three commands are one transaction.\<close>

definition Redis_Enqueue :: "(nat \<Rightarrow> goerr + nat list) \<Rightarrow> gob \<Rightarrow> time \<Rightarrow> goerr option \<Rightarrow> Task \<Rightarrow> RedisQueue
     \<Rightarrow> goerr option \<times> RedisQueue" where
  "Redis_Enqueue rand G now cerr t q =
     (let (r, q1) = (if task_ID t = '''' then (map_sum id EncodeToString (rand (rq_draws q)), q\<lparr>rq_draws := Suc (rq_draws q)\<rparr>)
                     else (Inr (task_ID t), q))
      in (case r of
            Inl e \<Rightarrow> (Some e, q1)
          | Inr i \<Rightarrow>
              (case EncodeTask G (t\<lparr>task_ID := i\<rparr>) of
                 Inl e \<Rightarrow> (Some e, q1)
               | Inr data \<Rightarrow>
                   let nb = UnixNano (if IsZero (task_NotBefore t) then now else task_NotBefore t)
                   in (case cerr of
                         Some e \<Rightarrow> (Some e, q1)
                       | None \<Rightarrow>
                           (None, q1\<lparr>rq_payload := (rq_payload q1)(i \<mapsto> data),
                                     rq_notBefore := (rq_notBefore q1)(i \<mapsto> nb),
                                     rq_ready := ZADD (float64 nb) i (rq_ready q1)\<rparr>)))))"

definition Redis_checkTTL :: "duration \<Rightarrow> goerr option" where
  "Redis_checkTTL ttl = (if ttl \<le> 0 then Some (ErrMsg ''leaseTTL must be > 0'') else None)"

text \<open>An answer without an identifier or a payload is treated like no answer.\<close>

definition Redis_DequeuePoll :: "gob \<Rightarrow> time \<Rightarrow> string \<Rightarrow> duration \<Rightarrow> RedisQueue \<Rightarrow> (goerr + Task option) \<times> RedisQueue" where
  "Redis_DequeuePoll G now owner leaseTTL q =
     (case redisDequeueLua (UnixNano now) (Milliseconds leaseTTL) owner q of
        (None, q') \<Rightarrow> (Inr None, q')
      | (Some (i, None), q') \<Rightarrow> (Inr None, q')
      | (Some (i, Some payloadStr), q') \<Rightarrow>
          if i = '''' then (Inr None, q')
          else (case DecodeTask G payloadStr of
                  Inl e \<Rightarrow> (Inl e, q')
                | Inr task \<Rightarrow> (Inr (Some (task\<lparr>task_ID := i\<rparr>)), q')))"

definition other_owner :: goerr where
  "other_owner = ErrMsg ''task leased by another owner''"

definition Redis_RenewTask :: "time \<Rightarrow> string \<Rightarrow> string \<Rightarrow> duration \<Rightarrow> RedisQueue \<Rightarrow> goerr option \<times> RedisQueue" where
  "Redis_RenewTask now taskID owner leaseTTL q =
     (let (n, q') = redisRenewLua taskID owner (UnixNano (now + leaseTTL)) q
      in (if n = 1 then None else Some other_owner, q'))"

definition Redis_Ack :: "goerr option \<Rightarrow> string \<Rightarrow> string \<Rightarrow> RedisQueue \<Rightarrow> goerr option \<times> RedisQueue" where
  "Redis_Ack cerr taskID owner q =
     (case cerr of
        Some e \<Rightarrow> (Some e, q)
      | None \<Rightarrow> (let (n, q') = redisAckLua taskID owner q in (if n = 0 then Some other_owner else None, q')))"

text \<open>
  The payload \<^verbatim>\<open>Nack\<close> writes back, from the one it has read: new attempts and schedule, whoever holds
  the task.
\<close>

definition nack_payload :: "gob \<Rightarrow> string \<Rightarrow> time \<Rightarrow> int \<Rightarrow> gobstream \<Rightarrow> goerr + gobstream" where
  "nack_payload G taskID notBefore attempts payloadStr =
     (case DecodeTask G payloadStr of
        Inl e \<Rightarrow> Inl e
      | Inr task \<Rightarrow> EncodeTask G (task\<lparr>task_ID := taskID, task_Attempts := attempts, task_NotBefore := notBefore\<rparr>))"

definition Redis_Nack :: "gob \<Rightarrow> goerr option \<Rightarrow> string \<Rightarrow> string \<Rightarrow> time \<Rightarrow> int \<Rightarrow> RedisQueue \<Rightarrow> goerr option \<times> RedisQueue" where
  "Redis_Nack G cerr taskID owner notBefore attempts q =
     (case cerr of
        Some e \<Rightarrow> (Some e, q)
      | None \<Rightarrow>
          (case rq_payload q taskID of
             None \<Rightarrow> (None, q)
           | Some payloadStr \<Rightarrow>
               (case nack_payload G taskID notBefore attempts payloadStr of
                  Inl e \<Rightarrow> (Some e, q)
                | Inr data \<Rightarrow>
                    let q1 = q\<lparr>rq_payload := (rq_payload q)(taskID \<mapsto> data)\<rparr>;
                        (n, q2) = redisNackLua taskID owner (UnixNano notBefore) q1
                    in (if n = 0 then Some other_owner else None, q2))))"

definition Redis_Len :: "RedisQueue \<Rightarrow> nat" where
  "Redis_Len q = length (rq_ready q) + length (rq_inflight q)"

definition redisQueue :: "(nat \<Rightarrow> goerr + nat list) \<Rightarrow> gob \<Rightarrow> RedisQueue Queue" where
  "redisQueue rand G = \<lparr>q_Enqueue = Redis_Enqueue rand G, q_checkTTL = Redis_checkTTL,
     q_DequeuePoll = Redis_DequeuePoll G, q_pollInterval = 50 * Millisecond,
     q_RenewLease = Redis_RenewTask, q_Ack = Redis_Ack, q_Nack = Redis_Nack G, q_Len = Redis_Len\<rparr>"

lemma redisQueue_sel [simp]:
  "q_Enqueue (redisQueue rand G) = Redis_Enqueue rand G" "q_DequeuePoll (redisQueue rand G) = Redis_DequeuePoll G"
  "q_RenewLease (redisQueue rand G) = Redis_RenewTask" "q_Ack (redisQueue rand G) = Redis_Ack"
  "q_Nack (redisQueue rand G) = Redis_Nack G" "q_pollInterval (redisQueue rand G) = 50 * Millisecond"
  by (simp_all add: redisQueue_def)

section \<open>Invariant and view\<close>

text \<open>The clock readings whose nanoseconds are neither negative nor too many for 64 bits.\<close>

definition unix_time :: "time \<Rightarrow> bool" where
  "unix_time t \<longleftrightarrow> 0 \<le> t \<and> t < 2 ^ 63"

definition payload_ok :: "gob \<Rightarrow> gobstream \<Rightarrow> bool" where
  "payload_ok G b \<longleftrightarrow> (\<exists>t. DecodeTask G b = Inr t \<and> gob_ok G (task_Payload t))"

text \<open>
  The sorted sets are disjoint and together hold the keys of the payloads; leased tasks have owners and
  were due when they were claimed; the waiting ones are scored with their time.
\<close>

definition rq_keys :: "RedisQueue \<Rightarrow> bool" where
  "rq_keys q \<longleftrightarrow> distinct (map fst (rq_ready q)) \<and> distinct (map fst (rq_inflight q)) \<and>
     (\<forall>i. map_of (rq_ready q) i = None \<or> map_of (rq_inflight q) i = None) \<and>
     (\<forall>i. rq_payload q i = None \<longleftrightarrow> map_of (rq_ready q) i = None \<and> map_of (rq_inflight q) i = None) \<and>
     (\<forall>i. rq_notBefore q i = None \<longleftrightarrow> rq_payload q i = None) \<and>
     (\<forall>i. rq_owner q i = None \<longleftrightarrow> map_of (rq_inflight q) i = None) \<and> rq_payload q '''' = None"

definition rq_times :: "time \<Rightarrow> RedisQueue \<Rightarrow> bool" where
  "rq_times now q \<longleftrightarrow> (\<forall>i nb. rq_notBefore q i = Some nb \<longrightarrow> 0 \<le> nb \<and>
       (\<forall>s. map_of (rq_ready q) i = Some s \<longrightarrow> s = float64 nb) \<and>
       (\<forall>x. map_of (rq_inflight q) i = Some x \<longrightarrow> float64 nb \<le> float64 now))"

definition rq_inv :: "gob \<Rightarrow> time \<Rightarrow> RedisQueue \<Rightarrow> bool" where
  "rq_inv G now q \<longleftrightarrow> rq_keys q \<and> rq_times now q \<and> finite (dom (rq_payload q)) \<and>
     (\<forall>i b. rq_payload q i = Some b \<longrightarrow> payload_ok G b) \<and>
     gob_stable G"

text \<open>The identifier a task is stored under, if one can be drawn, and that it is new.\<close>

definition rq_assigned :: "(nat \<Rightarrow> goerr + nat list) \<Rightarrow> RedisQueue \<Rightarrow> Task \<Rightarrow> goerr + string" where
  "rq_assigned rand q t = (if task_ID t = '''' then map_sum id EncodeToString (rand (rq_draws q)) else Inr (task_ID t))"

definition rq_fresh :: "(nat \<Rightarrow> goerr + nat list) \<Rightarrow> RedisQueue \<Rightarrow> Task \<Rightarrow> bool" where
  "rq_fresh rand q t \<longleftrightarrow> (case rq_assigned rand q t of Inl _ \<Rightarrow> True | Inr i \<Rightarrow> i \<noteq> '''' \<and> rq_payload q i = None)"

definition rq_lease :: "RedisQueue \<Rightarrow> string \<Rightarrow> lease" where
  "rq_lease q i = (case map_of (rq_inflight q) i of None \<Rightarrow> Free | Some x \<Rightarrow> Leased (the (rq_owner q i)) x)"

definition rq_task :: "gob \<Rightarrow> RedisQueue \<Rightarrow> string \<Rightarrow> gobstream \<Rightarrow> Task" where
  "rq_task G q i b = (case DecodeTask G b of Inr t \<Rightarrow> t | Inl _ \<Rightarrow> zero_Task)
     \<lparr>task_ID := i, task_NotBefore := float64 (the (rq_notBefore q i))\<rparr>"

definition rq_view :: "gob \<Rightarrow> RedisQueue \<Rightarrow> table" where
  "rq_view G q i = map_option (\<lambda>b. (rq_task G q i b, rq_lease q i)) (rq_payload q i)"

definition same_but_attempts :: "Task \<Rightarrow> Task \<Rightarrow> bool" where
  "same_but_attempts t t' \<longleftrightarrow> t\<lparr>task_Attempts := 0\<rparr> = t'\<lparr>task_Attempts := 0\<rparr>"

definition redis_lasts :: "time \<Rightarrow> duration \<Rightarrow> time \<Rightarrow> bool" where
  "redis_lasts now ttl x \<longleftrightarrow> x = float64 (now + ttl) \<or>
     x = float64 (float64 now + float64 (float64 (Milliseconds ttl) * 1000000))"

lemma unix_int64 [simp]: "unix_time t \<Longrightarrow> UnixNano t = t"
  by (simp add: unix_time_def int64_def)

lemma float64_not_zero [simp]: "0 \<le> t \<Longrightarrow> \<not> IsZero (float64 t)"
  using float64_nonneg [of t] by (auto simp: IsZero_def zero_time_def)

lemma unix_not_zero: "0 \<le> t \<Longrightarrow> \<not> IsZero t"
  by (simp add: IsZero_def zero_time_def)

lemma gob_stable_ok:
  assumes "gob_stable G" "EncodeTask G t = Inr b"
  shows "\<exists>v. gob_image G (task_Payload t) = Some v \<and> DecodeTask G b = Inr (t\<lparr>task_Payload := v\<rparr>) \<and> gob_ok G v"
proof -
  from EncodeTask_DecodeTask [OF assms(2)] obtain v where v: "gob_image G (task_Payload t) = Some v"
    "DecodeTask G b = Inr (t\<lparr>task_Payload := v\<rparr>)" by auto
  have "list_all (gob_knows G) (gob_names v)"
    using assms(2) gob_names_image [OF v(1)] by (auto simp: EncodeTask_def split: if_splits)
  then show ?thesis using v assms(1) by (auto simp: gob_ok_def gob_stable_def)
qed

lemma rq_inv_keys:
  assumes "rq_inv G now q"
  shows "distinct (map fst (rq_ready q))" "distinct (map fst (rq_inflight q))"
    "map_of (rq_ready q) i = None \<or> map_of (rq_inflight q) i = None"
    "rq_payload q i = None \<longleftrightarrow> map_of (rq_ready q) i = None \<and> map_of (rq_inflight q) i = None"
    "rq_notBefore q i = None \<longleftrightarrow> rq_payload q i = None" "rq_owner q i = None \<longleftrightarrow> map_of (rq_inflight q) i = None"
    "rq_payload q '''' = None"
proof -
  have k: "rq_keys q" using assms by (simp add: rq_inv_def)
  show "distinct (map fst (rq_ready q))" "distinct (map fst (rq_inflight q))"
    "map_of (rq_ready q) i = None \<or> map_of (rq_inflight q) i = None"
    "rq_payload q i = None \<longleftrightarrow> map_of (rq_ready q) i = None \<and> map_of (rq_inflight q) i = None" "rq_payload q '''' = None"
    "rq_notBefore q i = None \<longleftrightarrow> rq_payload q i = None" "rq_owner q i = None \<longleftrightarrow> map_of (rq_inflight q) i = None"
    using k by (simp_all only: rq_keys_def)
qed

lemma rq_view_cases:
  assumes "rq_inv G now q"
  obtains "rq_view G q i = None" "rq_payload q i = None" "rq_notBefore q i = None" "rq_owner q i = None"
      "map_of (rq_ready q) i = None" "map_of (rq_inflight q) i = None"
    | b t nb where "rq_payload q i = Some b" "DecodeTask G b = Inr t" "gob_ok G (task_Payload t)" "rq_notBefore q i = Some nb" "0 \<le> nb"
      "rq_view G q i = Some (t\<lparr>task_ID := i, task_NotBefore := float64 nb\<rparr>, Free)"
      "map_of (rq_ready q) i = Some (float64 nb)" "map_of (rq_inflight q) i = None" "rq_owner q i = None"
    | b t nb w x where "rq_payload q i = Some b" "DecodeTask G b = Inr t" "gob_ok G (task_Payload t)" "rq_notBefore q i = Some nb" "0 \<le> nb"
      "rq_view G q i = Some (t\<lparr>task_ID := i, task_NotBefore := float64 nb\<rparr>, Leased w x)" "float64 nb \<le> float64 now"
      "map_of (rq_ready q) i = None" "map_of (rq_inflight q) i = Some x" "rq_owner q i = Some w"
proof -
  note k = rq_inv_keys [OF assms]
  show thesis
  proof (cases "rq_payload q i")
    case None
    with k(4-6) [of i] show thesis by (intro that(1)) (simp_all add: rq_view_def)
  next
    case (Some b)
    then obtain t where t: "DecodeTask G b = Inr t" "gob_ok G (task_Payload t)"
      using assms by (auto simp: rq_inv_def payload_ok_def)
    from Some k(5) [of i] obtain nb where nb: "rq_notBefore q i = Some nb" by auto
    then have times: "0 \<le> nb" "\<And>s. map_of (rq_ready q) i = Some s \<Longrightarrow> s = float64 nb"
      "\<And>x. map_of (rq_inflight q) i = Some x \<Longrightarrow> float64 nb \<le> float64 now"
      using assms by (auto simp: rq_inv_def rq_times_def)
    have v: "rq_view G q i = Some (t\<lparr>task_ID := i, task_NotBefore := float64 nb\<rparr>, rq_lease q i)"
      by (simp add: rq_view_def Some rq_task_def t nb)
    show thesis
    proof (cases "map_of (rq_inflight q) i")
      case None
      with Some k(4) [of i] obtain s where s: "map_of (rq_ready q) i = Some s" by auto
      from that(2) [OF Some t nb times(1)] v None s times(2) k(6) [of i] show thesis by (simp add: rq_lease_def)
    next
      case x: (Some x)
      then obtain w where w: "rq_owner q i = Some w" using k(6) [of i] by auto
      have "map_of (rq_ready q) i = None" using k(3) [of i] x by simp
      from that(3) [OF Some t nb times(1) _ times(3) [OF x] this x w] v show thesis by (simp add: rq_lease_def x w)
    qed
  qed
qed

lemma leased_by_redis:
  assumes "rq_inv G now q"
  shows "leased_by (rq_view G q) i w \<longleftrightarrow> rq_owner q i = Some w"
  by (rule rq_view_cases [OF assms, of i]) (auto simp: leased_by_def)

lemma rq_inv_later: "rq_inv G now q \<Longrightarrow> unix_time now \<Longrightarrow> now \<le> now' \<Longrightarrow> rq_inv G now' q"
  using float64_mono [of now now'] by (force simp: rq_inv_def rq_times_def unix_time_def)

section \<open>Putting back and claiming\<close>

lemma rq_view_cong:
  "rq_payload q' j = rq_payload q j \<Longrightarrow> rq_notBefore q' j = rq_notBefore q j \<Longrightarrow>
    map_of (rq_inflight q') j = map_of (rq_inflight q) j \<Longrightarrow> rq_owner q' j = rq_owner q j \<Longrightarrow> rq_view G q' j = rq_view G q j"
  by (simp add: rq_view_def rq_task_def rq_lease_def split: option.split)

lemma rq_view_at:
  assumes "\<And>j. j \<noteq> i \<Longrightarrow> rq_payload q' j = rq_payload q j \<and> rq_notBefore q' j = rq_notBefore q j \<and>
    map_of (rq_inflight q') j = map_of (rq_inflight q) j \<and> rq_owner q' j = rq_owner q j"
  shows "rq_view G q' = (rq_view G q)(i := rq_view G q' i)"
  using rq_view_cong [of q' _ q G] assms by (auto simp: fun_eq_iff)

lemma rq_view_lease:
  assumes "rq_payload q' = rq_payload q" "rq_notBefore q' = rq_notBefore q"
    and "\<And>j. j \<noteq> i \<Longrightarrow> map_of (rq_inflight q') j = map_of (rq_inflight q) j \<and> rq_owner q' j = rq_owner q j"
  shows "rq_view G q' = (rq_view G q)(i := map_option (\<lambda>(t, l). (t, rq_lease q' i)) (rq_view G q i))"
proof
  fix j
  have "rq_lease q' j = rq_lease q j" if "j \<noteq> i" using assms(3) [OF that] by (simp add: rq_lease_def split: option.split)
  with assms(1,2) show "rq_view G q' j = ((rq_view G q)(i := map_option (\<lambda>(t, l). (t, rq_lease q' i)) (rq_view G q i))) j"
    by (simp add: rq_view_def rq_task_def option.map_comp comp_def)
qed

lemma requeue_one:
  assumes "rq_inv G now q" "map_of (rq_inflight q) i = Some x"
  shows "rq_inv G now (requeue y i q)"
    "rq_view G (requeue y i q) = (rq_view G q)(i := map_option (\<lambda>(t, l). (t, Free)) (rq_view G q i))"
proof -
  from assms obtain nb where nb: "rq_notBefore q i = Some nb" "0 \<le> nb" "map_of (rq_ready q) i = None"
    by (auto intro: rq_view_cases [OF assms(1), of i])
  have q': "requeue y i q = q\<lparr>rq_inflight := ZREM i (rq_inflight q), rq_owner := (rq_owner q)(i := None),
      rq_ready := ZADD (float64 nb) i (rq_ready q)\<rparr>"
    by (simp add: requeue_def nb(1))
  show "rq_inv G now (requeue y i q)"
    using assms nb unfolding q' by (auto simp: rq_inv_def rq_keys_def rq_times_def)
  show "rq_view G (requeue y i q) = (rq_view G q)(i := map_option (\<lambda>(t, l). (t, Free)) (rq_view G q i))"
    unfolding q' by (subst rq_view_lease [of _ q i]) (simp_all add: rq_lease_def)
qed

lemma requeue_all:
  assumes "rq_inv G now q" "distinct is" "\<forall>i \<in> set is. map_of (rq_inflight q) i \<noteq> None"
  shows "rq_inv G now (fold (requeue y) is q)"
    "rq_view G (fold (requeue y) is q) j = (if j \<in> set is then map_option (\<lambda>(t, l). (t, Free)) (rq_view G q j) else rq_view G q j)"
  using assms
proof (induction "is" arbitrary: q)
  case (Cons i "is")
  {
    case 1
    then obtain x where x: "map_of (rq_inflight q) i = Some x" by auto
    have "\<forall>j \<in> set is. map_of (rq_inflight (requeue y i q)) j \<noteq> None" using 1 by (auto simp: requeue_def)
    with Cons.IH(1) [OF requeue_one(1) [OF 1(1) x]] 1(2) show ?case by simp
  next
    case 2
    then obtain x where x: "map_of (rq_inflight q) i = Some x" by auto
    have "\<forall>j \<in> set is. map_of (rq_inflight (requeue y i q)) j \<noteq> None" using 2 by (auto simp: requeue_def)
    with Cons.IH(2) [OF requeue_one(1) [OF 2(1) x]] 2(2) requeue_one(2) [OF 2(1) x] show ?case by auto
  }
qed simp_all

lemma claim_one:
  assumes "rq_inv G now q" "map_of (rq_ready q) i = Some s" "s \<le> float64 now"
    and q': "q' = q\<lparr>rq_ready := ZREM i (rq_ready q), rq_inflight := ZADD x i (rq_inflight q), rq_owner := (rq_owner q)(i \<mapsto> owner)\<rparr>"
  shows "rq_inv G now q'" "rq_view G q' = (rq_view G q)(i := map_option (\<lambda>(t, l). (t, Leased owner x)) (rq_view G q i))"
proof -
  from assms obtain nb where nb: "rq_notBefore q i = Some nb" "float64 nb \<le> float64 now"
    by (auto intro: rq_view_cases [OF assms(1), of i])
  show "rq_inv G now q'"
    using assms(1,2) nb unfolding q' by (auto simp: rq_inv_def rq_keys_def rq_times_def)
  show "rq_view G q' = (rq_view G q)(i := map_option (\<lambda>(t, l). (t, Leased owner x)) (rq_view G q i))"
    unfolding q' by (subst rq_view_lease [of _ q i]) (simp_all add: rq_lease_def)
qed

text \<open>What the script does to the stored tasks: it drops leases that have run out and claims one task.\<close>

lemma dequeue_script:
  assumes "rq_inv G now q" "redisDequeueLua now ms owner q = (r, q')"
  defines "x \<equiv> float64 (float64 now + float64 (float64 ms * 1000000))"
  shows "r = None \<and> rq_inv G now q' \<and> (\<forall>j. lapse (float64 now) (rq_view G q j) (rq_view G q' j)) \<and>
      (\<forall>i t l. rq_view G q i = Some (t, l) \<longrightarrow> available (float64 now) l \<longrightarrow> \<not> runnable (float64 now) t) \<or>
    (\<exists>i b t l. r = Some (i, Some b) \<and> rq_inv G now q' \<and> rq_payload q i = Some b \<and>
      rq_view G q i = Some (t, l) \<and> available (float64 now) l \<and> runnable (float64 now) t \<and>
      rq_view G q' i = Some (t, Leased owner x) \<and> (\<forall>j. j \<noteq> i \<longrightarrow> lapse (float64 now) (rq_view G q j) (rq_view G q' j)))"
proof -
  define es where "es = ZRANGEBYSCORE (float64 now) 100 (rq_inflight q)"
  define q1 where "q1 = fold (requeue (float64 now)) es q"
  note k = rq_inv_keys [OF assms(1)]
  have exp: "\<exists>y. map_of (rq_inflight q) j = Some y \<and> y \<le> float64 now" if "j \<in> set es" for j
    using ZRANGE_member [OF k(2)] that by (simp add: es_def)
  have "distinct es" unfolding es_def by (rule ZRANGE_distinct [OF k(2)])
  from requeue_all [OF assms(1) this, of "float64 now"] exp have inv1: "rq_inv G now q1"
    and view1: "\<And>j. rq_view G q1 j = (if j \<in> set es then map_option (\<lambda>(t, l). (t, Free)) (rq_view G q j) else rq_view G q j)"
    unfolding q1_def by (metis option.distinct(1))+
  have lapse1: "lapse (float64 now) (rq_view G q j) (rq_view G q1 j)" for j
    using exp [of j] view1 [of j] by (auto simp: lapse_def intro: rq_view_cases [OF assms(1), of j])
  have put_back: "\<exists>s. map_of (rq_ready q1) j = Some s \<and> s \<le> float64 now" if j: "j \<in> set es" for j
  proof -
    obtain t nb where "rq_view G q j = Some (t, Leased (the (rq_owner q j)) (the (map_of (rq_inflight q) j)))"
      "task_NotBefore t = float64 nb" "float64 nb \<le> float64 now"
      using exp [OF j] by (auto intro: rq_view_cases [OF assms(1), of j])
    with view1 [of j] j show ?thesis by - (rule rq_view_cases [OF inv1, of j]; auto)
  qed
  show ?thesis
  proof (cases "ZRANGEBYSCORE (float64 now) 1 (rq_ready q1)")
    case Nil
    with assms(2) have r: "r = None" "q' = q1" by (simp_all add: redisDequeueLua_def Let_def es_def q1_def)
    have late: "float64 now < s" if "map_of (rq_ready q1) j = Some s" for j s
      using Nil map_of_SomeD [OF that] by (auto simp: ZRANGE_Nil)
    have "es = []" using put_back late by (metis ex_in_conv not_less set_empty)
    then have q1: "q1 = q" by (simp add: q1_def)
    have leased: "float64 now < y" if "map_of (rq_inflight q) j = Some y" for j y
      using \<open>es = []\<close> map_of_SomeD [OF that] by (auto simp: es_def ZRANGE_Nil)
    have "\<not> runnable (float64 now) t" if "rq_view G q i = Some (t, l)" "available (float64 now) l" for i t l
      by (rule rq_view_cases [OF assms(1), of i])
        (use that late [of i] leased [of i] q1 in \<open>auto simp: runnable_def\<close>)
    with r inv1 lapse1 show ?thesis by blast
  next
    case (Cons i ids)
    with assms(2) have r: "r = Some (i, rq_payload q1 i)"
      and q': "q' = q1\<lparr>rq_ready := ZREM i (rq_ready q1), rq_inflight := ZADD x i (rq_inflight q1), rq_owner := (rq_owner q1)(i \<mapsto> owner)\<rparr>"
      by (simp_all add: redisDequeueLua_def Let_def es_def q1_def x_def)
    have "rq_payload (fold (requeue y) js p) = rq_payload p" for y js p
      by (induction js arbitrary: p) (simp_all add: requeue_def)
    then have pay: "rq_payload q1 = rq_payload q" by (simp add: q1_def)
    obtain s where s: "map_of (rq_ready q1) i = Some s" "s \<le> float64 now"
      using ZRANGE_member [OF rq_inv_keys(1) [OF inv1], of i "float64 now" 1] Cons by auto
    from s obtain b t where t: "rq_view G q1 i = Some (t, Free)" "rq_payload q1 i = Some b" "runnable (float64 now) t"
      by (auto simp: runnable_def intro: rq_view_cases [OF inv1, of i])
    have "rq_view G q i = Some (t, Free) \<or> (\<exists>w y. rq_view G q i = Some (t, Leased w y) \<and> y \<le> float64 now)"
      using lapse1 [of i] unfolding lapse_def t(1) by (elim disjE) (simp, blast)
    then obtain l where l: "rq_view G q i = Some (t, l)" "available (float64 now) l" by auto
    from claim_one [OF inv1 s q'] t(1) lapse1 l t(2,3) r show ?thesis by (auto simp: pay)
  qed
qed

section \<open>The Redis queue meets the contract\<close>

lemma redis_enqueue:
  assumes "rq_inv G now q" "unix_time now" "rq_fresh rand q t" "IsZero (task_NotBefore t) \<or> unix_time (task_NotBefore t)"
    and e: "Redis_Enqueue rand G now None t q = (r, q')"
  shows "rq_inv G now q' \<and> (if r = None then \<exists>i t'. rq_view G q i = None \<and> scheduled float64 now t t' \<and>
        (gob_ok G (task_Payload t) \<longrightarrow> same_job t' t) \<and> rq_view G q' = (rq_view G q)(i \<mapsto> (t', Free))
      else rq_view G q' = rq_view G q)"
proof (cases "r = None")
  case False
  with e have "q' = q \<or> q' = q\<lparr>rq_draws := Suc (rq_draws q)\<rparr>"
    by (cases "rq_assigned rand q t") (auto simp: Redis_Enqueue_def rq_assigned_def Let_def split: sum.splits if_splits)
  then obtain n where q': "q' = q\<lparr>rq_draws := n\<rparr>" by (metis RedisQueue.surjective RedisQueue.update_convs(6))
  have "rq_inv G now q'" using assms(1) unfolding q' by (simp add: rq_inv_def rq_keys_def rq_times_def)
  moreover have "rq_view G q' = rq_view G q" by (rule ext, rule rq_view_cong) (simp_all add: q')
  ultimately show ?thesis using False by auto
next
  case True
  define nb where "nb = (if IsZero (task_NotBefore t) then now else task_NotBefore t)"
  have nb: "UnixNano nb = nb" "0 \<le> nb" using assms(2,4) by (auto simp: nb_def unix_time_def int64_def)
  let ?n = "if task_ID t = '''' then Suc (rq_draws q) else rq_draws q"
  from e True obtain i where i: "rq_assigned rand q t = Inr i"
    by (cases "rq_assigned rand q t") (auto simp: Redis_Enqueue_def rq_assigned_def Let_def split: if_splits)
  then have "(case EncodeTask G (t\<lparr>task_ID := i\<rparr>) of Inl e \<Rightarrow> (Some e, q\<lparr>rq_draws := ?n\<rparr>)
      | Inr b \<Rightarrow> (None, q\<lparr>rq_draws := ?n, rq_payload := (rq_payload q)(i \<mapsto> b), rq_notBefore := (rq_notBefore q)(i \<mapsto> nb),
          rq_ready := ZADD (float64 nb) i (rq_ready q)\<rparr>)) = (r, q')"
    using e nb(1) by (auto simp: Redis_Enqueue_def rq_assigned_def Let_def nb_def split: if_splits sum.splits)
  with True obtain b where c: "EncodeTask G (t\<lparr>task_ID := i\<rparr>) = Inr b"
    and q': "q' = q\<lparr>rq_draws := ?n, rq_payload := (rq_payload q)(i \<mapsto> b),
      rq_notBefore := (rq_notBefore q)(i \<mapsto> nb), rq_ready := ZADD (float64 nb) i (rq_ready q)\<rparr>"
    by (auto split: sum.splits)
  have i: "i \<noteq> ''''" "rq_payload q i = None" using assms(3) i by (simp_all add: rq_fresh_def)
  have new: "map_of (rq_ready q) i = None" "map_of (rq_inflight q) i = None" "rq_owner q i = None"
    using rq_inv_keys(4,6) [OF assms(1), of i] i(2) by simp_all
  from gob_stable_ok [OF _ c] assms(1) obtain v where v: "gob_image G (task_Payload t) = Some v"
    "DecodeTask G b = Inr (t\<lparr>task_ID := i, task_Payload := v\<rparr>)" "gob_ok G v"
    by (auto simp: rq_inv_def)
  let ?t' = "t\<lparr>task_Payload := v, task_ID := i, task_NotBefore := float64 nb\<rparr>"
  have "rq_inv G now q'"
    using assms(1) i nb(2) new v(2,3) unfolding q' rq_inv_def rq_keys_def rq_times_def payload_ok_def by auto
  moreover have "rq_view G q' = (rq_view G q)(i \<mapsto> (?t', Free))"
    using new v(2) by (subst rq_view_at [of i q' q G]) (simp_all add: q' rq_view_def rq_task_def rq_lease_def)
  moreover have "rq_view G q i = None" using i(2) by (simp add: rq_view_def)
  moreover have "scheduled float64 now t ?t'" by (simp add: scheduled_def nb_def)
  moreover have "same_job ?t' t" if "gob_ok G (task_Payload t)" using that v(1) by (simp add: gob_ok_def same_job_def)
  ultimately show ?thesis using True by auto
qed

lemma redis_poll:
  assumes "rq_inv G now q" "unix_time now" and p: "Redis_DequeuePoll G now owner ttl q = (pr, q')"
  shows "rq_inv G now q' \<and> (pr = Inr None \<and> (\<forall>j. lapse (float64 now) (rq_view G q j) (rq_view G q' j)) \<and>
      (\<forall>i t l. rq_view G q i = Some (t, l) \<longrightarrow> available (float64 now) l \<longrightarrow> \<not> runnable (float64 now) t) \<or>
    (\<exists>t t0 l x. pr = Inr (Some t) \<and> rq_view G q (task_ID t) = Some (t0, l) \<and> available (float64 now) l \<and>
      runnable (float64 now) t0 \<and> same_job t t0 \<and> redis_lasts now ttl x \<and> rq_view G q' (task_ID t) = Some (t0, Leased owner x) \<and>
      (\<forall>i. i \<noteq> task_ID t \<longrightarrow> lapse (float64 now) (rq_view G q i) (rq_view G q' i))))"
proof -
  obtain r q1 where r: "redisDequeueLua now (Milliseconds ttl) owner q = (r, q1)" by fastforce
  from dequeue_script [OF assms(1) r] show ?thesis
  proof (elim disjE exE conjE)
    assume "r = None" "rq_inv G now q1"
    with r p assms(2) show ?thesis using dequeue_script [OF assms(1) r] by (auto simp: Redis_DequeuePoll_def)
  next
    fix i b t l
    assume a: "r = Some (i, Some b)" "rq_inv G now q1" "rq_payload q i = Some b" "rq_view G q i = Some (t, l)"
      "available (float64 now) l" "runnable (float64 now) t"
      "rq_view G q1 i = Some (t, Leased owner (float64 (float64 now + float64 (float64 (Milliseconds ttl) * 1000000))))"
      "\<forall>j. j \<noteq> i \<longrightarrow> lapse (float64 now) (rq_view G q j) (rq_view G q1 j)"
    from a(3,4) obtain u where u: "DecodeTask G b = Inr u" "same_job (u\<lparr>task_ID := i\<rparr>) t"
      by - (rule rq_view_cases [OF assms(1), of i]; auto simp: same_job_def)
    have "i \<noteq> ''''" using a(3) rq_inv_keys(7) [OF assms(1)] by auto
    with r p a(1) u(1) assms(2) have "pr = Inr (Some (u\<lparr>task_ID := i\<rparr>))" "q' = q1" by (simp_all add: Redis_DequeuePoll_def)
    with a u show ?thesis by (auto simp: redis_lasts_def)
  qed
qed

lemma redis_renew:
  assumes "rq_inv G now q" "unix_time (now + ttl)" and e: "Redis_RenewTask now i owner ttl q = (r, q')"
  shows "rq_inv G now q' \<and> (if leased_by (rq_view G q) i owner
    then rq_view G q' = (rq_view G q)(i \<mapsto> (fst (the (rq_view G q i)), Leased owner (float64 (now + ttl)))) else rq_view G q' = rq_view G q)"
proof (cases "rq_owner q i = Some owner")
  case True
  then have q': "q' = q\<lparr>rq_inflight := ZADD (float64 (now + ttl)) i (rq_inflight q)\<rparr>"
    using e assms(2) by (simp add: Redis_RenewTask_def redisRenewLua_def)
  from True obtain t nb x where t: "rq_view G q i = Some (t, Leased owner x)" "rq_notBefore q i = Some nb"
    "float64 nb \<le> float64 now" "map_of (rq_ready q) i = None" "map_of (rq_inflight q) i = Some x"
    by - (rule rq_view_cases [OF assms(1), of i]; auto)
  have "rq_inv G now q'" using assms(1) t True unfolding q' by (auto simp: rq_inv_def rq_keys_def rq_times_def)
  moreover have "rq_view G q' = (rq_view G q)(i \<mapsto> (t, Leased owner (float64 (now + ttl))))"
    unfolding q' by (subst rq_view_lease [of _ q i]) (simp_all add: rq_lease_def t True)
  ultimately show ?thesis using leased_by_redis [OF assms(1)] True t(1) by simp
next
  case False
  then have "q' = q" using e by (auto simp: Redis_RenewTask_def redisRenewLua_def split: option.splits)
  with False leased_by_redis [OF assms(1)] assms(1) show ?thesis by simp
qed

lemma redis_ack:
  assumes "rq_inv G now q" and e: "Redis_Ack None i owner q = (r, q')"
  shows "rq_inv G now q' \<and> (leased_by (rq_view G q) i owner \<longrightarrow> r = None) \<and>
    rq_view G q' = (if leased_by (rq_view G q) i owner then (rq_view G q)(i := None) else rq_view G q)"
proof (cases "rq_owner q i = Some owner")
  case True
  then have q': "q' = q\<lparr>rq_inflight := ZREM i (rq_inflight q), rq_owner := (rq_owner q)(i := None),
      rq_payload := (rq_payload q)(i := None), rq_notBefore := (rq_notBefore q)(i := None)\<rparr>" and r: "r = None"
    using e by (simp_all add: Redis_Ack_def redisAckLua_def)
  from True have i: "map_of (rq_ready q) i = None" by - (rule rq_view_cases [OF assms(1), of i]; auto)
  have "rq_inv G now q'" using assms(1) i unfolding q' by (auto simp: rq_inv_def rq_keys_def rq_times_def)
  moreover have "rq_view G q' = (rq_view G q)(i := None)"
    by (subst rq_view_at [of i q' q G]) (simp_all add: q' rq_view_def)
  ultimately show ?thesis using leased_by_redis [OF assms(1)] True r by simp
next
  case False
  then have "q' = q" using e by (auto simp: Redis_Ack_def redisAckLua_def split: option.splits)
  with False leased_by_redis [OF assms(1)] assms(1) show ?thesis by simp
qed

text \<open>\<^verbatim>\<open>Nack\<close> first writes the payload back.\<close>

lemma nack_payload_ok:
  assumes "rq_inv G now q" "rq_payload q i = Some b"
  shows "\<exists>t d. DecodeTask G b = Inr t \<and> nack_payload G i nb n b = Inr d \<and> payload_ok G d \<and>
    DecodeTask G d = Inr (t\<lparr>task_ID := i, task_Attempts := n, task_NotBefore := nb\<rparr>)"
proof -
  from assms obtain t where t: "DecodeTask G b = Inr t" "gob_ok G (task_Payload t)"
    by (auto simp: rq_inv_def payload_ok_def)
  let ?u = "t\<lparr>task_ID := i, task_Attempts := n, task_NotBefore := nb\<rparr>"
  have u: "gob_ok G (task_Payload ?u)" using t(2) by simp
  from gob_ok_EncodeTask [OF u] gob_ok_DecodeTask [OF u] t u show ?thesis
    by (auto simp: nack_payload_def payload_ok_def)
qed

lemma write_payload:
  assumes "rq_inv G now q" "rq_payload q i = Some b" "DecodeTask G b = Inr t" "payload_ok G d"
    "DecodeTask G d = Inr (t\<lparr>task_ID := i, task_Attempts := n, task_NotBefore := nb\<rparr>)"
    and q': "q' = q\<lparr>rq_payload := (rq_payload q)(i \<mapsto> d)\<rparr>"
  shows "rq_inv G now q'" "\<exists>t0 l. rq_view G q i = Some (t0, l) \<and> rq_view G q' = (rq_view G q)(i \<mapsto> (t0\<lparr>task_Attempts := n\<rparr>, l))"
proof -
  have d: "dom ((rq_payload q)(i \<mapsto> d)) = dom (rq_payload q)" using assms(2) by auto
  have n: "rq_payload q' j = None \<longleftrightarrow> rq_payload q j = None" for j using assms(2) by (simp add: q')
  have sel: "rq_ready q' = rq_ready q" "rq_inflight q' = rq_inflight q" "rq_notBefore q' = rq_notBefore q" "rq_owner q' = rq_owner q"
    by (simp_all add: q')
  have "rq_keys q' \<longleftrightarrow> rq_keys q" unfolding rq_keys_def sel n ..
  then have "rq_keys q'" using assms(1) by (simp add: rq_inv_def)
  with assms(1,4) d show "rq_inv G now q'" unfolding q' by (auto simp: rq_inv_def rq_times_def)
  show "\<exists>t0 l. rq_view G q i = Some (t0, l) \<and> rq_view G q' = (rq_view G q)(i \<mapsto> (t0\<lparr>task_Attempts := n\<rparr>, l))"
  proof (intro exI conjI)
    let ?t0 = "t\<lparr>task_ID := i, task_NotBefore := float64 (the (rq_notBefore q i))\<rparr>"
    show "rq_view G q i = Some (?t0, rq_lease q i)" by (simp add: rq_view_def rq_task_def assms(2,3))
    have "rq_lease q' i = rq_lease q i" unfolding rq_lease_def sel ..
    then have "rq_view G q' i = Some (?t0\<lparr>task_Attempts := n\<rparr>, rq_lease q i)"
      using assms(5) by (cases t) (simp add: rq_view_def rq_task_def q')
    with rq_view_at [of i q' q G] show "rq_view G q' = (rq_view G q)(i \<mapsto> (?t0\<lparr>task_Attempts := n\<rparr>, rq_lease q i))"
      by (simp add: q')
  qed
qed

lemma redis_nack:
  assumes "rq_inv G now q" "unix_time nb" and e: "Redis_Nack G None i owner nb n q = (r, q')"
  shows "rq_inv G now q' \<and> (leased_by (rq_view G q) i owner \<longrightarrow> r = None) \<and> (if leased_by (rq_view G q) i owner
    then rq_view G q' = (rq_view G q)(i \<mapsto> ((fst (the (rq_view G q i)))\<lparr>task_NotBefore := float64 nb, task_Attempts := n\<rparr>, Free))
    else \<forall>j. rel_option (rel_prod same_but_attempts (=)) (rq_view G q j) (rq_view G q' j))"
proof (cases "rq_payload q i")
  case None
  then have "q' = q" "rq_owner q i = None" using e rq_inv_keys(4,6) [OF assms(1), of i] by (simp_all add: Redis_Nack_def)
  with assms(1) leased_by_redis [OF assms(1), of i owner] show ?thesis
    by (auto simp: same_but_attempts_def intro!: option.rel_refl prod.rel_refl)
next
  case (Some b)
  from nack_payload_ok [OF assms(1) Some, of nb n] obtain t d where d: "DecodeTask G b = Inr t"
    "nack_payload G i nb n b = Inr d" "payload_ok G d" "DecodeTask G d = Inr (t\<lparr>task_ID := i, task_Attempts := n, task_NotBefore := nb\<rparr>)"
    by blast
  define q1 where "q1 = q\<lparr>rq_payload := (rq_payload q)(i \<mapsto> d)\<rparr>"
  note w = write_payload [OF assms(1) Some d(1,3,4) q1_def]
  from w(2) obtain t0 l where v: "rq_view G q i = Some (t0, l)" "rq_view G q1 = (rq_view G q)(i \<mapsto> (t0\<lparr>task_Attempts := n\<rparr>, l))"
    by blast
  show ?thesis
  proof (cases "rq_owner q i = Some owner")
    case True
    then have q': "q' = q1\<lparr>rq_inflight := ZREM i (rq_inflight q1), rq_owner := (rq_owner q1)(i := None),
        rq_notBefore := (rq_notBefore q1)(i \<mapsto> float64 nb), rq_ready := ZADD (float64 nb) i (rq_ready q1)\<rparr>" and r: "r = None"
      using e assms(2) Some d(2) by (simp_all add: Redis_Nack_def redisNackLua_def q1_def Let_def)
    have fl: "0 \<le> float64 nb" "float64 (float64 nb) = float64 nb"
      using assms(2) float64_nonneg [of nb] float64_idem [of nb] by (simp_all add: unix_time_def)
    have i: "rq_payload q1 i \<noteq> None" "map_of (rq_ready q1) i = None" "i \<noteq> ''''"
      using True rq_inv_keys(3,6) [OF assms(1), of i] rq_inv_keys(7) [OF assms(1)] Some by (auto simp: q1_def)
    have "rq_inv G now q'" using w(1) i fl unfolding q' by (auto simp: rq_inv_def rq_keys_def rq_times_def)
    moreover have "rq_view G q' = (rq_view G q1)(i \<mapsto> (t0\<lparr>task_Attempts := n, task_NotBefore := float64 nb\<rparr>, Free))"
    proof (subst rq_view_at [of i q' q1 G])
      have "rq_view G q' i = Some (t0\<lparr>task_Attempts := n, task_NotBefore := float64 nb\<rparr>, Free)"
        using v Some d(1,4) fl(2) by (auto simp: q' q1_def rq_view_def rq_task_def rq_lease_def)
      then show "(rq_view G q1)(i := rq_view G q' i) =
          (rq_view G q1)(i \<mapsto> (t0\<lparr>task_Attempts := n, task_NotBefore := float64 nb\<rparr>, Free))" by simp
    qed (simp add: q')
    ultimately show ?thesis using leased_by_redis [OF assms(1)] True r v by auto
  next
    case False
    then have "q' = q1" using e Some d(2)
      by (auto simp: Redis_Nack_def redisNackLua_def q1_def Let_def split: option.splits if_splits)
    with False leased_by_redis [OF assms(1)] w(1) v show ?thesis
      by (auto simp: same_but_attempts_def intro!: option.rel_refl prod.rel_refl)
  qed
qed

interpretation redis_queue: leased_queue "redisQueue rand G" "rq_view G" "rq_inv G" unix_time "gob_ok G" "\<lambda>_. True"
  float64 redis_lasts same_but_attempts False "rq_fresh rand"
  for rand G
proof (unfold_locales, goal_cases)
  case (1 now now')
  then show ?case using float64_mono by (simp add: unix_time_def)
next
  case (2 t)
  show ?case by (simp add: same_but_attempts_def)
next
  case (3 t t' t'')
  then show ?case by (simp add: same_but_attempts_def)
next
  case (4 now q now')
  then show ?case using rq_inv_later [of G now q now'] by simp
next
  case (5 now q)
  then show ?case by (auto simp: rq_inv_def rq_view_def dom_def)
next
  case (7 now q t r q')
  from 7(5) have "Redis_Enqueue rand G now None t q = (r, q')" by simp
  from redis_enqueue [OF 7(1-4) this] show ?case .
next
  case (8 now q ttl owner t q')
  then show ?case using redis_poll [of G now q owner ttl "Inr (Some t)" q'] by auto
next
  case (9 now q ttl owner q')
  then show ?case using redis_poll [of G now q owner ttl "Inr None" q'] by auto
next
  case (10 now q ttl owner pr q')
  then show ?case using redis_poll [of G now q owner ttl pr q'] by auto
next
  case (11 now q ttl owner i r q')
  then show ?case using redis_renew [of G now q ttl i owner r q'] by (auto simp: redis_lasts_def)
next
  case (12 now q owner i r q')
  then show ?case using redis_ack [of G now q i owner r q'] by simp
next
  case (13 now q owner i nb n r q')
  then have "Redis_Nack G None i owner nb n q = (r, q')" by simp
  from redis_nack [OF 13(1,4) this] show ?case .
qed simp

section \<open>Properties\<close>

text \<open>A lease of at least a millisecond lasts longer than a rounding error.\<close>

lemma redis_lasts_later:
  assumes "unix_time now" "unix_time (now + ttl)" "Millisecond \<le> ttl" "redis_lasts now ttl x"
  shows "float64 now < x"
proof -
  have now: "0 \<le> now" "now < 2 ^ 63" "now + ttl < 2 ^ 63" "1000000 \<le> ttl"
    using assms(1-3) by (simp_all add: unix_time_def Millisecond_def)
  have fl: "float64 now \<le> now + 1024" "0 \<le> float64 now" "float64 now \<le> 2 ^ 63"
    using float64_near(2) [of now 63] float64_nonneg [of now] float64_mono [of now "2 ^ 63"] float64_exact [of "2 ^ 63" 63] now
    by (simp_all add: power_le_dvd)
  have "float64 now < float64 (now + ttl)" using float64_near(1) [of "now + ttl" 63] fl(1) now by simp
  moreover have "float64 now < float64 (float64 now + float64 (float64 (Milliseconds ttl) * 1000000))"
  proof -
    have "1 \<le> Milliseconds ttl" using now(4) zdiv_mono1 [of 1000000 ttl 1000000] by (simp add: Milliseconds_def Millisecond_def sgn_if)
    then have "1 \<le> float64 (Milliseconds ttl)" using float64_mono [of 1 "Milliseconds ttl"] float64_exact [of 1 0] by simp
    then have "1000000 \<le> float64 (float64 (Milliseconds ttl) * 1000000)"
      using float64_mono [of 1000000 "float64 (Milliseconds ttl) * 1000000"] float64_exact [of 1000000 0] by simp
    then have "float64 (float64 now + 1000000) \<le> float64 (float64 now + float64 (float64 (Milliseconds ttl) * 1000000))"
      using fl(2) by (intro float64_mono) simp_all
    moreover have "float64 now < float64 (float64 now + 1000000)"
      using float64_near(1) [of "float64 now + 1000000" 64] fl(2,3) by simp
    ultimately show ?thesis by linarith
  qed
  ultimately show ?thesis using assms(4) by (auto simp: redis_lasts_def)
qed

definition sample_rand :: "nat \<Rightarrow> goerr + nat list" where
  "sample_rand n = (if n = 0 then Inr [0, 171] else if n = 1 then Inr [1, 205] else Inl (ErrMsg ''entropy''))"

definition redis_task_queue :: "(string \<times> time) option \<Rightarrow> RedisQueue" where
  "redis_task_queue lease = \<lparr>rq_ready = (if lease = None then [(''1'', 0)] else []),
     rq_inflight = (case lease of None \<Rightarrow> [] | Some (w, x) \<Rightarrow> [(''1'', x)]),
     rq_payload = [''1'' \<mapsto> GobConcrete (GobTask leased_task)], rq_notBefore = [''1'' \<mapsto> 0],
     rq_owner = (case lease of None \<Rightarrow> Map.empty | Some (w, x) \<Rightarrow> [''1'' \<mapsto> w]), rq_draws = 0\<rparr>"

lemma plain_gob_stable: "gob_stable plain_gob"
  by (rule gob_stableI) (simp add: plain_gob_def)

lemma redis_task_queue_inv: "0 \<le> now \<Longrightarrow> rq_inv plain_gob now (redis_task_queue lease)"
proof -
  assume "0 \<le> now"
  then have now: "0 \<le> float64 now" using float64_nonneg [of now] by blast
  have "payload_ok plain_gob (GobConcrete (GobTask leased_task))"
    using leased_task_decodes by (auto simp: payload_ok_def leased_task_def zero_Task_def)
  then show ?thesis
    using now plain_gob_stable
    by (auto simp: rq_inv_def rq_keys_def rq_times_def redis_task_queue_def split: option.splits)
qed

lemma redis_task_queue_view:
  "rq_view plain_gob (redis_task_queue lease) = [''1'' \<mapsto>
    (leased_task\<lparr>task_NotBefore := 0\<rparr>, case lease of None \<Rightarrow> Free | Some (w, x) \<Rightarrow> Leased w x)]"
  using leased_task_decodes
  by (auto simp: fun_eq_iff rq_view_def rq_task_def rq_lease_def redis_task_queue_def leased_task_def zero_Task_def split: option.splits)

text \<open>
  C17: A lease of the Redis queue excludes the other workers, and no task is lost. While a task is
  leased and the lease has not run out (in doubles), no sequence of calls by other workers, and no other
  call of its owner's, hands it out or takes the lease away; only the number of its attempts can change.
  And a stored task stays stored, whatever calls are made, until some worker acknowledges it. Both need that
  no task is enqueued under an identifier that is stored at that moment, be it one the caller has set, which
  \<^verbatim>\<open>Enqueue\<close> does not check (the worker sets one when it falls back from a refused \<^verbatim>\<open>Nack\<close>), or a random one. The
  calls are those of workers that have a name and ask for leases of a positive duration.
\<close>

theorem redis_lease_excludes_others:
  assumes "rq_inv G now q" "unix_time now" "qops_ok (redisQueue rand G) (rq_fresh rand) (\<lambda>_. True) unix_time (now, q) ops"
    and "rq_view G q i = Some (t, Leased owner x)" and "qrun (redisQueue rand G) ops (now, q) = (ds, now', q')"
  shows "(float64 now' < x \<and> (\<forall>op \<in> set ops. \<not> touches owner i op) \<longrightarrow>
      (\<exists>n. rq_view G q' i = Some (t\<lparr>task_Attempts := n\<rparr>, Leased owner x)) \<and> (\<forall>(w, t') \<in> set ds. task_ID t' \<noteq> i)) \<and>
    ((\<forall>op \<in> set ops. \<not> acks i op) \<longrightarrow> i \<in> dom (rq_view G q'))"
proof -
  have "\<exists>n. t' = t\<lparr>task_Attempts := n\<rparr>" if "same_but_attempts t t'" for t'
    using that by (cases t; cases t') (simp add: same_but_attempts_def)
  with redis_queue.lease_excludes_others [OF assms] redis_queue.unacked_stays [OF assms(1-3) _ assms(5)] assms(4)
  show ?thesis by (blast intro: domI)
qed

theorem redis_lease_excludes_others_witness:
  "\<exists>n. rq_view plain_gob (snd (snd (qrun (redisQueue sample_rand plain_gob) [QPoll ''w2'' 5, QNack ''1'' ''w2'' 7 3, QTick 99]
     (0, redis_task_queue (Some (''w1'', 100)))))) ''1'' = Some (leased_task\<lparr>task_NotBefore := 0, task_Attempts := n\<rparr>, Leased ''w1'' 100)"
proof -
  let ?ops = "[QPoll ''w2'' 5, QNack ''1'' ''w2'' 7 3, QTick 99]"
  let ?Q = "redisQueue sample_rand plain_gob" and ?q = "redis_task_queue (Some (''w1'', 100))"
  obtain ds now' q' where r: "qrun ?Q ?ops (0, ?q) = (ds, now', q')" by (cases "qrun ?Q ?ops (0, ?q)")
  have "fst (snd (qrun ?Q ?ops (0, ?q))) = 99"
    using fst_snd_qexec [of ?Q "QPoll ''w2'' 5" 0 ?q] by (simp add: qexec_def split_beta)
  then have t: "float64 now' < 100" using float64_exact [of 99 0] unfolding r by simp
  have v: "rq_view plain_gob ?q ''1'' = Some (leased_task\<lparr>task_NotBefore := 0\<rparr>, Leased ''w1'' 100)"
    by (simp add: redis_task_queue_view)
  from redis_lease_excludes_others [OF redis_task_queue_inv _ _ v r] t
  show ?thesis by (simp add: unix_time_def r del: qrun.simps)
qed

text \<open>
  C22: Every runnable task of the Redis queue is delivered. A task that is not leased (or whose lease has
  run out) and whose time has come is handed out to a worker that keeps polling with a lease of at
  least a millisecond, after at most as many polls as there are such tasks: the rounding of times and the
  limit of 100 tasks that a poll puts back do not hold it up.
\<close>

theorem redis_task_delivered:
  assumes "rq_inv G now q" "unix_time now" "unix_time (now + ttl)" "Millisecond \<le> ttl" "owner \<noteq> ''''"
    and "i \<in> claimable (float64 now) (rq_view G q)"
  shows "\<exists>t. (owner, t) \<in> set (fst (qrun (redisQueue rand G)
      (replicate (card (claimable (float64 now) (rq_view G q))) (QPoll owner ttl)) (now, q))) \<and> task_ID t = i"
proof -
  have "0 < ttl" using assms(4) by (simp add: Millisecond_def)
  from redis_queue.polls_deliver [OF assms(1-3) this assms(5) _ redis_lasts_later [OF assms(2-4)] assms(6) order_refl
      prod.collapse [symmetric]] show ?thesis by simp
qed

theorem redis_task_delivered_witness:
  "\<exists>t. (''w2'', t) \<in> set (fst (qrun (redisQueue sample_rand plain_gob)
      (replicate (card (claimable (float64 7) (rq_view plain_gob (redis_task_queue (Some (''w1'', 5)))))) (QPoll ''w2'' Second))
      (7, redis_task_queue (Some (''w1'', 5))))) \<and> task_ID t = ''1''"
proof -
  have "''1'' \<in> claimable (float64 7) (rq_view plain_gob (redis_task_queue (Some (''w1'', 5))))"
    using float64_exact [of 7 0] by (simp add: claimable_def redis_task_queue_view runnable_def)
  with redis_task_delivered [OF redis_task_queue_inv, of 7 Second "''w2''" "''1''" "Some (''w1'', 5)"] show ?thesis
    by (simp add: unix_time_def Millisecond_def Second_def del: qrun.simps)
qed

text \<open>
  \<^verbatim>\<open>Nack\<close> of the Redis queue changes a task its caller does not hold. It reports that the task is
  leased by another owner, and leaves lease and schedule alone, but has already overwritten the number of
  attempts; the count that decides whether the task is tried again is not the holder's any more.
\<close>

theorem redis_nack_of_other_owner:
  assumes "rq_inv G now q" "rq_view G q i = Some (t, Leased holder x)" "owner \<noteq> holder"
  shows "\<exists>q'. Redis_Nack G None i owner nb n q = (Some other_owner, q') \<and>
    rq_view G q' = (rq_view G q)(i \<mapsto> (t\<lparr>task_Attempts := n\<rparr>, Leased holder x))"
proof -
  from assms(2) obtain b where b: "rq_payload q i = Some b" "rq_owner q i = Some holder"
    by - (rule rq_view_cases [OF assms(1), of i]; auto)
  from nack_payload_ok [OF assms(1) b(1), of nb n] obtain u d where d: "DecodeTask G b = Inr u"
    "nack_payload G i nb n b = Inr d" "payload_ok G d" "DecodeTask G d = Inr (u\<lparr>task_ID := i, task_Attempts := n, task_NotBefore := nb\<rparr>)"
    by blast
  from write_payload(2) [OF assms(1) b(1) d(1,3,4) refl] assms(2,3) b d(2) show ?thesis
    by (auto simp: Redis_Nack_def redisNackLua_def Let_def)
qed

theorem redis_nack_of_other_owner_witness:
  "\<exists>q'. Redis_Nack plain_gob None ''1'' ''w2'' 7 9 (redis_task_queue (Some (''w1'', 100))) = (Some other_owner, q') \<and>
     rq_view plain_gob q' ''1'' = Some (leased_task\<lparr>task_NotBefore := 0, task_Attempts := 9\<rparr>, Leased ''w1'' 100)"
proof -
  have v: "rq_view plain_gob (redis_task_queue (Some (''w1'', 100))) ''1'' =
      Some (leased_task\<lparr>task_NotBefore := 0\<rparr>, Leased ''w1'' 100)" by (simp add: redis_task_queue_view)
  from redis_nack_of_other_owner [OF redis_task_queue_inv [of 0] v, of "''w2''" 7 9] show ?thesis by fastforce
qed

end
