(* ===== verification/Redis_Store.thy ===== *)
theory Redis_Store
  imports Redis_Queue
begin

text \<open>
  The Redis instance store, \<^verbatim>\<open>redis/internal/persistence/redis_store.go\<close>, and the engine on it
  (\<^verbatim>\<open>redis/engine.go\<close>). An instance is a string key, the indexes are set keys, and a lease is a key of its
  own that expires; the store meets the contracts \<open>instance_leases\<close>, \<open>lease_keeping_store\<close> and
  \<open>engine_store\<close>.
\<close>

section \<open>Keys\<close>

definition keyLease :: "string \<Rightarrow> string \<Rightarrow> string" where
  "keyLease prefix i = prefix @ ''lease:'' @ i"

definition keyInstance :: "string \<Rightarrow> string \<Rightarrow> string" where
  "keyInstance prefix i = prefix @ ''inst:'' @ i"

definition keyAll :: "string \<Rightarrow> string" where
  "keyAll prefix = prefix @ ''idx:all''"

definition keyWorkflow :: "string \<Rightarrow> string \<Rightarrow> string" where
  "keyWorkflow prefix name = prefix @ ''idx:wf:'' @ name"

definition keyStatus :: "string \<Rightarrow> Status \<Rightarrow> string" where
  "keyStatus prefix status = prefix @ ''idx:status:'' @ status_string status"

text \<open>No two of them are ever the same key, so that each key has one type.\<close>

lemma status_string_inj [simp]: "status_string a = status_string b \<longleftrightarrow> a = b"
  by (cases a; cases b) simp_all

lemma keys_distinct [simp]:
  "keyInstance p i = keyInstance p j \<longleftrightarrow> i = j" "keyLease p i = keyLease p j \<longleftrightarrow> i = j"
  "keyWorkflow p i = keyWorkflow p j \<longleftrightarrow> i = j" "keyStatus p a = keyStatus p b \<longleftrightarrow> a = b"
  "keyWorkflow p i \<noteq> keyStatus p a" "keyStatus p a \<noteq> keyWorkflow p i" "keyAll p \<noteq> keyWorkflow p i" "keyWorkflow p i \<noteq> keyAll p"
  "keyAll p \<noteq> keyStatus p a" "keyStatus p a \<noteq> keyAll p"
  "keyInstance p i \<noteq> keyLease p j" "keyInstance p i \<noteq> keyAll p" "keyInstance p i \<noteq> keyWorkflow p j" "keyInstance p i \<noteq> keyStatus p a"
  "keyLease p i \<noteq> keyAll p" "keyLease p i \<noteq> keyWorkflow p j" "keyLease p i \<noteq> keyStatus p a"
  by (simp_all add: keyInstance_def keyLease_def keyWorkflow_def keyStatus_def keyAll_def)

section \<open>The database\<close>

record redisInstancePayload =
  rp_ID :: string
  rp_Workflow :: string
  rp_Version :: string
  rp_Fingerprint :: string
  rp_Status :: Status
  rp_CurrentStep :: nat
  rp_Input :: bytes
  rp_Output :: bytes
  rp_StepResults :: bytes
  rp_Error :: string

text \<open>
  The keys by type: strings, each the gob stream of a payload (a struct of basic fields, which gob
  sends and rebuilds as it is), sets, and the keys with an expiry, whose value is the owner of a
  lease and whose deadline is in milliseconds of the server's clock, which is taken to be the
  clients' clock.
\<close>

record redis_db =
  rd_strings :: "string \<rightharpoonup> redisInstancePayload"
  rd_sets :: "string \<Rightarrow> string list"
  rd_leases :: "string \<rightharpoonup> string \<times> int"

definition empty_db :: redis_db where
  "empty_db = \<lparr>rd_strings = Map.empty, rd_sets = (\<lambda>_. []), rd_leases = Map.empty\<rparr>"

text \<open>Left open: the server's error for an expiry of zero, and the order in which it lists a set.\<close>

record redis =
  rd_invalid_expire :: goerr
  rd_order :: "string list \<Rightarrow> string list"

definition NewRedisInstanceStore :: "string \<Rightarrow> string" where
  "NewRedisInstanceStore prefix = (if prefix = '''' then ''fluxo:'' else prefix)"

definition SADD :: "string \<Rightarrow> string \<Rightarrow> redis_db \<Rightarrow> redis_db" where
  "SADD k m s = (if m \<in> set (rd_sets s k) then s else s\<lparr>rd_sets := (rd_sets s)(k := rd_sets s k @ [m])\<rparr>)"

text \<open>A key is gone when its deadline has passed.\<close>

definition GET_lease :: "time \<Rightarrow> string \<Rightarrow> redis_db \<Rightarrow> string option" where
  "GET_lease now k s =
     (case rd_leases s k of
        None \<Rightarrow> None
      | Some (owner, deadline) \<Rightarrow> if deadline < now div Millisecond then None else Some owner)"

definition PEXPIRE :: "time \<Rightarrow> int \<Rightarrow> string \<Rightarrow> redis_db \<Rightarrow> redis_db" where
  "PEXPIRE now ttlms k s =
     (case rd_leases s k of
        None \<Rightarrow> s
      | Some (owner, deadline) \<Rightarrow>
          s\<lparr>rd_leases := (rd_leases s)(k := if ttlms \<le> 0 then None else Some (owner, now div Millisecond + ttlms))\<rparr>)"

section \<open>Instances\<close>

definition encodeRedisPayload :: "gob \<Rightarrow> WorkflowInstance \<Rightarrow> goerr + redisInstancePayload" where
  "encodeRedisPayload G inst =
     (case encode_values G inst of
        Inl e \<Rightarrow> Inl e
      | Inr (inBytes, outBytes, stepResultsBytes) \<Rightarrow>
          Inr \<lparr>rp_ID = inst_ID inst, rp_Workflow = inst_Name inst, rp_Version = inst_Version inst,
               rp_Fingerprint = inst_Fingerprint inst, rp_Status = inst_Status inst,
               rp_CurrentStep = inst_CurrentStep inst, rp_Input = inBytes, rp_Output = outBytes,
               rp_StepResults = stepResultsBytes, rp_Error = errStr inst\<rparr>)"

definition decodeRedisPayload :: "gob \<Rightarrow> redisInstancePayload \<Rightarrow> goerr + WorkflowInstance" where
  "decodeRedisPayload G p =
     (case DecodeValue G TAny (rp_Input p) of
        Inl e \<Rightarrow> Inl e
      | Inr inVal \<Rightarrow>
     (case DecodeValue G TAny (rp_Output p) of
        Inl e \<Rightarrow> Inl e
      | Inr outVal \<Rightarrow>
     (case DecodeValue G TMapIntAny (rp_StepResults p) of
        Inl e \<Rightarrow> Inl e
      | Inr stepResultsVal \<Rightarrow>
          Inr \<lparr>inst_ID = rp_ID p, inst_Name = rp_Workflow p, inst_Version = rp_Version p,
               inst_Fingerprint = rp_Fingerprint p, inst_LeaseOwner = '''', inst_LeaseExpiresAt = zero_time,
               inst_Status = rp_Status p, inst_Output = value_of outVal,
               inst_Err = (if rp_Error p = '''' then None else Some (ErrMsg (rp_Error p))),
               inst_Input = value_of inVal, inst_CurrentStep = rp_CurrentStep p,
               inst_StepResults = map_of_gob stepResultsVal\<rparr>)))"

text \<open>The payload is written, then the indexes, in a transaction of their own.\<close>

definition Redis_SaveInstance :: "string \<Rightarrow> gob \<Rightarrow> addr \<Rightarrow> heap \<Rightarrow> redis_db \<Rightarrow> goerr option \<times> redis_db" where
  "Redis_SaveInstance prefix G a h s =
     (let inst = deref h a in
      case encodeRedisPayload G inst of
        Inl e \<Rightarrow> (Some e, s)
      | Inr data \<Rightarrow>
          let s1 = s\<lparr>rd_strings := (rd_strings s)(keyInstance prefix (inst_ID inst) \<mapsto> data)\<rparr>;
              s2 = SADD (keyAll prefix) (inst_ID inst) s1;
              s3 = SADD (keyWorkflow prefix (inst_Name inst)) (inst_ID inst) s2
          in (None, SADD (keyStatus prefix (inst_Status inst)) (inst_ID inst) s3))"

text \<open>The same commands: an update of an instance that does not exist creates it.\<close>

definition Redis_UpdateInstance :: "string \<Rightarrow> gob \<Rightarrow> addr \<Rightarrow> heap \<Rightarrow> redis_db \<Rightarrow> goerr option \<times> redis_db" where
  "Redis_UpdateInstance prefix G a h s =
     (let inst = deref h a in
      case encodeRedisPayload G inst of
        Inl e \<Rightarrow> (Some e, s)
      | Inr data \<Rightarrow>
          let s1 = s\<lparr>rd_strings := (rd_strings s)(keyInstance prefix (inst_ID inst) \<mapsto> data)\<rparr>;
              s2 = SADD (keyAll prefix) (inst_ID inst) s1;
              s3 = SADD (keyWorkflow prefix (inst_Name inst)) (inst_ID inst) s2
          in (None, SADD (keyStatus prefix (inst_Status inst)) (inst_ID inst) s3))"

definition Redis_GetInstance :: "string \<Rightarrow> gob \<Rightarrow> string \<Rightarrow> heap \<Rightarrow> redis_db \<Rightarrow> (goerr + addr) \<times> heap" where
  "Redis_GetInstance prefix G i h s =
     (case rd_strings s (keyInstance prefix i) of
        None \<Rightarrow> (Inl ErrInstanceNotFound, h)
      | Some data \<Rightarrow>
          (case decodeRedisPayload G data of
             Inl e \<Rightarrow> (Inl e, h)
           | Inr inst \<Rightarrow> (let (a, h') = alloc inst h in (Inr a, h'))))"

text \<open>The identifiers a filter selects, from the indexes alone.\<close>

definition list_ids :: "redis \<Rightarrow> string \<Rightarrow> InstanceFilter \<Rightarrow> redis_db \<Rightarrow> string list" where
  "list_ids R prefix f s = rd_order R
     (case filter_Status f of
        Some status \<Rightarrow>
          if filter_WorkflowName f \<noteq> ''''
          then filter (\<lambda>i. i \<in> set (rd_sets s (keyStatus prefix status))) (rd_sets s (keyWorkflow prefix (filter_WorkflowName f)))
          else rd_sets s (keyStatus prefix status)
      | None \<Rightarrow>
          if filter_WorkflowName f \<noteq> '''' then rd_sets s (keyWorkflow prefix (filter_WorkflowName f))
          else rd_sets s (keyAll prefix))"

text \<open>Identifiers without a payload are skipped.\<close>

fun fetch :: "gob \<Rightarrow> redisInstancePayload option list \<Rightarrow> heap \<Rightarrow> (goerr + addr list) \<times> heap" where
  "fetch G [] h = (Inr [], h)"
| "fetch G (None # ds) h = fetch G ds h"
| "fetch G (Some data # ds) h =
     (case decodeRedisPayload G data of
        Inl e \<Rightarrow> (Inl e, h)
      | Inr inst \<Rightarrow>
          let (a, h1) = alloc inst h in
          (case fetch G ds h1 of
             (Inl e, h2) \<Rightarrow> (Inl e, h2)
           | (Inr as, h2) \<Rightarrow> (Inr (a # as), h2)))"

definition Redis_ListInstances :: "redis \<Rightarrow> string \<Rightarrow> gob \<Rightarrow> InstanceFilter \<Rightarrow> heap \<Rightarrow> redis_db \<Rightarrow> (goerr + addr list) \<times> heap" where
  "Redis_ListInstances R prefix G f h s =
     fetch G (map (\<lambda>i. rd_strings s (keyInstance prefix i)) (list_ids R prefix f s)) h"

section \<open>Leases\<close>

definition redisLeaseAcquireLua :: "redis \<Rightarrow> time \<Rightarrow> string \<Rightarrow> string \<Rightarrow> int \<Rightarrow> redis_db \<Rightarrow> (goerr + int) \<times> redis_db" where
  "redisLeaseAcquireLua R now k owner ttlms s =
     (case GET_lease now k s of
        None \<Rightarrow>
          if ttlms \<le> 0 then (Inl (rd_invalid_expire R), s)
          else (Inr 1, s\<lparr>rd_leases := (rd_leases s)(k \<mapsto> (owner, now div Millisecond + ttlms))\<rparr>)
      | Some cur \<Rightarrow> if cur = owner then (Inr 1, PEXPIRE now ttlms k s) else (Inr 0, s))"

definition redisLeaseRenewLua :: "time \<Rightarrow> string \<Rightarrow> string \<Rightarrow> int \<Rightarrow> redis_db \<Rightarrow> int \<times> redis_db" where
  "redisLeaseRenewLua now k owner ttlms s =
     (case GET_lease now k s of
        None \<Rightarrow> (0, s)
      | Some cur \<Rightarrow> if cur = owner then (1, PEXPIRE now ttlms k s) else (0, s))"

definition redisLeaseReleaseLua :: "time \<Rightarrow> string \<Rightarrow> string \<Rightarrow> redis_db \<Rightarrow> int \<times> redis_db" where
  "redisLeaseReleaseLua now k owner s =
     (case GET_lease now k s of
        None \<Rightarrow> (0, s)
      | Some cur \<Rightarrow> if cur = owner then (1, s\<lparr>rd_leases := (rd_leases s)(k := None)\<rparr>) else (0, s))"

definition ttl_error :: goerr where
  "ttl_error = ErrMsg ''ttl must be > 0''"

definition Redis_TryAcquireLease :: "redis \<Rightarrow> string \<Rightarrow> time \<Rightarrow> goerr option \<Rightarrow> string \<Rightarrow> string \<Rightarrow> duration \<Rightarrow> heap \<times> redis_db
     \<Rightarrow> (goerr + bool) \<times> heap \<times> redis_db" where
  "Redis_TryAcquireLease R prefix now cerr i owner ttl hs =
     (let (h, s) = hs in
      if ttl \<le> 0 then (Inl ttl_error, h, s)
      else (case cerr of
              Some e \<Rightarrow> (Inl e, h, s)
            | None \<Rightarrow>
                (case redisLeaseAcquireLua R now (keyLease prefix i) owner (Milliseconds ttl) s of
                   (Inl e, s') \<Rightarrow> (Inl e, h, s')
                 | (Inr v, s') \<Rightarrow> (Inr (v = 1), h, s'))))"

definition Redis_RenewLease :: "string \<Rightarrow> time \<Rightarrow> goerr option \<Rightarrow> string \<Rightarrow> string \<Rightarrow> duration \<Rightarrow> heap \<times> redis_db
     \<Rightarrow> goerr option \<times> heap \<times> redis_db" where
  "Redis_RenewLease prefix now cerr i owner ttl hs =
     (let (h, s) = hs in
      if ttl \<le> 0 then (Some ttl_error, h, s)
      else (case cerr of
              Some e \<Rightarrow> (Some e, h, s)
            | None \<Rightarrow>
                let (v, s') = redisLeaseRenewLua now (keyLease prefix i) owner (Milliseconds ttl) s
                in (if v = 1 then None else Some ErrWorkflowInstanceLocked, h, s')))"

definition Redis_ReleaseLease :: "string \<Rightarrow> time \<Rightarrow> goerr option \<Rightarrow> string \<Rightarrow> string \<Rightarrow> heap \<times> redis_db
     \<Rightarrow> goerr option \<times> heap \<times> redis_db" where
  "Redis_ReleaseLease prefix now cerr i owner hs =
     (let (h, s) = hs in
      case cerr of
        Some e \<Rightarrow> (Some e, h, s)
      | None \<Rightarrow>
          let (v, s') = redisLeaseReleaseLua now (keyLease prefix i) owner s in
          if v = 0
          then (case GET_lease now (keyLease prefix i) s' of
                  None \<Rightarrow> (None, h, s')
                | Some cur \<Rightarrow> (if cur \<noteq> owner \<and> cur \<noteq> '''' then Some ErrWorkflowInstanceLocked else None, h, s'))
          else (None, h, s'))"

definition redisStore :: "redis \<Rightarrow> string \<Rightarrow> gob \<Rightarrow> redis_db InstanceStore" where
  "redisStore R prefix G = \<lparr>is_SaveInstance = Redis_SaveInstance prefix G, is_UpdateInstance = Redis_UpdateInstance prefix G,
     is_GetInstance = Redis_GetInstance prefix G, is_ListInstances = Redis_ListInstances R prefix G,
     is_TryAcquireLease = Redis_TryAcquireLease R prefix, is_RenewLease = Redis_RenewLease prefix,
     is_ReleaseLease = Redis_ReleaseLease prefix\<rparr>"

definition NewRedisEngine :: "redis \<Rightarrow> gob \<Rightarrow> string \<Rightarrow> (fingerprint_payload \<Rightarrow> string) \<Rightarrow> build_info \<Rightarrow> (rat \<Rightarrow> int)
     \<Rightarrow> (redis_db, 'q, 'e) engineImpl" where
  "NewRedisEngine R G rnd digest build conv = NewEngineWithConfig rnd digest build conv
     \<lparr>cfg_Instances = redisStore R (NewRedisInstanceStore ''fluxo:'') G, cfg_Events = None, cfg_Queue = None,
      cfg_EngineID = '''', cfg_LeaseTTL = 0\<rparr>"

lemma redisStore_sel [simp]:
  "is_SaveInstance (redisStore R p G) = Redis_SaveInstance p G" "is_UpdateInstance (redisStore R p G) = Redis_UpdateInstance p G"
  "is_GetInstance (redisStore R p G) = Redis_GetInstance p G" "is_ListInstances (redisStore R p G) = Redis_ListInstances R p G"
  "is_TryAcquireLease (redisStore R p G) = Redis_TryAcquireLease R p" "is_RenewLease (redisStore R p G) = Redis_RenewLease p"
  "is_ReleaseLease (redisStore R p G) = Redis_ReleaseLease p"
  by (simp_all add: redisStore_def)

section \<open>The lease contract\<close>

text \<open>A lease key with a deadline is there until the end of that millisecond.\<close>

definition key_lease :: "redis_db \<Rightarrow> string \<Rightarrow> lease" where
  "key_lease s k = (case rd_leases s k of None \<Rightarrow> Free | Some (w, d) \<Rightarrow> Leased w ((d + 1) * Millisecond))"

definition redis_lease :: "string \<Rightarrow> heap \<times> redis_db \<Rightarrow> string \<Rightarrow> lease option" where
  "redis_lease prefix hs i = Some (key_lease (snd hs) (keyLease prefix i))"

definition redis_lease_ends :: "time \<Rightarrow> duration \<Rightarrow> time \<Rightarrow> bool" where
  "redis_lease_ends now ttl x \<longleftrightarrow> x = (now div Millisecond + Milliseconds ttl + 1) * Millisecond"

lemma deadline_passed: "d < now div Millisecond \<longleftrightarrow> (d + 1) * Millisecond \<le> now"
proof
  have p: "0 < Millisecond" by (simp add: Millisecond_def)
  assume "d < now div Millisecond"
  then have "(d + 1) * Millisecond \<le> now div Millisecond * Millisecond" using p by (intro mult_right_mono) simp_all
  also have "\<dots> \<le> now" using p pos_mod_sign [of Millisecond now] div_mult_mod_eq [of now Millisecond] by linarith
  finally show "(d + 1) * Millisecond \<le> now" .
next
  have p: "0 < Millisecond" by (simp add: Millisecond_def)
  assume "(d + 1) * Millisecond \<le> now"
  with p have "(d + 1) * Millisecond div Millisecond \<le> now div Millisecond" by (intro zdiv_mono1)
  with p show "d < now div Millisecond" by simp
qed

lemma GET_lease_cases:
  obtains "GET_lease now k s = None" "available now (key_lease s k)"
    | w d where "GET_lease now k s = Some w" "rd_leases s k = Some (w, d)" "key_lease s k = Leased w ((d + 1) * Millisecond)"
      "now < (d + 1) * Millisecond"
proof (cases "rd_leases s k")
  case None
  then show thesis by (intro that(1)) (simp_all add: GET_lease_def key_lease_def)
next
  case (Some wd)
  obtain w d where wd: "wd = (w, d)" by (cases wd)
  show thesis
  proof (cases "d < now div Millisecond")
    case True
    with Some wd deadline_passed [of d now] show thesis by (intro that(1)) (simp_all add: GET_lease_def key_lease_def)
  next
    case False
    with Some wd deadline_passed [of d now] show thesis by (intro that(2) [of w d]) (simp_all add: GET_lease_def key_lease_def not_le)
  qed
qed

lemma redis_lease_upd:
  assumes "\<And>k. k \<noteq> keyLease p i \<Longrightarrow> rd_leases s' k = rd_leases s k"
  shows "redis_lease p (h', s') = (redis_lease p (h, s))(i \<mapsto> key_lease s' (keyLease p i))"
  using assms by (simp add: fun_eq_iff redis_lease_def key_lease_def)

lemma redis_lease_store: "rd_leases s' = rd_leases s \<Longrightarrow> redis_lease p (h', s') = redis_lease p (h, s)"
  by (simp add: fun_eq_iff redis_lease_def key_lease_def)

lemma Milliseconds_pos: "Millisecond \<le> ttl \<Longrightarrow> 0 < Milliseconds ttl \<and> 0 < ttl"
  using zdiv_mono1 [of 1000000 ttl 1000000] by (simp add: Milliseconds_def Millisecond_def sgn_if)

lemma redis_acquire:
  assumes "Millisecond \<le> ttl" "Redis_TryAcquireLease R p now None i owner ttl (h, s) = (r, h', s')"
  shows "if available now (key_lease s (keyLease p i)) \<or> (\<exists>x. key_lease s (keyLease p i) = Leased owner x)
    then r = Inr True \<and> (\<exists>x. redis_lease_ends now ttl x \<and> redis_lease p (h', s') = (redis_lease p (h, s))(i \<mapsto> Leased owner x))
    else r \<noteq> Inr True \<and> redis_lease p (h', s') = redis_lease p (h, s)"
proof -
  let ?k = "keyLease p i" and ?d = "now div Millisecond + Milliseconds ttl"
  note pos = Milliseconds_pos [OF assms(1)]
  have new: "redis_lease p (h', s') = (redis_lease p (h, s))(i \<mapsto> Leased owner ((?d + 1) * Millisecond))"
    if "s' = s\<lparr>rd_leases := (rd_leases s)(?k \<mapsto> (owner, ?d))\<rparr>"
    by (subst redis_lease_upd [of p i s' s h' h]) (simp_all add: that key_lease_def)
  show ?thesis
  proof (cases rule: GET_lease_cases [of now ?k s])
    case 1
    with assms(2) pos have "r = Inr True" "s' = s\<lparr>rd_leases := (rd_leases s)(?k \<mapsto> (owner, ?d))\<rparr>"
      by (auto simp: Redis_TryAcquireLease_def redisLeaseAcquireLua_def)
    with 1(2) new show ?thesis by (auto simp: redis_lease_ends_def)
  next
    case (2 w d)
    show ?thesis
    proof (cases "w = owner")
      case True
      with 2 assms(2) pos have "r = Inr True" "s' = s\<lparr>rd_leases := (rd_leases s)(?k \<mapsto> (owner, ?d))\<rparr>"
        by (auto simp: Redis_TryAcquireLease_def redisLeaseAcquireLua_def PEXPIRE_def)
      with 2(3) True new show ?thesis by (auto simp: redis_lease_ends_def)
    next
      case False
      with 2 assms(2) pos have "r = Inr False" "s' = s"
        by (auto simp: Redis_TryAcquireLease_def redisLeaseAcquireLua_def)
      with 2(3,4) False redis_lease_store [of s s p h' h] show ?thesis by simp
    qed
  qed
qed

lemma redis_renew_lease:
  assumes "Millisecond \<le> ttl" "Redis_RenewLease p now None i owner ttl (h, s) = (e, h', s')"
  shows "redis_lease p (h', s') = redis_lease p (h, s) \<and> (\<forall>y. redis_lease p (h, s) i = Some (Leased owner y) \<longrightarrow> y \<le> now) \<or>
    e = None \<and> (\<exists>y x. redis_lease p (h, s) i = Some (Leased owner y) \<and> redis_lease_ends now ttl x \<and>
      redis_lease p (h', s') = (redis_lease p (h, s))(i \<mapsto> Leased owner x))"
proof -
  let ?k = "keyLease p i" and ?d = "now div Millisecond + Milliseconds ttl"
  note pos = Milliseconds_pos [OF assms(1)]
  show ?thesis
  proof (cases rule: GET_lease_cases [of now ?k s])
    case 1
    with assms(2) pos have "s' = s" by (auto simp: Redis_RenewLease_def redisLeaseRenewLua_def)
    with 1(2) redis_lease_store [of s' s p h' h] show ?thesis by (auto simp: redis_lease_def)
  next
    case (2 w d)
    show ?thesis
    proof (cases "w = owner")
      case True
      with 2 assms(2) pos have e: "e = None" and s': "s' = s\<lparr>rd_leases := (rd_leases s)(?k \<mapsto> (owner, ?d))\<rparr>"
        by (auto simp: Redis_RenewLease_def redisLeaseRenewLua_def PEXPIRE_def)
      have "redis_lease p (h', s') = (redis_lease p (h, s))(i \<mapsto> Leased owner ((?d + 1) * Millisecond))"
        by (subst redis_lease_upd [of p i s' s h' h]) (simp_all add: s' key_lease_def)
      moreover have "redis_lease p (h, s) i = Some (Leased owner ((d + 1) * Millisecond))" using 2(3) True by (simp add: redis_lease_def)
      ultimately show ?thesis using e by (auto simp: redis_lease_ends_def)
    next
      case False
      with 2 assms(2) pos have "s' = s" by (auto simp: Redis_RenewLease_def redisLeaseRenewLua_def)
      with 2(3) False redis_lease_store [of s' s p h' h] show ?thesis by (auto simp: redis_lease_def)
    qed
  qed
qed

lemma redis_release:
  assumes "Redis_ReleaseLease p now None i owner (h, s) = (e, h', s')"
  shows "redis_lease p (h', s') = redis_lease p (h, s) \<and> (\<forall>y. redis_lease p (h, s) i = Some (Leased owner y) \<longrightarrow> y \<le> now) \<or>
    (\<exists>y. redis_lease p (h, s) i = Some (Leased owner y) \<and> redis_lease p (h', s') = (redis_lease p (h, s))(i \<mapsto> Free))"
proof (cases rule: GET_lease_cases [of now "keyLease p i" s])
  case 1
  with assms have "s' = s" by (auto simp: Redis_ReleaseLease_def redisLeaseReleaseLua_def)
  with 1(2) redis_lease_store [of s' s p h' h] show ?thesis by (auto simp: redis_lease_def)
next
  case (2 w d)
  show ?thesis
  proof (cases "w = owner")
    case True
    with 2 assms have s': "s' = s\<lparr>rd_leases := (rd_leases s)(keyLease p i := None)\<rparr>"
      by (auto simp: Redis_ReleaseLease_def redisLeaseReleaseLua_def)
    have "redis_lease p (h', s') = (redis_lease p (h, s))(i \<mapsto> Free)"
      by (subst redis_lease_upd [of p i s' s h' h]) (simp_all add: s' key_lease_def)
    with 2(3) True show ?thesis by (auto simp: redis_lease_def)
  next
    case False
    with 2 assms have "s' = s" by (auto simp: Redis_ReleaseLease_def redisLeaseReleaseLua_def split: if_splits)
    with 2(3) False redis_lease_store [of s' s p h' h] show ?thesis by (auto simp: redis_lease_def)
  qed
qed

section \<open>Writing and reading instances\<close>

lemma SADD_sel [simp]:
  "rd_strings (SADD k m s) = rd_strings s" "rd_leases (SADD k m s) = rd_leases s"
  "set (rd_sets (SADD k m s) k') = (if k' = k then insert m (set (rd_sets s k')) else set (rd_sets s k'))"
  by (auto simp: SADD_def)

lemma Redis_Update_is_Save: "Redis_UpdateInstance = Redis_SaveInstance"
  by (simp add: fun_eq_iff Redis_UpdateInstance_def Redis_SaveInstance_def)

text \<open>What a write does to the keys.\<close>

lemma redis_write_cases:
  assumes "Redis_SaveInstance p G a h s = (e, s')"
  obtains "s' = s" "e \<noteq> None" | d where "e = None" "encodeRedisPayload G (deref h a) = Inr d"
    "rd_strings s' = (rd_strings s)(keyInstance p (inst_ID (deref h a)) \<mapsto> d)" "rd_leases s' = rd_leases s"
    "\<And>k. set (rd_sets s k) \<subseteq> set (rd_sets s' k)" "inst_ID (deref h a) \<in> set (rd_sets s' (keyAll p))"
    "inst_ID (deref h a) \<in> set (rd_sets s' (keyWorkflow p (inst_Name (deref h a))))"
    "inst_ID (deref h a) \<in> set (rd_sets s' (keyStatus p (inst_Status (deref h a))))"
proof (cases "encodeRedisPayload G (deref h a)")
  case (Inl e')
  with assms show thesis by (intro that(1)) (auto simp: Redis_SaveInstance_def)
next
  case (Inr d)
  let ?i = "inst_ID (deref h a)"
  have s': "s' = SADD (keyStatus p (inst_Status (deref h a))) ?i (SADD (keyWorkflow p (inst_Name (deref h a))) ?i
      (SADD (keyAll p) ?i (s\<lparr>rd_strings := (rd_strings s)(keyInstance p ?i \<mapsto> d)\<rparr>)))" and e: "e = None"
    using assms Inr by (simp_all add: Redis_SaveInstance_def Let_def)
  show thesis by (rule that(2) [OF e Inr]) (auto simp: s')
qed

text \<open>A key holds the payload of its instance, and the indexes know every instance.\<close>

definition redis_inv :: "string \<Rightarrow> heap \<times> redis_db \<Rightarrow> bool" where
  "redis_inv p hs \<longleftrightarrow> (\<forall>i d. rd_strings (snd hs) (keyInstance p i) = Some d \<longrightarrow> rp_ID d = i \<and>
     i \<in> set (rd_sets (snd hs) (keyAll p)) \<and> i \<in> set (rd_sets (snd hs) (keyWorkflow p (rp_Workflow d))) \<and>
     i \<in> set (rd_sets (snd hs) (keyStatus p (rp_Status d))))"

lemma encode_sel:
  "encodeRedisPayload G x = Inr d \<Longrightarrow> rp_ID d = inst_ID x \<and> rp_Workflow d = inst_Name x \<and> rp_Status d = inst_Status x"
  by (auto simp: encodeRedisPayload_def split: sum.splits)

lemma decode_sel:
  "decodeRedisPayload G d = Inr x \<Longrightarrow> inst_ID x = rp_ID d \<and> inst_Name x = rp_Workflow d \<and> inst_Status x = rp_Status d"
  by (auto simp: decodeRedisPayload_def split: sum.splits)

lemma redis_inv_write:
  assumes "redis_inv p (h, s)" "Redis_SaveInstance p G a h s = (e, s')"
  shows "redis_inv p (g, s') \<and> rd_leases s' = rd_leases s"
  using assms(2)
proof (cases rule: redis_write_cases)
  case 1
  then show ?thesis using assms(1) by (simp add: redis_inv_def)
next
  case (2 d)
  have "rp_ID x = i \<and> i \<in> set (rd_sets s' (keyAll p)) \<and> i \<in> set (rd_sets s' (keyWorkflow p (rp_Workflow x))) \<and>
      i \<in> set (rd_sets s' (keyStatus p (rp_Status x)))" if x: "rd_strings s' (keyInstance p i) = Some x" for i x
  proof (cases "i = inst_ID (deref h a)")
    case True
    with x 2(3) have "x = d" by simp
    with True 2(6-8) encode_sel [OF 2(2)] show ?thesis by simp
  next
    case False
    with x 2(3) have "rd_strings s (keyInstance p i) = Some x" by simp
    with assms(1) 2(5) show ?thesis unfolding redis_inv_def snd_conv by blast
  qed
  then show ?thesis using 2(4) by (simp add: redis_inv_def)
qed

lemma redis_leases_frame:
  "redis_inv p (h, s) \<Longrightarrow> Redis_TryAcquireLease R p now cerr i owner ttl (h, s) = (rb, h', s') \<Longrightarrow> redis_inv p (h', s') \<and> h' = h"
  "redis_inv p (h, s) \<Longrightarrow> Redis_RenewLease p now cerr i owner ttl (h, s) = (err, h', s') \<Longrightarrow> redis_inv p (h', s') \<and> h' = h"
  "redis_inv p (h, s) \<Longrightarrow> Redis_ReleaseLease p now cerr i owner (h, s) = (err, h', s') \<Longrightarrow> redis_inv p (h', s') \<and> h' = h"
  by (auto simp: Redis_TryAcquireLease_def Redis_RenewLease_def Redis_ReleaseLease_def redisLeaseAcquireLua_def
      redisLeaseRenewLua_def redisLeaseReleaseLua_def PEXPIRE_def Let_def redis_inv_def split: option.splits if_splits prod.splits)

interpretation redis_handles: lease_neutral_store "redisStore R p G" "redis_lease p" "redis_inv p" "\<lambda>_. True"
  "\<lambda>ttl. Millisecond \<le> ttl" redis_lease_ends
  for R p G
proof (unfold_locales, goal_cases)
  case (1 hs now ttl owner i r hs')
  obtain h s h' s' where hs: "hs = (h, s)" "hs' = (h', s')" by (cases hs, cases hs')
  from 1 have a: "Redis_TryAcquireLease R p now None i owner ttl (h, s) = (r, h', s')" by (simp add: hs)
  from redis_acquire [OF 1(4) a] redis_leases_frame(1) [OF _ a] 1(1) show ?case
    by (auto simp: hs redis_lease_def [of p "(h, s)" i] split: if_splits)
next
  case (2 hs now ttl owner i e hs')
  obtain h s h' s' where hs: "hs = (h, s)" "hs' = (h', s')" by (cases hs, cases hs')
  from 2 have a: "Redis_RenewLease p now None i owner ttl (h, s) = (e, h', s')" by (simp add: hs)
  from redis_renew_lease [OF 2(4) a] redis_leases_frame(2) [OF _ a] 2(1) show ?case unfolding hs by blast
next
  case (3 hs now owner i e hs')
  obtain h s h' s' where hs: "hs = (h, s)" "hs' = (h', s')" by (cases hs, cases hs')
  from 3 have a: "Redis_ReleaseLease p now None i owner (h, s) = (e, h', s')" by (simp add: hs)
  from redis_release [OF a] redis_leases_frame(3) [OF _ a] 3(1) show ?case unfolding hs by blast
next
  case (4 h s g)
  then show ?case using redis_lease_store [of s s p g h] by (simp add: redis_inv_def)
next
  case (5 h s a e s')
  then show ?case
    using redis_inv_write [of p h s G a e s' h] redis_lease_store [of s' s p h h] by (simp add: Redis_Update_is_Save)
qed

lemma fetch_heap:
  "fetch G ds h = (r, h') \<Longrightarrow> \<exists>g. h' = h @ g \<and> (\<forall>as. r = Inr as \<longrightarrow> (\<forall>a \<in> set as. a < length h'))"
proof (induction G ds h arbitrary: r h' rule: fetch.induct)
  case (3 G d ds h)
  show ?case
  proof (cases "decodeRedisPayload G d")
    case (Inl e)
    with 3 show ?thesis by auto
  next
    case (Inr inst)
    obtain r2 h2 where s: "fetch G ds (h @ [inst]) = (r2, h2)" by (cases "fetch G ds (h @ [inst])")
    from 3(1) [OF Inr, of "(length h, h @ [inst])" "length h" "h @ [inst]" r2 h2] s obtain g where "h2 = (h @ [inst]) @ g"
      "\<forall>as. r2 = Inr as \<longrightarrow> (\<forall>a \<in> set as. a < length h2)" by (auto simp: alloc_def)
    with 3(2) Inr s show ?thesis by (auto simp: alloc_def split: sum.splits)
  qed
qed simp_all

lemma fetch_all:
  "fetch G ds h = (Inr as, h') \<Longrightarrow> Some d \<in> set ds \<Longrightarrow> \<exists>x. decodeRedisPayload G d = Inr x \<and> (\<exists>a \<in> set as. deref h' a = x)"
proof (induction G ds h arbitrary: as h' rule: fetch.induct)
  case (3 G c ds h)
  from 3(2) obtain inst where Inr: "decodeRedisPayload G c = Inr inst" by (auto split: sum.splits)
  obtain r2 h2 where s: "fetch G ds (h @ [inst]) = (r2, h2)" by (cases "fetch G ds (h @ [inst])")
  with 3(2) Inr obtain as2 where as2: "r2 = Inr as2" "as = length h # as2" "h' = h2"
    by (auto simp: alloc_def split: sum.splits)
  show ?case
  proof (cases "d = c")
    case True
    from fetch_heap [OF s] obtain g where "h2 = (h @ [inst]) @ g" by blast
    then have "deref h' (length h) = inst" using as2(3) by (simp add: deref_def nth_append)
    with True Inr as2(2) show ?thesis by auto
  next
    case False
    with 3(3) have "Some d \<in> set ds" by simp
    from 3(1) [OF Inr, of "(length h, h @ [inst])" "length h" "h @ [inst]" as2 h2] s as2 this show ?thesis
      by (auto simp: alloc_def)
  qed
qed auto

interpretation redis_engine: engine_store "redisStore R p G" "redis_inv p"
  for R p G
proof (unfold_locales, goal_cases)
  case (1 h s i r h')
  then show ?case
    by (auto simp: Redis_GetInstance_def alloc_def redis_inv_def dest: decode_sel split: option.splits sum.splits)
next
  case (2 h s f rs h')
  then show ?case using fetch_heap [of G "map (\<lambda>i. rd_strings s (keyInstance p i)) (list_ids R p f s)" h rs h']
    by (auto simp: Redis_ListInstances_def redis_inv_def)
next
  case (3 h s a err s')
  then show ?case using redis_inv_write [of p h s G a err s' h] by simp
next
  case (4 h s a err s')
  then show ?case using redis_inv_write [of p h s G a err s' h] by (simp add: Redis_Update_is_Save)
next
  case (5 h s now cerr i owner ttl rb h' s')
  then show ?case using redis_leases_frame(1) [of p h s R now cerr i owner ttl rb h' s'] by auto
next
  case (6 h s now cerr i owner ttl err h' s')
  then show ?case using redis_leases_frame(2) [of p h s now cerr i owner ttl err h' s'] by auto
next
  case (7 h s now cerr i owner err h' s')
  then show ?case using redis_leases_frame(3) [of p h s now cerr i owner err h' s'] by auto
qed (simp_all add: redis_inv_def)

lemma encode_reload:
  assumes "encodable G x"
  shows "\<exists>d. encodeRedisPayload G x = Inr d \<and> decodeRedisPayload G d = Inr (strip_lease (reload G x))"
proof -
  from assms obtain b1 b2 b3 where b: "encode_values G x = Inr (b1, b2, b3)" by (auto simp: encodable_values)
  let ?d = "\<lparr>rp_ID = inst_ID x, rp_Workflow = inst_Name x, rp_Version = inst_Version x, rp_Fingerprint = inst_Fingerprint x,
    rp_Status = inst_Status x, rp_CurrentStep = inst_CurrentStep x, rp_Input = b1, rp_Output = b2, rp_StepResults = b3,
    rp_Error = errStr x\<rparr>"
  have "encodeRedisPayload G x = Inr ?d" by (simp add: encodeRedisPayload_def b)
  moreover have "decodeRedisPayload G ?d = Inr (strip_lease (reload G x))"
    using encode_decode_values [OF b]
    by (cases "DecodeValue G TAny b1"; cases "DecodeValue G TAny b2"; cases "DecodeValue G TMapIntAny b3")
      (simp_all add: decodeRedisPayload_def strip_lease_def reload_def errStr_def split: option.splits)
  ultimately show ?thesis by blast
qed

lemma encode_decode_payload:
  "storable G x \<Longrightarrow> \<exists>d. encodeRedisPayload G x = Inr d \<and> decodeRedisPayload G d = Inr (strip_lease x)"
  using encode_reload [of G x] storable_encode [of G x] reload_storable [of G x] by (auto simp: encodable_values)

section \<open>What a run leaves in the store\<close>

lemma stored_in_redis: "stored_in (redisStore R p G) i s =
    Option.bind (rd_strings s (keyInstance p i)) (\<lambda>d. case decodeRedisPayload G d of Inl _ \<Rightarrow> None | Inr x \<Rightarrow> Some (strip_lease x))"
  by (auto simp: stored_in_def Redis_GetInstance_def alloc_def deref_def split: option.splits sum.splits)

lemma redis_release_strings: "Redis_ReleaseLease p now cerr i owner (h, s) = (err, h', s') \<Longrightarrow> rd_strings s' = rd_strings s"
  by (auto simp: Redis_ReleaseLease_def redisLeaseReleaseLua_def Let_def split: option.splits if_splits prod.splits)

text \<open>A save never fails on an identifier in use, and an update creates: every identifier is fresh and saved.\<close>

interpretation redis_durable: durable_store "redisStore R p G" "redis_inv p" key "\<lambda>_. True" "\<lambda>_. True" "encodable G"
  "\<lambda>x. strip_lease (reload G x)" "stored_in (redisStore R p G) (fst key)"
  for R p G key
proof (unfold_locales, goal_cases)
  case (1 h s a err s')
  with encode_reload [of G "deref h a"] show ?case by (auto simp: Redis_SaveInstance_def Let_def)
next
  case (2 y x)
  then show ?case by (rule encodable_new)
next
  case (9 h s now cerr j owner err h' s')
  then show ?case using redis_release_strings by (simp add: stored_in_redis)
next
  case (8 h a s err s')
  then have "\<not> encodable G (deref h a)" by simp
  with 8(2) show ?case by (auto simp: encodable_values encodeRedisPayload_def Redis_UpdateInstance_def Let_def split: sum.splits)
next
  case (10 h s a err s')
  then have "encodable G (deref h a)" by simp
  from encode_reload [OF this] obtain d where d: "encodeRedisPayload G (deref h a) = Inr d"
    "decodeRedisPayload G d = Inr (strip_lease (reload G (deref h a)))" by blast
  have "rd_strings s' (keyInstance p (fst key)) = Some d"
    using 10(5) d(1)
    by - (rule redis_write_cases [of p G a h s err s'],
        auto simp: Redis_Update_is_Save Redis_SaveInstance_def Let_def 10(3) [symmetric] identity_def)
  with d(2) show ?case by (simp add: stored_in_redis) (simp add: strip_lease_def)
qed simp_all

section \<open>Properties\<close>

text \<open>
  C27: An instance survives the Redis store, its lease apart. If gob can encode its values, \<^verbatim>\<open>SaveInstance\<close> and
  \<^verbatim>\<open>UpdateInstance\<close> do the same and succeed whether the identifier is in use or not (a save overwrites, an
  update creates), \<^verbatim>\<open>GetInstance\<close> then returns a new object that is the one written as \<open>reload\<close> gives it (the values
  that gob rebuilds, a map of results that is not nil, and of an error only its text) with empty lease
  fields, and no other instance and no lease is affected. The object is equal to the one written but for the lease
  fields if it is \<open>storable\<close>: gob rebuilds its values as they are, its map of step results is not nil, and it has no
  error or a plain one with a non-empty message.
\<close>

theorem redis_instance_roundtrip:
  assumes "encodable G (deref h a)" "i = inst_ID (deref h a)" "y = reload G (deref h a)"
  shows "(storable G (deref h a) \<longrightarrow> y = deref h a) \<and>
    (\<exists>s'. Redis_SaveInstance p G a h s = (None, s') \<and> Redis_UpdateInstance p G a h s = (None, s') \<and>
      Redis_GetInstance p G i g s' = (Inr (length g), g @ [strip_lease y]) \<and>
      (\<forall>j. j \<noteq> i \<longrightarrow> Redis_GetInstance p G j g s' = Redis_GetInstance p G j g s) \<and>
      redis_lease p (h, s') = redis_lease p (h, s))"
proof -
  from encode_reload [OF assms(1)] obtain d where d: "encodeRedisPayload G (deref h a) = Inr d"
    "decodeRedisPayload G d = Inr (strip_lease y)" using assms(3) by blast
  have st: "storable G (deref h a) \<longrightarrow> y = deref h a" using reload_storable assms(3) by simp
  obtain e s' where s': "Redis_SaveInstance p G a h s = (e, s')" by fastforce
  then show ?thesis
  proof (cases rule: redis_write_cases)
    case 1
    then show ?thesis using s' d(1) by (auto simp: Redis_SaveInstance_def Let_def)
  next
    case (2 d')
    with d have [simp]: "d' = d" by simp
    from 2 s' d st redis_lease_store [of s' s p h h] assms(2) show ?thesis
      by (auto simp: Redis_Update_is_Save Redis_GetInstance_def alloc_def)
  qed
qed

definition sample_redis :: redis where
  "sample_redis = \<lparr>rd_invalid_expire = ErrMsg ''ERR invalid expire time'', rd_order = rev\<rparr>"

theorem redis_instance_roundtrip_witness:
  "\<exists>s'. Redis_SaveInstance ''fluxo:'' plain_gob 0 [stored_inst] empty_db = (None, s') \<and>
     Redis_GetInstance ''fluxo:'' plain_gob ''wf-1'' [] s' = (Inr 0, [stored_inst])"
proof -
  have d: "deref [stored_inst] 0 = stored_inst" "inst_ID stored_inst = ''wf-1''" "strip_lease stored_inst = stored_inst"
    by (simp_all add: deref_def stored_inst_def strip_lease_def)
  have e: "encodable plain_gob stored_inst" using storable_encode [OF stored_inst_storable] by (simp add: encodable_values)
  from redis_instance_roundtrip [of plain_gob "[stored_inst]" 0 "''wf-1''" _ "''fluxo:''" empty_db "[]", unfolded d,
      OF e refl refl] stored_inst_storable d(3) show ?thesis by auto
qed

text \<open>
  The databases that the operations of the store lead to, from an empty one: saves and updates of any objects of
  any heaps, and lease calls, of any clients and in any order.
\<close>

inductive redis_reachable :: "redis \<Rightarrow> string \<Rightarrow> gob \<Rightarrow> redis_db \<Rightarrow> bool" for R p G where
  reach_empty: "redis_reachable R p G empty_db"
| reach_save: "redis_reachable R p G s \<Longrightarrow> Redis_SaveInstance p G a h s = (err, s') \<Longrightarrow> redis_reachable R p G s'"
| reach_update: "redis_reachable R p G s \<Longrightarrow> Redis_UpdateInstance p G a h s = (err, s') \<Longrightarrow> redis_reachable R p G s'"
| reach_acquire: "redis_reachable R p G s \<Longrightarrow> Redis_TryAcquireLease R p now cerr i owner ttl (h, s) = (rb, h', s') \<Longrightarrow>
    redis_reachable R p G s'"
| reach_renew: "redis_reachable R p G s \<Longrightarrow> Redis_RenewLease p now cerr i owner ttl (h, s) = (err, h', s') \<Longrightarrow>
    redis_reachable R p G s'"
| reach_release: "redis_reachable R p G s \<Longrightarrow> Redis_ReleaseLease p now cerr i owner (h, s) = (err, h', s') \<Longrightarrow>
    redis_reachable R p G s'"

text \<open>In all of them the indexes know every instance.\<close>

lemma redis_reachable_inv: "redis_reachable R p G s \<Longrightarrow> redis_inv p (h, s)"
proof (induction arbitrary: h rule: redis_reachable.induct)
  case reach_empty
  show ?case by (simp add: redis_inv_def empty_db_def)
next
  case (reach_save s a k err s')
  then show ?case using redis_inv_write by blast
next
  case (reach_update s a k err s')
  then show ?case using redis_inv_write unfolding Redis_Update_is_Save by blast
next
  case (reach_acquire s now cerr i owner ttl k rb k' s')
  then show ?case using redis_leases_frame(1) [OF _ reach_acquire.hyps(2)] by (auto simp: redis_inv_def)
next
  case (reach_renew s now cerr i owner ttl k err k' s')
  then show ?case using redis_leases_frame(2) [OF _ reach_renew.hyps(2)] by (auto simp: redis_inv_def)
next
  case (reach_release s now cerr i owner k err k' s')
  then show ?case using redis_leases_frame(3) [OF _ reach_release.hyps(2)] by (auto simp: redis_inv_def)
qed

text \<open>
  C28: Listing the instances of the Redis store. After any sequence of saves, updates and lease calls on an empty
  database, every stored instance that matches the filter is listed: the operations keep the indexes complete. But
  the indexes keep the old status of an instance that is saved in one status and
  updated to another one, and \<^verbatim>\<open>ListInstances\<close> does not look at the payloads: a list by the old status
  contains the instance, in its new status. (The server is taken to carry out the commands: the error of the
  transaction that writes the indexes, which the store ignores, is not modelled.)
\<close>

theorem redis_list_instances:
  assumes "redis_reachable R p G s" "\<forall>xs. set (rd_order R xs) = set xs"
  shows "(rd_strings s (keyInstance p i) = Some d \<and> decodeRedisPayload G d = Inr x \<and> matches_filter f x \<and>
        Redis_ListInstances R p G f h s = (Inr as, h') \<longrightarrow> (\<exists>c \<in> set as. deref h' c = x)) \<and>
    (Redis_SaveInstance p G a h s = (None, s1) \<and> inst_Status (deref h a) = old \<and>
        Redis_UpdateInstance p G b h s1 = (None, s2) \<and> inst_ID (deref h b) = inst_ID (deref h a) \<and>
        Redis_ListInstances R p G \<lparr>filter_WorkflowName = '''', filter_Status = Some old\<rparr> h s2 = (Inr bs, h2) \<longrightarrow>
      (\<exists>c \<in> set bs. inst_ID (deref h2 c) = inst_ID (deref h a) \<and> inst_Status (deref h2 c) = inst_Status (deref h b)))"
proof (intro conjI impI)
  assume a: "rd_strings s (keyInstance p i) = Some d \<and> decodeRedisPayload G d = Inr x \<and> matches_filter f x \<and>
    Redis_ListInstances R p G f h s = (Inr as, h')"
  then have "i \<in> set (rd_sets s (keyAll p))" "i \<in> set (rd_sets s (keyWorkflow p (inst_Name x)))"
    "i \<in> set (rd_sets s (keyStatus p (inst_Status x)))"
    using redis_reachable_inv [OF assms(1), of h] decode_sel [of G d x] by (auto simp: redis_inv_def)
  then have "i \<in> set (list_ids R p f s)"
    using a assms(2) by (auto simp: list_ids_def matches_filter_def split: option.splits)
  then have "Some d \<in> set (map (\<lambda>i. rd_strings s (keyInstance p i)) (list_ids R p f s))"
    using a by (metis (mono_tags, lifting) image_eqI image_set)
  with a fetch_all [of G _ h as h' d] show "\<exists>c \<in> set as. deref h' c = x" by (auto simp: Redis_ListInstances_def)
next
  assume a: "Redis_SaveInstance p G a h s = (None, s1) \<and> inst_Status (deref h a) = old \<and>
    Redis_UpdateInstance p G b h s1 = (None, s2) \<and> inst_ID (deref h b) = inst_ID (deref h a) \<and>
    Redis_ListInstances R p G \<lparr>filter_WorkflowName = '''', filter_Status = Some old\<rparr> h s2 = (Inr bs, h2)"
  let ?i = "inst_ID (deref h a)" and ?f = "\<lparr>filter_WorkflowName = '''', filter_Status = Some old\<rparr>"
  have 1: "?i \<in> set (rd_sets s1 (keyStatus p old))" using a redis_write_cases [of p G a h s None s1] by metis
  obtain d where d: "encodeRedisPayload G (deref h b) = Inr d" "rd_strings s2 = (rd_strings s1)(keyInstance p ?i \<mapsto> d)"
    "set (rd_sets s1 (keyStatus p old)) \<subseteq> set (rd_sets s2 (keyStatus p old))"
    using a redis_write_cases [of p G b h s1 None s2] unfolding Redis_Update_is_Save by metis
  have "?i \<in> set (list_ids R p ?f s2)" using 1 d(3) assms(2) by (auto simp: list_ids_def)
  then have "Some d \<in> set (map (\<lambda>i. rd_strings s2 (keyInstance p i)) (list_ids R p ?f s2))" using d(2) by force
  from fetch_all [OF _ this, of G h bs h2] a obtain x where "decodeRedisPayload G d = Inr x" "\<exists>c \<in> set bs. deref h2 c = x"
    by (auto simp: Redis_ListInstances_def)
  with decode_sel [of G d x] encode_sel [OF d(1)] a
  show "\<exists>c \<in> set bs. inst_ID (deref h2 c) = ?i \<and> inst_Status (deref h2 c) = inst_Status (deref h b)" by auto
qed

theorem redis_list_instances_witness:
  "\<exists>s1 s2 bs h2. Redis_SaveInstance ''p:'' plain_gob 0 [stored_inst, stored_inst\<lparr>inst_Status := StatusCompleted\<rparr>] empty_db = (None, s1) \<and>
     Redis_UpdateInstance ''p:'' plain_gob 1 [stored_inst, stored_inst\<lparr>inst_Status := StatusCompleted\<rparr>] s1 = (None, s2) \<and>
     Redis_ListInstances sample_redis ''p:'' plain_gob \<lparr>filter_WorkflowName = '''', filter_Status = Some StatusFailed\<rparr>
       [stored_inst, stored_inst\<lparr>inst_Status := StatusCompleted\<rparr>] s2 = (Inr bs, h2) \<and>
     (\<exists>c \<in> set bs. inst_Status (deref h2 c) = StatusCompleted) \<and>
     (\<exists>as h3. Redis_ListInstances sample_redis ''p:'' plain_gob \<lparr>filter_WorkflowName = '''', filter_Status = Some StatusCompleted\<rparr>
       [stored_inst, stored_inst\<lparr>inst_Status := StatusCompleted\<rparr>] s2 = (Inr as, h3) \<and>
       (\<exists>c \<in> set as. deref h3 c = strip_lease (stored_inst\<lparr>inst_Status := StatusCompleted\<rparr>)))"
proof -
  let ?y = "stored_inst\<lparr>inst_Status := StatusCompleted\<rparr>"
  let ?h = "[stored_inst, ?y]"
  let ?f = "\<lparr>filter_WorkflowName = '''', filter_Status = Some StatusFailed\<rparr>"
  have d: "deref ?h 0 = stored_inst" "deref ?h 1 = ?y" by (simp_all add: deref_def)
  have sy: "storable plain_gob ?y" using stored_inst_storable by (simp add: storable_def)
  from encode_decode_payload [OF stored_inst_storable] encode_decode_payload [OF sy]
  obtain b c where b: "encodeRedisPayload plain_gob stored_inst = Inr b"
    and c: "encodeRedisPayload plain_gob ?y = Inr c" "decodeRedisPayload plain_gob c = Inr (strip_lease ?y)" by blast
  obtain s1 where s1: "Redis_SaveInstance ''p:'' plain_gob 0 ?h empty_db = (None, s1)"
    by (simp add: Redis_SaveInstance_def Let_def d b)
  obtain s2 where s2: "Redis_UpdateInstance ''p:'' plain_gob 1 ?h s1 = (None, s2)"
    using d by (simp add: Redis_UpdateInstance_def Let_def c)
  have id: "inst_ID stored_inst = ''wf-1''" "inst_Name stored_inst = ''order''" "inst_Status stored_inst = StatusFailed"
    by (simp_all add: stored_inst_def)
  have st: "rd_sets s2 (keyStatus ''p:'' StatusFailed) = [''wf-1'']" "rd_strings s2 (keyInstance ''p:'' ''wf-1'') = Some c"
    using s1 s2 d by (auto simp: Redis_SaveInstance_def Redis_UpdateInstance_def Let_def b c SADD_def empty_db_def id)
  have l: "Redis_ListInstances sample_redis ''p:'' plain_gob ?f ?h s2 = (Inr [2], ?h @ [strip_lease ?y])"
    by (simp add: Redis_ListInstances_def list_ids_def sample_redis_def st c(2) alloc_def)
  let ?g = "\<lparr>filter_WorkflowName = '''', filter_Status = Some StatusCompleted\<rparr>"
  have "rd_sets s2 (keyStatus ''p:'' StatusCompleted) = [''wf-1'']"
    using s1 s2 d by (auto simp: Redis_SaveInstance_def Redis_UpdateInstance_def Let_def b c SADD_def empty_db_def id)
  then have l2: "Redis_ListInstances sample_redis ''p:'' plain_gob ?g ?h s2 = (Inr [2], ?h @ [strip_lease ?y])"
    by (simp add: Redis_ListInstances_def list_ids_def sample_redis_def st c(2) alloc_def)
  have i: "redis_reachable sample_redis ''p:'' plain_gob empty_db" "redis_reachable sample_redis ''p:'' plain_gob s2"
    using reach_update [OF reach_save [OF reach_empty s1] s2] by (simp_all add: reach_empty)
  have o: "\<forall>xs. set (rd_order sample_redis xs) = set xs" by (simp add: sample_redis_def)
  have "\<exists>c \<in> set [2]. deref (?h @ [strip_lease ?y]) c = strip_lease ?y"
    using redis_list_instances [OF i(2) o, of "''wf-1''" c "strip_lease ?y" ?g ?h "[2]" "?h @ [strip_lease ?y]"] st c(2) l2
    by (simp add: matches_filter_def)
  with redis_list_instances [OF i(1) o, where a = 0 and b = 1 and old = StatusFailed and ?s1.0 = s1 and ?s2.0 = s2
      and bs = "[2]" and ?h2.0 = "?h @ [strip_lease ?y]"] s1 s2 l l2 d id show ?thesis by auto
qed

text \<open>
  C19: What an engine has leased stays leased while it writes. In the MongoDB and in the Redis store, once an
  engine has acquired the lease of an instance, no updates of any instances, through whatever objects, and no lease
  calls of other engines that follow them, in any order, take the lease away or give it to anyone until it ends: after the
  time asked for (MongoDB), or at the end of the millisecond that the time asked for, cut to whole
  milliseconds, leads to (Redis).
\<close>

theorem acquired_lease_survives_updates:
  assumes "owner \<noteq> ''''" "\<forall>op \<in> set ops. \<not> lop_by owner i op"
    and "lrun (mongoStore M cursor G) ops (now, h3, run_updates (mongoStore M cursor G) ws s2) = (gs, now1, hs1)"
    and "lrun (redisStore R p G) ops (now, h3, run_updates (redisStore R p G) ws d2) = (es, now2, hs2)"
  shows "(mongo_inv (h, s) \<and> int64 now \<and> int64 (now + ttl) \<and> 0 < ttl \<and> lops_ok (\<lambda>ttl. 0 < ttl) int64 now ops \<and>
        Mongo_TryAcquireLease now None i owner ttl (h, s) = (Inr True, h2, s2) \<and> now1 < now + ttl \<longrightarrow>
      mongo_lease hs1 i = Some (Leased owner (now + ttl)) \<and> (\<forall>w. (i, w) \<notin> set gs)) \<and>
    (redis_inv p (h, d) \<and> Millisecond \<le> ttl \<and> lops_ok (\<lambda>ttl. Millisecond \<le> ttl) (\<lambda>_. True) now ops \<and>
        Redis_TryAcquireLease R p now None i owner ttl (h, d) = (Inr True, h2, d2) \<and>
        now2 < (now div Millisecond + Milliseconds ttl + 1) * Millisecond \<longrightarrow>
      redis_lease p hs2 i = Some (Leased owner ((now div Millisecond + Milliseconds ttl + 1) * Millisecond)) \<and>
      (\<forall>w. (i, w) \<notin> set es))"
  using mongo_handles.lease_survives_updates [OF _ _ _ _ assms(1) _ assms(3) _ assms(2), of h s ttl h2]
    redis_handles.lease_survives_updates [OF _ _ _ _ assms(1) _ assms(4) _ assms(2), of h d ttl h2]
  by (auto simp: redis_lease_ends_def)

theorem acquired_lease_survives_updates_witness:
  "redis_lease ''p:'' (snd (snd (lrun (redisStore sample_redis ''p:'' plain_gob) [LAcquire ''wf-1'' ''e2'' Second, LTick 5]
     (0, [stored_inst], run_updates (redisStore sample_redis ''p:'' plain_gob) [(0, [stored_inst])]
        (empty_db\<lparr>rd_leases := [keyLease ''p:'' ''wf-1'' \<mapsto> (''e1'', 1000)]\<rparr>))))) ''wf-1'' =
   Some (Leased ''e1'' (1001 * Millisecond))"
proof -
  let ?S = "redisStore sample_redis ''p:'' plain_gob" and ?ops = "[LAcquire ''wf-1'' ''e2'' Second, LTick 5]"
  let ?d2 = "empty_db\<lparr>rd_leases := [keyLease ''p:'' ''wf-1'' \<mapsto> (''e1'', 1000)]\<rparr>"
  let ?M = "mongoStore sample_mongo rev plain_gob"
  have acq: "Redis_TryAcquireLease sample_redis ''p:'' 0 None ''wf-1'' ''e1'' Second ([], empty_db) = (Inr True, [], ?d2)"
    by (simp add: Redis_TryAcquireLease_def redisLeaseAcquireLua_def GET_lease_def empty_db_def Milliseconds_def Second_def Millisecond_def)
  obtain gs now1 hs1 where m: "lrun ?M ?ops (0, [stored_inst], run_updates ?M [(0, [stored_inst])] []) = (gs, now1, hs1)"
    by (metis prod_cases3)
  obtain es now2 hs2 where r: "lrun ?S ?ops (0, [stored_inst], run_updates ?S [(0, [stored_inst])] ?d2) = (es, now2, hs2)"
    by (metis prod_cases3)
  have "fst (snd (lrun ?S ?ops (0, [stored_inst], run_updates ?S [(0, [stored_inst])] ?d2))) = 5"
    using fst_snd_lexec [of ?S "LAcquire ''wf-1'' ''e2'' Second" 0 "([stored_inst], run_updates ?S [(0, [stored_inst])] ?d2)"]
    by (simp add: lexec_def split_beta)
  then have "now2 = 5" unfolding r by simp
  with acquired_lease_survives_updates [OF _ _ m r, of "''e1''" "''wf-1''" "[]" "[]" Second "[]" empty_db] acq show ?thesis
    unfolding r by (simp add: redis_inv_def empty_db_def Milliseconds_def Second_def Millisecond_def)
qed

end
