(* ===== verification/Durability.thy ===== *)
theory Durability
  imports Redis_Store
begin

text \<open>
  The engine with its stores: what an operation reports of an instance is what the store holds when
  it returns, if the values of the instance can be encoded, and what happens if they cannot. At the
  end the worker and its queue are added: what has left the queue is in the store.
\<close>

section \<open>Reported and stored\<close>

text \<open>The SQLite store, as an instance of \<open>durable_store\<close>.\<close>

lemma sqlite_returned_synced:
  assumes "e_instances e = sqliteStore G" "wf_world sql_inv w" "ctx_wf c"
    and "find_row (fst (nextInstanceID w)) (w_store w) = None"
    and "returns_instance e (step_runner e n d) c a w w'" and "encodable G (w_inst w' a)"
  shows "synced (stored_in (sqliteStore G) (inst_ID (w_inst w' a))) (\<lambda>x. strip_lease (reload G x)) w' a"
  using assms(5)
proof (cases rule: returns_instance_cases)
  case (new def name version v erro)
  let ?key = "(fst (nextInstanceID w), def_Version def, def_Fingerprint def)"
  from sqlite_durable.Run_synced [where key = ?key, OF assms(1,3) sqlite_engine.step_runner_frame [OF assms(1)]
      sqlite_durable.kept.step_runner_frame [OF assms(1)] assms(2) _ refl new] assms(4,6)
  show ?thesis by (simp add: core_def)
next
  case (old i b h name payload erro)
  let ?key = "identity (deref h b)"
  have i: "fst ?key = i" using sqlite_engine.get_law [OF _ old(1) [unfolded assms(1)]] assms(2) by (simp add: wf_world_def identity_def)
  from sqlite_durable.taken_over_synced [where key = ?key, OF assms(1) sqlite_durable.kept.step_runner_frame [OF assms(1)] assms(3,2)
      old(1) [unfolded assms(1), folded i] refl old(2) [folded i]] assms(6)
  show ?thesis by (simp add: core_def)
qed

text \<open>
  C4: What the engine reports is what SQLite holds. Whenever \<^verbatim>\<open>Run\<close>, \<^verbatim>\<open>RunVersion\<close>, \<^verbatim>\<open>ResumeNow\<close> or \<^verbatim>\<open>SignalNow\<close>
  returns an instance, be it completed, failed, cancelled or waiting, with or without an error, and the
  values of that instance can be encoded, then \<^verbatim>\<open>GetInstance\<close> of the store yields the same status, step,
  input, output and results, and the text of the same error, up to the lease and to what gob does not
  transmit. The same holds for an instance that \<^verbatim>\<open>RunInstance\<close> returns without an error. This is so
  although the engine ignores the errors of the updates it makes on the way and whatever the steps
  do, child workflows included. A new instance needs an identifier that is not in the table.
\<close>

theorem sqlite_holds_what_is_reported:
  assumes "e_instances e = sqliteStore G" "wf_world sql_inv w" "ctx_wf c"
    and "find_row (fst (nextInstanceID w)) (w_store w) = None"
    and "returns_instance e (step_runner e n d) c a w w'" and "encodable G (w_inst w' a)"
  shows "stored_in (sqliteStore G) (inst_ID (w_inst w' a)) (w_store w') = Some (strip_lease (reload G (w_inst w' a)))"
  using sqlite_returned_synced [OF assms] by (simp add: synced_def core_def)

text \<open>A workflow of one step that increments a number, on an empty SQLite database.\<close>

definition one_step_def :: "(anyv \<Rightarrow> goerr + anyv) \<Rightarrow> unit WorkflowDefinition" where
  "one_step_def g = \<lparr>def_Name = ''one'', def_Version = ''v1'', def_Fingerprint = ''fp'',
     def_Steps = [pure_step ''inc'' ''main.inc'' g None]\<rparr>"

definition one_step_world :: "(anyv \<Rightarrow> goerr + anyv) \<Rightarrow> (instance_table, task_table, event_table, unit) world" where
  "one_step_world g = bundle_world\<lparr>w_workflows := [(''one'', [(''v1'', one_step_def g)])]\<rparr>"

definition sqlite_sample :: "(instance_table, task_table, event_table) engineImpl" where
  "sqlite_sample = NewSQLiteEngine plain_gob ''00'' (\<lambda>p. pl_Name p) sample_build (\<lambda>r. 0)"

lemma sqlite_sample_sel [simp]: "e_instances sqlite_sample = sqliteStore plain_gob"
  by (simp add: sqlite_sample_def NewSQLiteEngine_def NewEngineWithConfig_def)

lemma one_step_world_sel:
  "wf_world sql_inv (one_step_world g)" "find_row i (w_store (one_step_world g)) = None" "w_heap (one_step_world g) = []"
  "GetLatestWorkflow ''one'' (w_workflows (one_step_world g)) = Inr (one_step_def g)"
  "fst (nextInstanceID (one_step_world g)) = ''wf-1''"
  using FormatInt_1
  by (simp_all add: one_step_world_def bundle_world_def wf_world_def sql_inv_def find_row_def GetLatestWorkflow_def
      nextInstanceID_def signed_take_bit_int_eq_self)

lemma one_step_steps: "def_Steps (one_step_def g) = [pure_step ''inc'' ''main.inc'' g None]"
  by (simp add: one_step_def_def)

lemma pure_step_runs: "step_runner e n d (step_Fn (pure_step name fn g retry)) c v w = (Done (g v), w)"
  by (simp add: pure_step_def step_runner_pure)

lemma sqlite_one_step:
  assumes "e_instances e = sqliteStore G" "ctx_cancel c = None" "wf_world sql_inv w"
    and "find_row (fst (nextInstanceID w)) (w_store w) = None" "GetLatestWorkflow name (w_workflows w) = Inr def"
    and "def_Steps def = [pure_step sname fn g None]" "g v = Inr u" "\<not> isl (EncodeValue G v)"
  shows "\<exists>w'. Run e (step_runner e n d) c name v w = (Done (Some (length (w_heap w)), None), w') \<and> w_clock w' = w_clock w \<and>
    core w' (length (w_heap w)) = (new_instance (fst (nextInstanceID w)) def StatusRunning v)\<lparr>inst_Status := StatusCompleted,
      inst_Output := u, inst_CurrentStep := 1, inst_StepResults := Some [0 \<mapsto> u]\<rparr> \<and>
    ((\<forall>x. cached x 0 = Some u \<longrightarrow> \<not> encodable G x) \<longrightarrow> stored_in (sqliteStore G) (fst (nextInstanceID w)) (w_store w') =
      Some (strip_lease (reload G (new_instance (fst (nextInstanceID w)) def StatusRunning v))))"
  using sqlite_durable.one_step_run [where R = "step_runner e n d" and step = "pure_step sname fn g None" and g = g
      and key = "(fst (nextInstanceID w), def_Version def, def_Fingerprint def)", OF assms(1-3) _ refl assms(5,6) _ _ assms(7)] assms(4,8)
  by (simp add: pure_step_runs encodable_new_instance) (simp add: pure_step_def)

lemma EncodeValue_VInt: "EncodeValue G (VInt n) = Inr (Some (GobInterface (GobAny (VInt n))))"
  by (simp add: EncodeValue_def gob_Encode_iface_def gob_knows_def registered_by_init_def)

definition one_step_result :: "unit WorkflowDefinition \<Rightarrow> anyv \<Rightarrow> anyv \<Rightarrow> WorkflowInstance" where
  "one_step_result def v u = (new_instance ''wf-1'' def StatusRunning v)\<lparr>inst_Status := StatusCompleted,
     inst_Output := u, inst_CurrentStep := 1, inst_StepResults := Some [0 \<mapsto> u]\<rparr>"

lemma one_step_result:
  assumes "core w a = one_step_result def (VInt k) (VInt m)"
  shows "encodable G (w_inst w a)" "inst_ID (w_inst w a) = ''wf-1''" "inst_Status (w_inst w a) = StatusCompleted"
    "inst_Output (w_inst w a) = VInt m"
proof -
  have "encodable G (core w a)" unfolding assms
    by (simp add: one_step_result_def encodable_def new_instance_def EncodeValue_VInt EncodeStepResults_def gob_knows_def registered_by_init_def)
  then show "encodable G (w_inst w a)" by (simp add: core_def)
  show "inst_ID (w_inst w a) = ''wf-1''" "inst_Status (w_inst w a) = StatusCompleted" "inst_Output (w_inst w a) = VInt m"
    using assms by (simp_all add: one_step_result_def new_instance_def flip: core_sel)
qed

theorem sqlite_holds_what_is_reported_witness:
  "\<exists>w'. Run sqlite_sample (step_runner sqlite_sample 0 0) Background ''one'' (VInt 4) (one_step_world sample_inc) =
      (Done (Some 0, None), w') \<and>
    map_option (\<lambda>x. (inst_Status x, inst_Output x)) (stored_in (sqliteStore plain_gob) ''wf-1'' (w_store w')) =
      Some (StatusCompleted, VInt 5)"
proof -
  let ?w = "one_step_world sample_inc" and ?def = "one_step_def sample_inc" and ?R = "step_runner sqlite_sample 0 0"
  from sqlite_one_step [OF sqlite_sample_sel _ one_step_world_sel(1) _ one_step_world_sel(4) one_step_steps, of Background sample_inc
      "VInt 4" "VInt 5" 0 0]
  obtain w' where run: "Run sqlite_sample ?R Background ''one'' (VInt 4) ?w = (Done (Some 0, None), w')"
    and x: "core w' 0 = one_step_result ?def (VInt 4) (VInt 5)"
    by (auto simp: one_step_world_sel EncodeValue_VInt sample_inc_def one_step_result_def)
  have "returns_instance sqlite_sample ?R Background 0 ?w w'" using run unfolding returns_instance_def by blast
  with one_step_result [OF x] have "stored_in (sqliteStore plain_gob) (inst_ID (w_inst w' 0)) (w_store w') =
      Some (strip_lease (reload plain_gob (w_inst w' 0)))"
    using sqlite_holds_what_is_reported [OF sqlite_sample_sel one_step_world_sel(1) ctx_wf_simps(2) one_step_world_sel(2)] by blast
  with run one_step_result [OF x] show ?thesis by (simp add: reload_def)
qed

text \<open>
  C16: What the engine reports is what MongoDB and Redis hold. As with SQLite, the instance that \<^verbatim>\<open>Run\<close>, \<^verbatim>\<open>RunVersion\<close>,
  \<^verbatim>\<open>ResumeNow\<close> or \<^verbatim>\<open>SignalNow\<close> returns, or \<^verbatim>\<open>RunInstance\<close> without an error, is the one that \<^verbatim>\<open>GetInstance\<close> of the
  store yields, up to the lease and
  to what gob does not transmit, if its values can be encoded. In MongoDB a new instance needs an identifier that
  is not in the collection; in Redis it takes the place of an instance with the same identifier.
\<close>

theorem servers_hold_what_is_reported:
  assumes "ctx_wf c"
  shows "(e_instances e = mongoStore M cursor G \<and> wf_world mongo_inv w \<and>
        lookup_by mi_ID (w_store w) (fst (nextInstanceID w)) = None \<and>
        returns_instance e (step_runner e n d) c a w w' \<and> encodable G (w_inst w' a) \<longrightarrow>
      stored_in (mongoStore M cursor G) (inst_ID (w_inst w' a)) (w_store w') = Some (strip_lease (reload G (w_inst w' a)))) \<and>
    (e_instances f = redisStore R p G \<and> wf_world (redis_inv p) u \<and>
        returns_instance f (step_runner f n d) c a u u' \<and> encodable G (w_inst u' a) \<longrightarrow>
      stored_in (redisStore R p G) (inst_ID (w_inst u' a)) (w_store u') = Some (strip_lease (reload G (w_inst u' a))))"
proof (intro conjI impI; elim conjE)
  assume e: "e_instances e = mongoStore M cursor G" and w: "wf_world mongo_inv w"
    and fresh: "lookup_by mi_ID (w_store w) (fst (nextInstanceID w)) = None"
    and ret: "returns_instance e (step_runner e n d) c a w w'" and enc: "encodable G (w_inst w' a)"
  note R = mongo_engine.step_runner_frame [OF e, of n d] mongo_durable.kept.step_runner_frame [OF e, of _ n d]
  from ret show "stored_in (mongoStore M cursor G) (inst_ID (w_inst w' a)) (w_store w') = Some (strip_lease (reload G (w_inst w' a)))"
  proof (cases rule: returns_instance_cases)
    case (new def name version v erro)
    from mongo_durable.Run_synced [OF e assms R w _ refl new] fresh enc show ?thesis by (simp add: synced_def core_def)
  next
    case (old i b h name payload erro)
    have i: "fst (identity (deref h b)) = i"
      using mongo_engine.get_law [OF _ old(1) [unfolded e]] w by (simp add: wf_world_def identity_def)
    from mongo_durable.taken_over_synced [OF e R(2) assms w old(1) [unfolded e, folded i] refl old(2) [folded i]] enc
    show ?thesis by (simp add: synced_def core_def)
  qed
next
  assume e: "e_instances f = redisStore R p G" and w: "wf_world (redis_inv p) u"
    and ret: "returns_instance f (step_runner f n d) c a u u'" and enc: "encodable G (w_inst u' a)"
  note R = redis_engine.step_runner_frame [OF e, of n d] redis_durable.kept.step_runner_frame [OF e, of n d]
  from ret show "stored_in (redisStore R p G) (inst_ID (w_inst u' a)) (w_store u') = Some (strip_lease (reload G (w_inst u' a)))"
  proof (cases rule: returns_instance_cases)
    case (new def name version v erro)
    from redis_durable.Run_synced [OF e assms R w _ refl new] enc show ?thesis by (simp add: synced_def core_def)
  next
    case (old i b h name payload erro)
    have i: "fst (identity (deref h b)) = i"
      using redis_engine.get_law [OF _ old(1) [unfolded e]] w by (simp add: wf_world_def identity_def)
    from redis_durable.taken_over_synced [OF e R(2) assms w old(1) [unfolded e, folded i] refl old(2) [folded i]] enc
    show ?thesis by (simp add: synced_def core_def)
  qed
qed

definition redis_sample :: "(redis_db, unit, unit) engineImpl" where
  "redis_sample = NewRedisEngine sample_redis plain_gob ''00'' (\<lambda>p. pl_Name p) sample_build (\<lambda>r. 0)"

definition redis_world :: "(redis_db, unit, unit, unit) world" where
  "redis_world = \<lparr>w_heap = [], w_clock = 1000, w_workflows = [(''one'', [(''v1'', one_step_def sample_inc)])],
     w_store = empty_db, w_events = (), w_queue = (), w_log = [], w_nextID = 0, w_extern = ()\<rparr>"

lemma redis_sample_sel [simp]: "e_instances redis_sample = redisStore sample_redis ''fluxo:'' plain_gob"
  by (simp add: redis_sample_def NewRedisEngine_def NewEngineWithConfig_def NewRedisInstanceStore_def)

lemma redis_world_sel:
  "wf_world (redis_inv ''fluxo:'') redis_world" "w_heap redis_world = []"
  "GetLatestWorkflow ''one'' (w_workflows redis_world) = Inr (one_step_def sample_inc)" "fst (nextInstanceID redis_world) = ''wf-1''"
  using FormatInt_1
  by (simp_all add: redis_world_def wf_world_def redis_inv_def empty_db_def GetLatestWorkflow_def nextInstanceID_def signed_take_bit_int_eq_self)

definition mongo_sample :: "(mongoInstanceDoc list, unit, unit) engineImpl" where
  "mongo_sample = NewMongoEngine sample_mongo rev plain_gob ''00'' (\<lambda>p. pl_Name p) sample_build (\<lambda>r. 0)"

definition mongo_world :: "(mongoInstanceDoc list, unit, unit, unit) world" where
  "mongo_world = \<lparr>w_heap = [], w_clock = 1000, w_workflows = [(''one'', [(''v1'', one_step_def sample_inc)])],
     w_store = [], w_events = (), w_queue = (), w_log = [], w_nextID = 0, w_extern = ()\<rparr>"

lemma mongo_sample_sel [simp]: "e_instances mongo_sample = mongoStore sample_mongo rev plain_gob"
  by (simp add: mongo_sample_def NewMongoEngine_def NewEngineWithConfig_def)

lemma mongo_world_sel:
  "wf_world mongo_inv mongo_world" "w_heap mongo_world = []"
  "GetLatestWorkflow ''one'' (w_workflows mongo_world) = Inr (one_step_def sample_inc)" "fst (nextInstanceID mongo_world) = ''wf-1''"
  "lookup_by mi_ID (w_store mongo_world) i = None"
  using FormatInt_1
  by (simp_all add: mongo_world_def wf_world_def mongo_inv_def lookup_by_def GetLatestWorkflow_def nextInstanceID_def signed_take_bit_int_eq_self)

theorem servers_hold_what_is_reported_witness:
  "(\<exists>w'. Run mongo_sample (step_runner mongo_sample 0 0) Background ''one'' (VInt 4) mongo_world = (Done (Some 0, None), w') \<and>
    map_option (\<lambda>x. (inst_Status x, inst_Output x)) (stored_in (mongoStore sample_mongo rev plain_gob) ''wf-1'' (w_store w')) =
      Some (StatusCompleted, VInt 5)) \<and>
   (\<exists>w'. Run redis_sample (step_runner redis_sample 0 0) Background ''one'' (VInt 4) redis_world = (Done (Some 0, None), w') \<and>
    map_option (\<lambda>x. (inst_Status x, inst_Output x)) (stored_in (redisStore sample_redis ''fluxo:'' plain_gob) ''wf-1'' (w_store w')) =
      Some (StatusCompleted, VInt 5))"
proof (rule conjI)
  let ?def = "one_step_def sample_inc" and ?R = "step_runner mongo_sample 0 0"
  have wf: "wf_world mongo_inv mongo_world" using mongo_world_sel(1) by simp
  from mongo_durable.one_step_run [where R = ?R and g = sample_inc and step = "pure_step ''inc'' ''main.inc'' sample_inc None" and u = "VInt 5"
      and v = "VInt 4" and c = Background, OF mongo_sample_sel _ wf _ refl mongo_world_sel(3) one_step_steps]
  obtain w' where run: "Run mongo_sample ?R Background ''one'' (VInt 4) mongo_world = (Done (Some 0, None), w')"
    and x: "core w' 0 = one_step_result ?def (VInt 4) (VInt 5)"
    by (auto simp: mongo_world_sel pure_step_runs encodable_new_instance EncodeValue_VInt sample_inc_def one_step_result_def)
      (auto simp: pure_step_def)
  have "returns_instance mongo_sample ?R Background 0 mongo_world w'" using run unfolding returns_instance_def by blast
  with servers_hold_what_is_reported [OF ctx_wf_simps(2), THEN conjunct1] mongo_sample_sel wf mongo_world_sel(5) one_step_result [OF x]
  have "stored_in (mongoStore sample_mongo rev plain_gob) (inst_ID (w_inst w' 0)) (w_store w') =
      Some (strip_lease (reload plain_gob (w_inst w' 0)))" by blast
  with run one_step_result [OF x]
  show "\<exists>w'. Run mongo_sample (step_runner mongo_sample 0 0) Background ''one'' (VInt 4) mongo_world = (Done (Some 0, None), w') \<and>
    map_option (\<lambda>x. (inst_Status x, inst_Output x)) (stored_in (mongoStore sample_mongo rev plain_gob) ''wf-1'' (w_store w')) =
      Some (StatusCompleted, VInt 5)" by (simp add: reload_def)
next
  let ?def = "one_step_def sample_inc" and ?R = "step_runner redis_sample 0 0"
  from redis_durable.one_step_run [where R = ?R and g = sample_inc and step = "pure_step ''inc'' ''main.inc'' sample_inc None" and u = "VInt 5"
      and v = "VInt 4" and c = Background, OF redis_sample_sel _ redis_world_sel(1) _ refl redis_world_sel(3) one_step_steps]
  obtain w' where run: "Run redis_sample ?R Background ''one'' (VInt 4) redis_world = (Done (Some 0, None), w')"
    and x: "core w' 0 = one_step_result ?def (VInt 4) (VInt 5)"
    by (auto simp: redis_world_sel pure_step_runs encodable_new_instance EncodeValue_VInt sample_inc_def one_step_result_def)
      (auto simp: pure_step_def)
  have "returns_instance redis_sample ?R Background 0 redis_world w'" using run unfolding returns_instance_def by blast
  with servers_hold_what_is_reported [OF ctx_wf_simps(2), THEN conjunct2] redis_sample_sel redis_world_sel(1) one_step_result [OF x]
  have "stored_in (redisStore sample_redis ''fluxo:'' plain_gob) (inst_ID (w_inst w' 0)) (w_store w') =
      Some (strip_lease (reload plain_gob (w_inst w' 0)))" by blast
  with run one_step_result [OF x]
  show "\<exists>w'. Run redis_sample (step_runner redis_sample 0 0) Background ''one'' (VInt 4) redis_world = (Done (Some 0, None), w') \<and>
    map_option (\<lambda>x. (inst_Status x, inst_Output x)) (stored_in (redisStore sample_redis ''fluxo:'' plain_gob) ''wf-1'' (w_store w')) =
      Some (StatusCompleted, VInt 5)" by (simp add: reload_def)
qed

text \<open>
  C38: A result that cannot be encoded is lost without a trace. If the one step of a workflow, without other effects and without a
  retry policy, returns a value
  that gob cannot encode, a value of a type that was not registered, say, \<^verbatim>\<open>Run\<close> on a SQLite engine
  returns the instance COMPLETED with that output and without an error, but the store keeps it
  RUNNING at step 0, without output or results: the errors of the two updates that fail are ignored.
\<close>

theorem unencodable_result_lost:
  assumes "e_instances e = sqliteStore G" "ctx_cancel c = None" "wf_world sql_inv w"
    and "find_row (fst (nextInstanceID w)) (w_store w) = None" "GetLatestWorkflow name (w_workflows w) = Inr def"
    and "def_Steps def = [pure_step sname fn g None]" "g v = Inr u" "\<not> isl (EncodeValue G v)" "isl (EncodeValue G u)"
  shows "\<exists>w' x y. Run e (step_runner e n d) c name v w = (Done (Some (length (w_heap w)), None), w') \<and>
    x = w_inst w' (length (w_heap w)) \<and> inst_Status x = StatusCompleted \<and> inst_Output x = u \<and>
    stored_in (sqliteStore G) (inst_ID x) (w_store w') = Some y \<and> inst_Status y = StatusRunning \<and> inst_Output y = VNil \<and>
    inst_CurrentStep y = 0 \<and> inst_StepResults y = Some Map.empty"
proof -
  let ?x = "new_instance (fst (nextInstanceID w)) def StatusRunning v" and ?a = "length (w_heap w)"
  have u: "\<not> encodable G x" if c0: "cached x 0 = Some u" for x
  proof -
    obtain m where m: "inst_StepResults x = Some m" "m 0 = Some u" using c0 by (auto simp: cached_def split: option.splits)
    then have "u \<in> ran m" by (auto intro: ranI)
    moreover have "\<not> (list_all (gob_knows G) (gob_names u) \<and> gob_image G u \<noteq> None)"
      using assms(9) by (auto simp: EncodeValue_def gob_Encode_iface_def split: if_splits option.splits)
    ultimately show ?thesis using m(1) by (auto simp: encodable_def EncodeStepResults_def Let_def)
  qed
  from sqlite_one_step [OF assms(1-8)] u obtain w' where
    run: "Run e (step_runner e n d) c name v w = (Done (Some ?a, None), w')"
    and x: "core w' ?a = ?x\<lparr>inst_Status := StatusCompleted, inst_Output := u, inst_CurrentStep := 1, inst_StepResults := Some [0 \<mapsto> u]\<rparr>"
    and st: "stored_in (sqliteStore G) (fst (nextInstanceID w)) (w_store w') = Some (strip_lease (reload G ?x))" by metis
  have "inst_Status (w_inst w' ?a) = StatusCompleted" "inst_Output (w_inst w' ?a) = u" "inst_ID (w_inst w' ?a) = fst (nextInstanceID w)"
    using x by (simp_all add: new_instance_def flip: core_sel)
  with run st show ?thesis by (simp add: reload_def new_instance_def cached_def)
qed

text \<open>The output of a \<^verbatim>\<open>ParallelStep\<close> is such a value: no \<^verbatim>\<open>init\<close> function registers its type.\<close>

theorem unencodable_result_lost_witness:
  "\<exists>w' y. Run sqlite_sample (step_runner sqlite_sample 0 0) Background ''one'' (VInt 4)
        (one_step_world (\<lambda>v. Inr (ParallelResults [(0, v, None)]))) = (Done (Some 0, None), w') \<and>
      inst_Status (w_inst w' 0) = StatusCompleted \<and>
      stored_in (sqliteStore plain_gob) (inst_ID (w_inst w' 0)) (w_store w') = Some y \<and> inst_Status y = StatusRunning"
proof -
  have "isl (EncodeValue plain_gob (ParallelResults [(0, VInt 4, None)]))"
    by (simp add: EncodeValue_def gob_Encode_iface_def gob_knows_def registered_by_init_def plain_gob_def)
  from unencodable_result_lost [OF sqlite_sample_sel _ one_step_world_sel(1) _ one_step_world_sel(4) one_step_steps _ _ this,
      of Background "\<lambda>v. Inr (ParallelResults [(0, v, None)])" "VInt 4" 0 0]
  show ?thesis by (auto simp: one_step_world_sel EncodeValue_VInt)
qed

section \<open>Tasks and instances together\<close>

text \<open>
  C5: A task is done only when its instance is. When a worker of a SQLite bundle reports a task processed without an
  error and the task's row is gone, the engine returned an instance, that instance is COMPLETED, and, if its
  values can be encoded, the database holds it as the engine returned it: work that is not finished stays in
  the queue or is reported. Tasks that involve an automatic signal timeout are left aside, and a new instance
  needs an identifier that is not in the table.
\<close>

theorem sqlite_task_done_is_stored:
  assumes "b = NewSQLiteBundle G rnd digest build conv n d wrnd cfg" "wk = bundle_Worker b"
    and "sql_inv (w_heap w, w_store w)" "sq_inv G (w_queue w)" "2 \<le> wc_LeaseTTL (wk_cfg wk)" "ctx_cancel c = None"
    and "\<forall>t. w_clock w \<le> t \<and> t \<le> w_clock w1 \<longrightarrow> int64 t \<and> int64 (t + wc_LeaseTTL (wk_cfg wk))"
    and "int64 (w_clock w1 + max 0 (wc_Backoff (wk_cfg wk)))"
    and "sq_view G (w_queue w) (task_ID task) =
      Some (task, Leased (wc_WorkerID (wk_cfg wk)) (w_clock w + wc_LeaseTTL (wk_cfg wk)))"
    and "task_call wk c task = Some call" "call w = (Done (ao, err), w1)" "no_timeout wk task err"
    and "find_row (fst (nextInstanceID w)) (w_store w) = None"
  shows "\<exists>reported w2. process_task wk c task w = (Done (True, reported), w2) \<and>
    (reported = None \<and> sq_view G (w_queue w2) (task_ID task) = None \<longrightarrow>
      (\<exists>a. ao = Some a \<and> inst_Status (w_inst w2 a) = StatusCompleted \<and>
        (encodable G (w_inst w2 a) \<longrightarrow>
          stored_in (sqliteStore G) (inst_ID (w_inst w2 a)) (w_store w2) = Some (strip_lease (reload G (w_inst w2 a))))))"
proof -
  let ?e = "NewSQLiteEngine G rnd digest build conv :: (instance_table, task_table, event_table) engineImpl"
  let ?left = "task_Attempts task + 1 < wc_MaxAttempts (wk_cfg wk)"
  have e: "e_instances ?e = sqliteStore G" by (simp add: NewSQLiteEngine_def NewEngineWithConfig_def)
  have wk: "wk = NewWithConfig wrnd (engine_api ?e n d) (sqliteQueue G) cfg" by (simp add: assms(1,2) NewSQLiteBundle_def Let_def)
  have c: "ctx_wf c" using assms(6) by (rule ctx_cancel_None)
  from sqlite_bundle_settles_task [OF assms(1-12)] obtain w2 where w2: "w2 = w1\<lparr>w_queue := w_queue w2\<rparr>"
    and p: "process_task wk c task w = (Done (True, if ?left then None else err), w2)"
    and v: "sq_view G (w_queue w2) (task_ID task) = None \<longrightarrow> \<not> (err \<noteq> None \<and> ?left)" by auto
  have st: "w_store w2 = w_store w1" "w_inst w2 a = w_inst w1 a" for a by (subst w2, simp add: w_inst_def)+
  have "\<exists>a. ao = Some a \<and> inst_Status (w_inst w1 a) = StatusCompleted \<and> (encodable G (w_inst w1 a) \<longrightarrow>
      stored_in (sqliteStore G) (inst_ID (w_inst w1 a)) (w_store w1) = Some (strip_lease (reload G (w_inst w1 a))))" if "err = None"
    using sqlite_engine.engine_calls_complete [OF e assms(3) c assms(10) [unfolded wk] assms(11) [unfolded that]]
      sqlite_returned_synced [OF e _ c assms(13)] assms(3)
    by (force simp: wf_world_def synced_def core_def)
  with p v show ?thesis by (intro exI [of _ "if ?left then None else err"] exI [of _ w2]) (auto simp: st split: if_splits)
qed

text \<open>A start task for the one-step workflow, claimed by the bundle's worker.\<close>

definition start_table :: task_table where
  "start_table = \<lparr>tt_seq = 1, tt_rows = [(sample_row 1 ''w1'' 100)\<lparr>tr_type := TaskTypeStartWorkflow, tr_workflow_name := ''one'',
     tr_instance_id := '''', tr_payload := Some (GobInterface (GobAny (StartWorkflowPayload (VInt 4))))\<rparr>]\<rparr>"

definition start_task :: Task where
  "start_task = zero_Task\<lparr>task_ID := ''1'', task_Type := TaskTypeStartWorkflow, task_WorkflowName := ''one'',
     task_Payload := StartWorkflowPayload (VInt 4), task_EnqueuedAt := 0, task_NotBefore := 0\<rparr>"

definition start_world :: "(instance_table, task_table, event_table, unit) world" where
  "start_world = (one_step_world sample_inc)\<lparr>w_queue := start_table\<rparr>"

lemma start_table_view:
  "sq_inv plain_gob start_table" "sq_view plain_gob start_table ''1'' = Some (start_task, Leased ''w1'' 100)"
proof -
  have p: "decodePayload plain_gob (Some (GobInterface (GobAny (StartWorkflowPayload (VInt 4))))) = Inr (StartWorkflowPayload (VInt 4))"
    by (simp add: decodePayload_def gob_knows_def registered_by_init_def)
  show "sq_inv plain_gob start_table"
    using p by (simp add: sq_inv_def start_table_def sample_row_def int64_def maxRowID_def)
  show "sq_view plain_gob start_table ''1'' = Some (start_task, Leased ''w1'' 100)"
    using p by (simp add: sq_view_def start_table_def sample_row_def row_value_def row_task_def row_lease_def FormatInt_1 start_task_def zero_Task_def)
qed

theorem sqlite_task_done_is_stored_witness:
  "\<exists>w2. process_task (bundle_Worker sample_bundle) Background start_task start_world = (Done (True, None), w2) \<and>
    sq_view plain_gob (w_queue w2) ''1'' = None \<and>
    map_option (\<lambda>x. (inst_Status x, inst_Output x)) (stored_in (sqliteStore plain_gob) ''wf-1'' (w_store w2)) =
      Some (StatusCompleted, VInt 5)"
proof -
  let ?wk = "bundle_Worker sample_bundle" and ?e = "sqlite_sample" and ?w = start_world
  have wk: "?wk = NewWithConfig ''1'' (engine_api ?e 0 0) (sqliteQueue plain_gob)
     \<lparr>wc_MaxAttempts = 3, wc_Backoff = 5, wc_DefaultSignalTimeout = 0, wc_WorkerID = ''w1'', wc_LeaseTTL = 100, wc_HeartbeatInterval = 0\<rparr>"
    by (simp add: sample_bundle_def NewSQLiteBundle_def Let_def sqlite_sample_def)
  have cfg: "wc_WorkerID (wk_cfg ?wk) = ''w1''" "wc_LeaseTTL (wk_cfg ?wk) = 100" "wc_Backoff (wk_cfg ?wk) = 5"
    by (simp_all add: wk NewWithConfig_def)
  have t: "task_ID start_task = ''1''" "task_Type start_task = TaskTypeStartWorkflow" "task_InstanceID start_task = ''''"
    "task_WorkflowName start_task = ''one''" "task_Payload start_task = StartWorkflowPayload (VInt 4)"
    by (simp_all add: start_task_def zero_Task_def)
  have call: "task_call ?wk Background start_task = Some (Run ?e (step_runner ?e 0 0) Background ''one'' (VInt 4))"
    by (simp add: task_call_def t wk NewWithConfig_def engine_api_def Let_def)
  have w: "wf_world sql_inv ?w" "GetLatestWorkflow ''one'' (w_workflows ?w) = Inr (one_step_def sample_inc)" "w_heap ?w = []"
    "fst (nextInstanceID ?w) = ''wf-1''" "find_row ''wf-1'' (w_store ?w) = None" "w_clock ?w = 0" "w_queue ?w = start_table"
    using one_step_world_sel [where g = sample_inc]
    by (simp_all add: start_world_def wf_world_def nextInstanceID_def Let_def) (simp_all add: one_step_world_def bundle_world_def)
  from sqlite_one_step [OF sqlite_sample_sel _ w(1) _ w(2) one_step_steps, of Background "VInt 4" "VInt 5" 0 0]
  obtain w1 where run: "Run ?e (step_runner ?e 0 0) Background ''one'' (VInt 4) ?w = (Done (Some 0, None), w1)" "w_clock w1 = 0"
    and x: "core w1 0 = one_step_result (one_step_def sample_inc) (VInt 4) (VInt 5)"
    by (auto simp: w EncodeValue_VInt sample_inc_def one_step_result_def)
  have inv: "sql_inv (w_heap ?w, w_store ?w)" using w(1) by (simp add: wf_world_def)
  have times: "\<forall>t. w_clock ?w \<le> t \<and> t \<le> w_clock w1 \<longrightarrow> int64 t \<and> int64 (t + wc_LeaseTTL (wk_cfg ?wk))"
    "int64 (w_clock w1 + max 0 (wc_Backoff (wk_cfg ?wk)))" by (auto simp: w run(2) cfg int64_def)
  have q: "sq_inv plain_gob (w_queue ?w)" "2 \<le> wc_LeaseTTL (wk_cfg ?wk)" "no_timeout ?wk start_task None"
    "sq_view plain_gob (w_queue ?w) (task_ID start_task) =
      Some (start_task, Leased (wc_WorkerID (wk_cfg ?wk)) (w_clock ?w + wc_LeaseTTL (wk_cfg ?wk)))"
    by (simp_all add: w start_table_view cfg t no_timeout_def)
  from sqlite_bundle_settles_task [OF sample_bundle_def refl inv q(1,2) _ times q(4) call run(1) q(3)] obtain w2 where
    w2: "process_task ?wk Background start_task ?w = (Done (True, None), w2)" "w2 = w1\<lparr>w_queue := w_queue w2\<rparr>"
      "sq_view plain_gob (w_queue w2) ''1'' = None" by (auto simp: t)
  have "w_inst w2 0 = w_inst w1 0" by (subst w2(2)) (simp add: w_inst_def)
  with sqlite_task_done_is_stored [OF sample_bundle_def refl inv q(1,2) _ times q(4) call run(1) q(3)] w w2 one_step_result [OF x]
  show ?thesis by (auto simp: t reload_def)
qed

end
