(* ===== verification/Typed_Flow.thy ===== *)
theory Typed_Flow
  imports Engine_Props
begin

text \<open>
  Workflows built from \<^verbatim>\<open>TypedStep\<close> and \<^verbatim>\<open>TypedLoop\<close> (\<^verbatim>\<open>pkg/api/workflow.go\<close>): a typing of their steps, and that
  a well-typed workflow never fails one of the type assertions the helpers make at run time.
\<close>

section \<open>Typed functions\<close>

text \<open>
  The type assertion to a type that is not an interface, and the values a step of that type accepts: a nil
  input stands for the zero value.
\<close>

definition cast_to :: "string \<Rightarrow> anyv \<Rightarrow> anyv option" where
  "cast_to t v = (if type_name v = t then Some v else None)"

definition has_type :: "string \<Rightarrow> anyv \<Rightarrow> bool" where
  "has_type t v \<longleftrightarrow> v = VNil \<or> type_name v = t"

text \<open>
  \<open>OneCall t z t' f\<close> is a function from \<open>t\<close> (with zero value \<open>z\<close>) to \<open>t'\<close> given to \<^verbatim>\<open>TypedStep\<close>, \<open>Calls t z k f\<close> a
  function from \<open>t\<close> to \<open>t\<close> given to \<^verbatim>\<open>TypedLoop\<close> with the count \<open>k\<close>.
\<close>

datatype typed_fn =
    OneCall string anyv string "anyv \<Rightarrow> goerr + anyv"
  | Calls string anyv int "anyv \<Rightarrow> goerr + anyv"

fun typed_step :: "string \<Rightarrow> RetryPolicy option \<Rightarrow> typed_fn \<Rightarrow> 'u StepDefinition" where
  "typed_step name retry (OneCall t z t' f) =
     \<lparr>step_Name = name, step_Fn = Some (TypedStep (cast_to t) z t (\<lambda>v. Return (f v))), step_Retry = retry\<rparr>"
| "typed_step name retry (Calls t z k f) =
     \<lparr>step_Name = name, step_Fn = Some (TypedLoop (cast_to t) z t k (\<lambda>v. Return (f v))), step_Retry = retry\<rparr>"

definition typed_steps :: "(string \<times> RetryPolicy option \<times> typed_fn) list \<Rightarrow> 'u StepDefinition list" where
  "typed_steps nfs = map (\<lambda>(name, retry, tf). typed_step name retry tf) nfs"

definition fns_of :: "(string \<times> RetryPolicy option \<times> typed_fn) list \<Rightarrow> typed_fn list" where
  "fns_of nfs = map (\<lambda>(name, retry, tf). tf) nfs"

text \<open>The functions alone, without type assertions.\<close>

definition zero_if_nil :: "anyv \<Rightarrow> anyv \<Rightarrow> anyv" where
  "zero_if_nil z v = (if v = VNil then z else v)"

fun iterate :: "nat \<Rightarrow> (anyv \<Rightarrow> goerr + anyv) \<Rightarrow> anyv \<Rightarrow> goerr + anyv" where
  "iterate 0 f v = Inr v"
| "iterate (Suc k) f v = (case f v of Inl e \<Rightarrow> Inl e | Inr u \<Rightarrow> iterate k f u)"

fun bare :: "typed_fn \<Rightarrow> anyv \<Rightarrow> goerr + anyv" where
  "bare (OneCall t z t' f) v = f (zero_if_nil z v)"
| "bare (Calls t z k f) v = iterate (nat k) (\<lambda>v. f (zero_if_nil z v)) v"

text \<open>
  A function keeps to its types: given a value of its parameter type (or the zero value for a nil), what it returns is a value of
  its result type, which is not nil since neither is an interface type. A list of them leads from one type to another.
\<close>

definition maps_type :: "string \<Rightarrow> anyv \<Rightarrow> string \<Rightarrow> (anyv \<Rightarrow> goerr + anyv) \<Rightarrow> bool" where
  "maps_type t z t' f \<longleftrightarrow> (\<forall>v u. has_type t v \<and> f (zero_if_nil z v) = Inr u \<longrightarrow> u \<noteq> VNil \<and> type_name u = t')"

inductive typed :: "string \<Rightarrow> typed_fn list \<Rightarrow> string \<Rightarrow> bool" where
  typed_Nil: "typed t [] t"
| typed_OneCall: "maps_type t z t' f \<Longrightarrow> typed t' fs t'' \<Longrightarrow> typed t (OneCall t z t' f # fs) t''"
| typed_Calls: "maps_type t z t f \<Longrightarrow> typed t fs t' \<Longrightarrow> typed t (Calls t z k f # fs) t'"

declare typed.intros [intro]
inductive_cases typed_ConsE: "typed t (tf # fs) t'"

section \<open>What the helpers compute\<close>

definition checked :: "string \<Rightarrow> string \<Rightarrow> anyv \<Rightarrow> (anyv \<Rightarrow> goerr + anyv) \<Rightarrow> anyv \<Rightarrow> goerr + anyv" where
  "checked helper t z f v = (case typed_arg helper (cast_to t) z t v of Inl e \<Rightarrow> Inl e | Inr x \<Rightarrow> f x)"

fun asserted :: "typed_fn \<Rightarrow> anyv \<Rightarrow> goerr + anyv" where
  "asserted (OneCall t z t' f) v = checked ''TypedStep'' t z f v"
| "asserted (Calls t z k f) v = iterate (nat k) (checked ''TypedLoop'' t z f) v"

lemma checked_typed: "has_type t v \<Longrightarrow> checked helper t z f v = f (zero_if_nil z v)"
  by (auto simp: checked_def typed_arg_def cast_to_def has_type_def zero_if_nil_def)

lemma checked_untyped: "\<not> has_type t v \<Longrightarrow>
    checked helper t z f v = Inl (ErrMsg (helper @ '': expected input of type '' @ t @ '', got '' @ type_name v))"
  by (simp add: checked_def typed_arg_def cast_to_def has_type_def)

lemma loop_times_Return: "loop_times k (\<lambda>v. Return (g v)) v = Return (iterate k g v)"
  by (induction k arbitrary: v) (simp_all split: sum.split)

lemma TypedStep_Return:
  "TypedStep (cast_to t) z t (\<lambda>v. Return (f v)) =
     \<lparr>fn_name = api_fn ''TypedStep[...].func1'', fn_body = (\<lambda>v. Return (checked ''TypedStep'' t z f v))\<rparr>"
  by (auto simp: TypedStep_def checked_def fun_eq_iff split: sum.split)

lemma checked_body:
  "(\<lambda>v. case typed_arg helper (cast_to t) z t v of Inl e \<Rightarrow> Return (Inl e) | Inr x \<Rightarrow> Return (f x)) =
     (\<lambda>v. Return (checked helper t z f v))"
  by (auto simp: checked_def split: sum.split)

lemma TypedLoop_Return:
  "TypedLoop (cast_to t) z t k (\<lambda>v. Return (f v)) =
     \<lparr>fn_name = api_fn ''LoopStep.func1'', fn_body = (\<lambda>v. Return (iterate (nat k) (checked ''TypedLoop'' t z f) v))\<rparr>"
  unfolding TypedLoop_def checked_body by (simp add: LoopStep_def loop_times_Return fun_eq_iff)

lemma computes_typed: "computes I (step_runner e n d) (step_Fn (typed_step name retry tf)) (asserted tf)"
  by (cases tf) (simp_all add: computes_def TypedStep_Return TypedLoop_Return step_runner_pure)

lemma computes_typed_list:
  "list_all2 (\<lambda>s g. computes I (step_runner e n d) (step_Fn s) g) (typed_steps nfs) (map asserted (fns_of nfs))"
  by (induction nfs) (auto simp: computes_typed typed_steps_def fns_of_def)

text \<open>Preservation: on values of its type a step computes its function, and the result has the declared type.\<close>

lemma iterate_typed:
  assumes "maps_type t z t f"
  shows "has_type t v \<Longrightarrow> iterate k (checked helper t z f) v = iterate k (\<lambda>v. f (zero_if_nil z v)) v"
    "has_type t v \<Longrightarrow> iterate k (\<lambda>v. f (zero_if_nil z v)) v = Inr u \<Longrightarrow> has_type t u \<and> (u = VNil \<longrightarrow> v = VNil)"
proof -
  have step: "has_type t w \<and> w \<noteq> VNil" if "has_type t v" "f (zero_if_nil z v) = Inr w" for v w
    using assms that unfolding maps_type_def has_type_def by blast
  show "iterate k (checked helper t z f) v = iterate k (\<lambda>v. f (zero_if_nil z v)) v" if "has_type t v"
    using that
  proof (induction k arbitrary: v)
    case (Suc k)
    with step show ?case by (cases "f (zero_if_nil z v)") (simp_all add: checked_typed)
  qed simp
  show "has_type t u \<and> (u = VNil \<longrightarrow> v = VNil)" if "has_type t v" "iterate k (\<lambda>v. f (zero_if_nil z v)) v = Inr u"
    using that
  proof (induction k arbitrary: v)
    case (Suc k)
    then obtain w where "f (zero_if_nil z v) = Inr w" by (cases "f (zero_if_nil z v)") simp_all
    with Suc.IH [of w] step [of v w] Suc.prems show ?case by auto
  qed simp
qed

lemma asserted_typed:
  assumes "typed t (tf # fs) t'" "has_type t v"
  shows "asserted tf v = bare tf v" "bare tf v = Inr u \<Longrightarrow> \<exists>s. has_type s u \<and> (u = VNil \<longrightarrow> v = VNil) \<and> typed s fs t'"
proof -
  from assms(1) have "asserted tf v = bare tf v \<and> (bare tf v = Inr u \<longrightarrow> (\<exists>s. has_type s u \<and> (u = VNil \<longrightarrow> v = VNil) \<and> typed s fs t'))"
  proof (rule typed_ConsE)
    fix z s f
    assume tf: "tf = OneCall t z s f" "maps_type t z s f" "typed s fs t'"
    have "has_type s u \<and> u \<noteq> VNil" if "f (zero_if_nil z v) = Inr u"
      using tf(2) assms(2) that unfolding maps_type_def has_type_def by blast
    with tf show ?thesis using checked_typed [OF assms(2)] by auto
  next
    fix z f k
    assume tf: "tf = Calls t z k f" "maps_type t z t f" "typed t fs t'"
    with iterate_typed(1) [OF tf(2) assms(2)] iterate_typed(2) [OF tf(2) assms(2), of "nat k" u] show ?thesis by auto
  qed
  then show "asserted tf v = bare tf v" "bare tf v = Inr u \<Longrightarrow> \<exists>s. has_type s u \<and> (u = VNil \<longrightarrow> v = VNil) \<and> typed s fs t'" by blast+
qed

lemma run_spec_typed:
  "typed t fs t' \<Longrightarrow> has_type t v \<Longrightarrow> run_spec (map asserted fs) i v = run_spec (map bare fs) i v \<and>
    (\<forall>u. run_spec (map asserted fs) i v = Inr u \<longrightarrow> has_type t' u \<and> (u = VNil \<longrightarrow> v = VNil))"
proof (induction fs arbitrary: t i v)
  case Nil
  then show ?case by (auto elim: typed.cases)
next
  case (Cons tf fs)
  note a = asserted_typed [OF Cons.prems]
  show ?case
  proof (cases "bare tf v")
    case (Inr u)
    from a(2) [OF Inr] obtain s where "has_type s u" "u = VNil \<longrightarrow> v = VNil" "typed s fs t'" by blast
    with Cons.IH [of s u "Suc i"] a(1) Inr show ?thesis by auto
  qed (simp add: a(1))
qed

section \<open>Type soundness\<close>

text \<open>
  C11: Well-typed workflows are type sound. On the in-memory store and with a context that is never cancelled: if the
  functions of the \<^verbatim>\<open>TypedStep\<close> and \<^verbatim>\<open>TypedLoop\<close> steps of a workflow (with or without retry policies) keep to
  their types and fit together, and the input has the type of the first or is nil, then \<^verbatim>\<open>Run\<close> computes the fold of
  the bare functions: no type assertion fails, and the output of a run that completes has the result type of the last
  function (or is nil, which is only possible for a nil input that no function was called on). A workflow that starts
  with a \<^verbatim>\<open>TypedStep\<close> and gets an input that is neither nil nor of its type fails at step 0 with the error that names both types, whatever its
  function and the other steps are.
\<close>

theorem typed_workflow_sound:
  assumes "e_instances e = memoryStore" "mem_inv (w_heap w, w_store w)" "ctx_cancel c = None"
    and "GetLatestWorkflow name (w_workflows w) = Inr def" "def_Steps def = typed_steps nfs"
  shows "(typed t (fns_of nfs) t' \<and> has_type t input \<longrightarrow>
      (\<exists>w' r x. r = run_spec (map bare (fns_of nfs)) 0 input \<and> x = w_inst w' (length (w_heap w)) \<and>
        Run e (step_runner e n d) c name input w = (Done (Some (length (w_heap w)), spec_err r), w') \<and>
        spec_post (length nfs) r x \<and> (inst_Status x = StatusCompleted \<longrightarrow> has_type t' (inst_Output x) \<and> (inst_Output x = VNil \<longrightarrow> input = VNil)))) \<and>
    (fns_of nfs = OneCall s z s' f # fs \<and> \<not> has_type s input \<longrightarrow>
      (\<exists>w' x. x = w_inst w' (length (w_heap w)) \<and> inst_Status x = StatusFailed \<and> inst_CurrentStep x = 0 \<and>
        Run e (step_runner e n d) c name input w = (Done (Some (length (w_heap w)),
          Some (ErrMsg (''TypedStep: expected input of type '' @ s @ '', got '' @ type_name input))), w')))"
proof -
  let ?a = "length (w_heap w)" and ?r = "run_spec (map asserted (fns_of nfs)) 0 input"
  have "list_all2 (\<lambda>s g. computes mem_inv (step_runner e n d) (step_Fn s) g) (def_Steps def) (map asserted (fns_of nfs))"
    unfolding assms(5) by (rule computes_typed_list)
  from mem_engine.Run_computes [OF assms(1) mem_engine.step_runner_frame [OF assms(1)] assms(3) _ assms(4) this mem_save_ok] assms(2)
  obtain w' where run: "Run e (step_runner e n d) c name input w = (Done (Some ?a, spec_err ?r), w')"
    and post: "spec_post (length nfs) ?r (w_inst w' ?a)" by (auto simp: wf_world_def fns_of_def)
  show ?thesis
  proof (intro conjI impI; elim conjE)
    assume ty: "typed t (fns_of nfs) t'" "has_type t input"
    note r = run_spec_typed [OF ty, of 0]
    have "has_type t' (inst_Output (w_inst w' ?a)) \<and> (inst_Output (w_inst w' ?a) = VNil \<longrightarrow> input = VNil)" if "inst_Status (w_inst w' ?a) = StatusCompleted"
    proof (cases ?r)
      case (Inl ke)
      with post that show ?thesis by (auto simp: spec_post_def stopped_def split: prod.splits if_splits)
    next
      case (Inr u)
      with r have "has_type t' u \<and> (u = VNil \<longrightarrow> input = VNil)" by blast
      moreover have "inst_Output (w_inst w' ?a) = u" using post unfolding Inr by (simp add: spec_post_def)
      ultimately show ?thesis by simp
    qed
    with run post r show "\<exists>w' r x. r = run_spec (map bare (fns_of nfs)) 0 input \<and> x = w_inst w' ?a \<and>
        Run e (step_runner e n d) c name input w = (Done (Some ?a, spec_err r), w') \<and>
        spec_post (length nfs) r x \<and> (inst_Status x = StatusCompleted \<longrightarrow> has_type t' (inst_Output x) \<and> (inst_Output x = VNil \<longrightarrow> input = VNil))" by metis
  next
    assume "fns_of nfs = OneCall s z s' f # fs" "\<not> has_type s input"
    then have "?r = Inl (0, ErrMsg (''TypedStep: expected input of type '' @ s @ '', got '' @ type_name input))"
      by (simp add: checked_untyped)
    with run post show "\<exists>w' x. x = w_inst w' ?a \<and> inst_Status x = StatusFailed \<and> inst_CurrentStep x = 0 \<and>
        Run e (step_runner e n d) c name input w = (Done (Some ?a,
          Some (ErrMsg (''TypedStep: expected input of type '' @ s @ '', got '' @ type_name input))), w')"
      by (auto simp: spec_post_def spec_err_def stopped_def is_wait_def)
  qed
qed

definition typed_sample :: "(string \<times> RetryPolicy option \<times> typed_fn) list" where
  "typed_sample = [(''inc'', Some sample_retry, OneCall ''int'' (VInt 0) ''int'' sample_inc), (''more'', None, Calls ''int'' (VInt 0) 2 sample_inc)]"

definition typed_sample_def :: "unit WorkflowDefinition" where
  "typed_sample_def = \<lparr>def_Name = ''wf'', def_Version = ''v1'', def_Fingerprint = ''fp'',
     def_Steps = typed_steps typed_sample\<rparr>"

lemma sample_inc_typed: "maps_type ''int'' z ''int'' sample_inc"
  by (auto simp: maps_type_def has_type_def sample_inc_def split: anyv.splits)

theorem typed_workflow_sound_witness:
  "\<exists>w'. Run sample_engine (step_runner sample_engine 0 0) Background ''wf'' (VInt 4)
        (sample_world\<lparr>w_workflows := [(''wf'', [(''v1'', typed_sample_def)])]\<rparr>) = (Done (Some 0, None), w') \<and>
      inst_Output (w_inst w' 0) = VInt 7 \<and> has_type ''int'' (inst_Output (w_inst w' 0))"
proof -
  let ?w = "sample_world\<lparr>w_workflows := [(''wf'', [(''v1'', typed_sample_def)])]\<rparr>"
  have ty: "typed ''int'' (fns_of typed_sample) ''int''" "has_type ''int'' (VInt 4)"
    by (simp_all add: typed_sample_def fns_of_def has_type_def) (intro typed.intros sample_inc_typed)
  have r: "run_spec (map bare (fns_of typed_sample)) 0 (VInt 4) = Inr (VInt 7)"
    by (simp add: typed_sample_def fns_of_def sample_inc_def zero_if_nil_def numeral_2_eq_2)
  have w: "mem_inv (w_heap ?w, w_store ?w)" "GetLatestWorkflow ''wf'' (w_workflows ?w) = Inr typed_sample_def" "w_heap ?w = []"
    "ctx_cancel Background = None"
    by (simp_all add: mem_inv_def GetLatestWorkflow_def Background_def)
  have "def_Steps typed_sample_def = typed_steps typed_sample" by (simp add: typed_sample_def_def)
  from typed_workflow_sound [OF sample_engine_sel(1) w(1,4,2) this, THEN conjunct1, THEN mp, OF conjI [OF ty]] r w(3)
  show ?thesis by (fastforce simp: spec_err_def spec_post_def)
qed

end
