(* ===== verification/Flow_Builder.thy ===== *)
theory Flow_Builder
  imports Engine_Props
begin

text \<open>
  \<^verbatim>\<open>builder.go\<close>: the fluent API that defines workflows. A method that panics returns the panic's
  message (\<open>Inl\<close>); otherwise it returns the builder with the step appended. The step constructors of
  \<^verbatim>\<open>steps.go\<close> only forward to those of \<^verbatim>\<open>pkg/api\<close> and are identified with them.
\<close>

section \<open>Model\<close>

record 'u FlowBuilder =
  fb_def :: "'u WorkflowDefinition"

definition Builder_New :: "string \<Rightarrow> 'u FlowBuilder" where
  "Builder_New name = \<lparr>fb_def = \<lparr>def_Name = name, def_Version = '''', def_Fingerprint = '''', def_Steps = []\<rparr>\<rparr>"

definition Builder_Name :: "'u FlowBuilder \<Rightarrow> string" where
  "Builder_Name b = def_Name (fb_def b)"

definition Builder_Definition :: "'u FlowBuilder \<Rightarrow> 'u WorkflowDefinition" where
  "Builder_Definition b = fb_def b"

definition append_step :: "'u StepDefinition \<Rightarrow> 'u FlowBuilder \<Rightarrow> 'u FlowBuilder" where
  "append_step s b = b\<lparr>fb_def := (fb_def b)\<lparr>def_Steps := def_Steps (fb_def b) @ [s]\<rparr>\<rparr>"

definition Builder_Step :: "string \<Rightarrow> 'u StepFunc option \<Rightarrow> 'u FlowBuilder \<Rightarrow> string + 'u FlowBuilder" where
  "Builder_Step name fn b =
     (if name = '''' then Inl ''fluxo: step name must not be empty''
      else if fn = None then Inl (''fluxo: step '' @ quote name @ '' has nil function'')
      else Inr (append_step \<lparr>step_Name = name, step_Fn = fn, step_Retry = None\<rparr> b))"

definition Builder_StepWithRetry :: "string \<Rightarrow> 'u StepFunc option \<Rightarrow> RetryPolicy \<Rightarrow> 'u FlowBuilder \<Rightarrow> string + 'u FlowBuilder" where
  "Builder_StepWithRetry name fn retry b =
     (if name = '''' then Inl ''fluxo: step name must not be empty''
      else if fn = None then Inl (''fluxo: step '' @ quote name @ '' has nil function'')
      else Inr (append_step \<lparr>step_Name = name, step_Fn = fn, step_Retry = Some retry\<rparr> b))"

definition Builder_StepWithRetryBuilder :: "string \<Rightarrow> 'u StepFunc option \<Rightarrow> RetryBuilder \<Rightarrow> 'u FlowBuilder \<Rightarrow> string + 'u FlowBuilder" where
  "Builder_StepWithRetryBuilder name fn rb b = Builder_StepWithRetry name fn (Policy rb) b"

definition Builder_While :: "string \<Rightarrow> (anyv \<Rightarrow> bool) option \<Rightarrow> 'u StepFunc option \<Rightarrow> 'u FlowBuilder \<Rightarrow> string + 'u FlowBuilder" where
  "Builder_While name cond body b = Builder_Step name (Some (WhileStep cond body)) b"

definition Builder_Loop :: "string \<Rightarrow> int \<Rightarrow> 'u StepFunc option \<Rightarrow> 'u FlowBuilder \<Rightarrow> string + 'u FlowBuilder" where
  "Builder_Loop name cnt body b = Builder_Step name (Some (LoopStep cnt body)) b"

definition Builder_If :: "string \<Rightarrow> (anyv \<Rightarrow> bool) option \<Rightarrow> 'u StepFunc option \<Rightarrow> 'u StepFunc option \<Rightarrow> 'u FlowBuilder
     \<Rightarrow> string + 'u FlowBuilder" where
  "Builder_If name cond thenStep elseStep b = Builder_Step name (Some (IfStep cond thenStep elseStep)) b"

definition Builder_Switch :: "string \<Rightarrow> (anyv \<Rightarrow> string) option \<Rightarrow> (string \<rightharpoonup> 'u StepFunc option) \<Rightarrow> 'u StepFunc option
     \<Rightarrow> 'u FlowBuilder \<Rightarrow> string + 'u FlowBuilder" where
  "Builder_Switch name selector branches defaultStep b =
     Builder_Step name (Some (SwitchStep selector branches defaultStep)) b"

definition Builder_WaitForSignal :: "string \<Rightarrow> string \<Rightarrow> 'u FlowBuilder \<Rightarrow> string + 'u FlowBuilder" where
  "Builder_WaitForSignal stepName signalName b = Builder_Step stepName (Some (WaitForSignalStep signalName)) b"

definition Builder_WaitForAnySignal :: "string \<Rightarrow> string list \<Rightarrow> 'u FlowBuilder \<Rightarrow> string + 'u FlowBuilder" where
  "Builder_WaitForAnySignal stepName names b = Builder_Step stepName (Some (WaitForAnySignalStep names)) b"

definition Builder_Register :: "('s, 'q, 'e) engineImpl \<Rightarrow> 'u FlowBuilder \<Rightarrow> ('s, 'q, 'e, 'u) world
     \<Rightarrow> goerr option \<times> ('s, 'q, 'e, 'u) world" where
  "Builder_Register e b w = RegisterWorkflow e (fb_def b) w"

definition Builder_MustRegister :: "('s, 'q, 'e) engineImpl \<Rightarrow> 'u FlowBuilder \<Rightarrow> ('s, 'q, 'e, 'u) world
     \<Rightarrow> unit res \<times> ('s, 'q, 'e, 'u) world" where
  "Builder_MustRegister e b w =
     (case Builder_Register e b w of
        (Some err, w1) \<Rightarrow> (Panicked (Error err), w1)
      | (None, w1) \<Rightarrow> (Done (), w1))"

section \<open>Chains of builder calls\<close>

text \<open>A chain \<^verbatim>\<open>New(name).Step(...).StepWithRetry(...)\<close>, with the policy of each step.\<close>

type_synonym 'u step_spec = "string \<times> 'u StepFunc option \<times> RetryPolicy option"

fun build_steps :: "'u step_spec list \<Rightarrow> 'u FlowBuilder \<Rightarrow> string + 'u FlowBuilder" where
  "build_steps [] b = Inr b"
| "build_steps ((name, fn, retry) # specs) b =
     (case (case retry of None \<Rightarrow> Builder_Step name fn b | Some r \<Rightarrow> Builder_StepWithRetry name fn r b) of
        Inl m \<Rightarrow> Inl m
      | Inr b' \<Rightarrow> build_steps specs b')"

definition spec_ok :: "'u step_spec \<Rightarrow> bool" where
  "spec_ok s = (case s of (name, fn, retry) \<Rightarrow> name \<noteq> '''' \<and> fn \<noteq> None)"

definition spec_step :: "'u step_spec \<Rightarrow> 'u StepDefinition" where
  "spec_step s = (case s of (name, fn, retry) \<Rightarrow> \<lparr>step_Name = name, step_Fn = fn, step_Retry = retry\<rparr>)"

lemma build_steps_ok:
  "list_all spec_ok specs \<Longrightarrow>
     build_steps specs b = Inr (b\<lparr>fb_def := (fb_def b)\<lparr>def_Steps := def_Steps (fb_def b) @ map spec_step specs\<rparr>\<rparr>)"
proof (induction specs arbitrary: b)
  case (Cons s specs)
  obtain name fn retry where s: "s = (name, fn, retry)" by (cases s)
  from Cons.prems have "name \<noteq> ''''" "fn \<noteq> None" by (simp_all add: s spec_ok_def)
  with Cons.IH Cons.prems show ?case
    by (cases retry) (auto simp: s Builder_Step_def Builder_StepWithRetry_def append_step_def spec_step_def)
qed simp

lemma build_steps_bad: "\<not> list_all spec_ok specs \<Longrightarrow> \<exists>m. build_steps specs b = Inl m"
proof (induction specs arbitrary: b)
  case (Cons s specs)
  obtain name fn retry where s: "s = (name, fn, retry)" by (cases s)
  show ?case
  proof (cases "spec_ok s")
    case True
    with Cons.IH Cons.prems show ?thesis
      by (auto simp: s spec_ok_def Builder_Step_def Builder_StepWithRetry_def split: option.splits)
  next
    case False
    then show ?thesis by (auto simp: s spec_ok_def Builder_Step_def Builder_StepWithRetry_def split: option.splits)
  qed
qed simp

section \<open>Properties\<close>

text \<open>
  Builder chains. A chain of \<^verbatim>\<open>Step\<close> and \<^verbatim>\<open>StepWithRetry\<close> calls panics exactly if some step has no name or no
  function; otherwise the definition has exactly the given steps, in order and with their policies, after
  those it had.
\<close>

theorem builder_chain:
  "(case build_steps specs b of
      Inl m \<Rightarrow> \<not> list_all spec_ok specs
    | Inr b' \<Rightarrow> list_all spec_ok specs \<and> Builder_Name b' = Builder_Name b \<and>
        def_Steps (Builder_Definition b') = def_Steps (Builder_Definition b) @
          map (\<lambda>(name, fn, retry). \<lparr>step_Name = name, step_Fn = fn, step_Retry = retry\<rparr>) specs)"
proof (cases "list_all spec_ok specs")
  case True
  moreover have "map spec_step specs = map (\<lambda>(name, fn, retry). \<lparr>step_Name = name, step_Fn = fn, step_Retry = retry\<rparr>) specs"
    by (auto simp: spec_step_def)
  ultimately show ?thesis by (simp add: build_steps_ok Builder_Name_def Builder_Definition_def)
next
  case False
  with build_steps_bad [OF False, of b] show ?thesis by auto
qed

text \<open>
  From definition to result. On the in-memory store and with a context that is never cancelled, a workflow built with
  the builder and registered on an engine that does not know its name can be run by that name, and the run computes the fold of the step functions (stopping at the first
  error), for any steps that compute functions of their input.
\<close>

theorem built_flow_runs:
  assumes "e_instances e = memoryStore" "mem_inv (w_heap w, w_store w)" "ctx_cancel c = None"
    and "ws_inv (w_workflows w)" "map_of (w_workflows w) name = None" "name \<noteq> ''''" "specs \<noteq> []"
    and "build_steps specs (Builder_New name) = Inr b" "Builder_Register e b w = (err, w1)"
    and "list_all2 (\<lambda>s g. computes mem_inv (step_runner e n d) (fst (snd s)) g) specs gs"
  shows "err = None \<and> (\<exists>w'. Run e (step_runner e n d) c name input w1 =
      (Done (Some (length (w_heap w1)), spec_err (run_spec gs 0 input)), w') \<and>
    spec_post (length gs) (run_spec gs 0 input) (w_inst w' (length (w_heap w1))))"
proof -
  have ok: "list_all spec_ok specs" using build_steps_bad [of specs "Builder_New name"] assms(8) by auto
  let ?def = "\<lparr>def_Name = name, def_Version = '''', def_Fingerprint = '''', def_Steps = map spec_step specs\<rparr>"
  have b: "fb_def b = ?def" using assms(8) by (auto simp: build_steps_ok [OF ok] Builder_New_def)
  let ?d = "normalize_def e ?def"
  have d: "def_Name ?d = name" "def_Steps ?d = map spec_step specs" "def_Version ?d = ''v1''"
    by (simp_all add: normalize_def_def Let_def)
  have g: "GetWorkflow name ''v1'' (w_workflows w) = Inl ErrWorkflowNotFound" using assms(5) by (simp add: GetWorkflow_def)
  have reg: "err = None" "w1 = w\<lparr>w_workflows := AList.update name [(''v1'', ?d)] (AList.update name [] (w_workflows w))\<rparr>"
    using assms(5,6,7,9) g d
    by (auto simp: Builder_Register_def b RegisterWorkflow_def Let_def errors_Is_def SaveWorkflow_def)
  have latest: "GetLatestWorkflow name (w_workflows w1) = Inr ?d"
    by (simp add: reg(2) GetLatestWorkflow_def update_conv)
  have "list_all2 (\<lambda>s g. computes mem_inv (step_runner e n d) (step_Fn s) g) (def_Steps ?d) gs"
    using assms(10) unfolding d by (auto simp: list_all2_conv_all_nth spec_step_def split: prod.splits)
  from mem_engine.Run_computes [OF assms(1) mem_engine.step_runner_frame [OF assms(1)] assms(3) _ latest this mem_save_ok]
    assms(2) reg show ?thesis by (auto simp: wf_world_def)
qed

definition flow_specs :: "unit step_spec list" where
  "flow_specs = [(''inc'', Some \<lparr>fn_name = ''main.inc'', fn_body = (\<lambda>v. Return (sample_inc v))\<rparr>, None),
     (''check'', Some \<lparr>fn_name = ''main.check'', fn_body = (\<lambda>v. Return (sample_check v))\<rparr>, Some sample_retry)]"

theorem built_flow_runs_witness:
  "\<exists>b w1 w'. build_steps flow_specs (Builder_New ''flow'') = Inr b \<and>
    Builder_Register sample_engine b sample_world = (None, w1) \<and>
    Run sample_engine (step_runner sample_engine 0 0) Background ''flow'' (VInt 4) w1 = (Done (Some 0, None), w') \<and>
    inst_Output (w_inst w' 0) = VInt 10"
proof -
  obtain b where b: "build_steps flow_specs (Builder_New ''flow'') = Inr b"
    using build_steps_ok [of flow_specs "Builder_New ''flow''"] by (auto simp: flow_specs_def spec_ok_def)
  obtain err w1 where r: "Builder_Register sample_engine b sample_world = (err, w1)"
    by (cases "Builder_Register sample_engine b sample_world")
  have c: "list_all2 (\<lambda>s g. computes mem_inv (step_runner sample_engine 0 0) (fst (snd s)) g) flow_specs [sample_inc, sample_check]"
    by (simp add: flow_specs_def computes_def step_runner_pure)
  have ws: "ws_inv (w_workflows sample_world)" "map_of (w_workflows sample_world) ''flow'' = None"
    by (simp_all add: sample_world_def ws_inv_def sample_def_def)
  have "w_heap w1 = []"
    using r by (auto simp: Builder_Register_def RegisterWorkflow_def Let_def sample_world_def split: if_splits sum.splits prod.splits)
  with built_flow_runs [OF sample_engine_sel(1) sample_world_inv _ ws _ _ b r c, of Background "VInt 4"] b r show ?thesis
    by (auto simp: flow_specs_def sample_inc_def sample_check_def spec_err_def spec_post_def)
qed

end
