(* ===== verification/Parallel_Steps.thy ===== *)
theory Parallel_Steps
  imports Step_Progs
begin

text \<open>
  \<^verbatim>\<open>ParallelStep\<close> and \<^verbatim>\<open>ParallelMapStep\<close> of \<^verbatim>\<open>pkg/api/workflow.go\<close>: a loop that starts goroutines, which share a
  slice of results, an error that is set once, a cancellable context and a wait group. The loop and the
  goroutines are a step relation, one rule per atomic action, so every interleaving is covered; what a child
  step may return is an arbitrary relation, since it may depend on when it is run and
  whether it is cancelled.
\<close>

section \<open>The loop and the goroutines\<close>

text \<open>
  The goroutine of a child has not been started (and never is for a nil child), has been started, is inside the
  child step, is about to call \<^verbatim>\<open>cancel()\<close> after it recorded an error, is about to run the deferred \<^verbatim>\<open>wg.Done()\<close>,
  or has ended.
\<close>

datatype gostate = Unspawned | Spawned | InStep | Cancelling | Returning | Finished

text \<open>
  \<open>ps_next\<close> is the index of the loop, \<open>ps_wg\<close> the counter of the wait group, \<open>ps_ctxErr\<close> is \<^verbatim>\<open>ctx.Err()\<close> of the
  child context; a slot of \<^verbatim>\<open>results\<close> not yet written is \<open>None\<close>.
\<close>

record pstate =
  ps_next :: nat
  ps_wg :: int
  ps_go :: "gostate list"
  ps_results :: "anyv option list"
  ps_firstErr :: "goerr option"
  ps_ctxErr :: "goerr option"

text \<open>\<^verbatim>\<open>errOnce.Do(func() { firstErr = err })\<close>\<close>

definition errOnce :: "goerr \<Rightarrow> pstate \<Rightarrow> pstate" where
  "errOnce e s = (if ps_firstErr s = None then s\<lparr>ps_firstErr := Some e\<rparr> else s)"

definition set_go :: "nat \<Rightarrow> gostate \<Rightarrow> pstate \<Rightarrow> pstate" where
  "set_go i g s = s\<lparr>ps_go := (ps_go s)[i := g]\<rparr>"

definition panic_error :: "string \<Rightarrow> nat \<Rightarrow> string \<Rightarrow> goerr" where
  "panic_error helper i m = ErrMsg (''panic in '' @ helper @ ''['' @ show_nat i @ '']: '' @ m)"

text \<open>The state before the loop over \<open>n\<close> children.\<close>

definition par_start :: "nat \<Rightarrow> pstate" where
  "par_start n = \<lparr>ps_next = 0, ps_wg = 0, ps_go = replicate n Unspawned, ps_results = replicate n None,
     ps_firstErr = None, ps_ctxErr = None\<rparr>"

text \<open>
  \<open>steps ! i\<close> says that child \<open>i\<close> is not nil; the slot of a nil child is filled with the input.
  \<open>outcome i r\<close>: the call of the child step by goroutine \<open>i\<close> may end with \<open>r\<close>; \<open>parent\<close> holds the errors
  with which the caller's context may end meanwhile.
\<close>

inductive par_step :: "string \<Rightarrow> bool list \<Rightarrow> anyv \<Rightarrow> (nat \<Rightarrow> (goerr + anyv) res \<Rightarrow> bool) \<Rightarrow> goerr set \<Rightarrow> pstate \<Rightarrow> pstate \<Rightarrow> bool"
  for helper steps input outcome parent where
  par_nil: "ps_next s < length steps \<Longrightarrow> \<not> steps ! ps_next s \<Longrightarrow>
     par_step helper steps input outcome parent s
       (s\<lparr>ps_results := (ps_results s)[ps_next s := Some input], ps_next := Suc (ps_next s)\<rparr>)"
| par_go: "ps_next s < length steps \<Longrightarrow> steps ! ps_next s \<Longrightarrow>
     par_step helper steps input outcome parent s
       ((set_go (ps_next s) Spawned s)\<lparr>ps_wg := ps_wg s + 1, ps_next := Suc (ps_next s)\<rparr>)"
| par_abort: "i < length steps \<Longrightarrow> ps_go s ! i = Spawned \<Longrightarrow> ps_ctxErr s = Some e \<Longrightarrow>
     par_step helper steps input outcome parent s (set_go i Returning (errOnce e s))"
| par_enter: "i < length steps \<Longrightarrow> ps_go s ! i = Spawned \<Longrightarrow> ps_ctxErr s = None \<Longrightarrow>
     par_step helper steps input outcome parent s (set_go i InStep s)"
| par_ok: "i < length steps \<Longrightarrow> ps_go s ! i = InStep \<Longrightarrow> outcome i (Done (Inr v)) \<Longrightarrow>
     par_step helper steps input outcome parent s (set_go i Returning (s\<lparr>ps_results := (ps_results s)[i := Some v]\<rparr>))"
| par_err: "i < length steps \<Longrightarrow> ps_go s ! i = InStep \<Longrightarrow> outcome i (Done (Inl e)) \<Longrightarrow>
     par_step helper steps input outcome parent s (set_go i Cancelling (errOnce e s))"
| par_panic: "i < length steps \<Longrightarrow> ps_go s ! i = InStep \<Longrightarrow> outcome i (Panicked m) \<Longrightarrow>
     par_step helper steps input outcome parent s (set_go i Cancelling (errOnce (panic_error helper i m) s))"
| par_cancel: "i < length steps \<Longrightarrow> ps_go s ! i = Cancelling \<Longrightarrow>
     par_step helper steps input outcome parent s (set_go i Returning
       (s\<lparr>ps_ctxErr := (if ps_ctxErr s = None then Some ContextCanceled else ps_ctxErr s)\<rparr>))"
| par_done: "i < length steps \<Longrightarrow> ps_go s ! i = Returning \<Longrightarrow>
     par_step helper steps input outcome parent s ((set_go i Finished s)\<lparr>ps_wg := ps_wg s - 1\<rparr>)"
| par_parent: "ps_ctxErr s = None \<Longrightarrow> e \<in> parent \<Longrightarrow> par_step helper steps input outcome parent s (s\<lparr>ps_ctxErr := Some e\<rparr>)"

text \<open>The loop is over and \<^verbatim>\<open>wg.Wait()\<close> returns: the counter of the wait group is zero.\<close>

definition wg_Wait :: "bool list \<Rightarrow> pstate \<Rightarrow> bool" where
  "wg_Wait steps s \<longleftrightarrow> ps_next s = length steps \<and> ps_wg s = 0"

definition par_reach :: "string \<Rightarrow> bool list \<Rightarrow> anyv \<Rightarrow> (nat \<Rightarrow> (goerr + anyv) res \<Rightarrow> bool) \<Rightarrow> goerr set \<Rightarrow> pstate \<Rightarrow> pstate \<Rightarrow> bool" where
  "par_reach helper steps input outcome parent = (par_step helper steps input outcome parent)\<^sup>*\<^sup>*"

section \<open>The two step constructors\<close>

definition slot :: "anyv option \<Rightarrow> anyv" where
  "slot r = (case r of None \<Rightarrow> VNil | Some v \<Rightarrow> v)"

definition ParallelStep_join :: "pstate \<Rightarrow> goerr + anyv" where
  "ParallelStep_join s =
     (case ps_firstErr s of
        Some e \<Rightarrow> Inl e
      | None \<Rightarrow> Inr (ParallelResults (map (\<lambda>i. (int i, slot (ps_results s ! i), None)) [0..<length (ps_results s)])))"

text \<open>\<open>ParallelStep steps outcome parent input r\<close>: the step may return \<open>r\<close>.\<close>

inductive ParallelStep :: "bool list \<Rightarrow> (nat \<Rightarrow> (goerr + anyv) res \<Rightarrow> bool) \<Rightarrow> goerr set \<Rightarrow> anyv \<Rightarrow> goerr + anyv \<Rightarrow> bool"
  for steps outcome parent input where
  par_empty: "steps = [] \<Longrightarrow> ParallelStep steps outcome parent input (Inr input)"
| par_join: "steps \<noteq> [] \<Longrightarrow> par_reach ''ParallelStep'' steps input outcome parent (par_start (length steps)) s \<Longrightarrow> wg_Wait steps s \<Longrightarrow>
     ParallelStep steps outcome parent input (ParallelStep_join s)"

text \<open>
  The elements of a value whose kind is slice or array; slices of other element types are not values of
  the model. An error that is an element's field is kept as its text.
\<close>

definition err_value :: "goerr option \<Rightarrow> anyv" where
  "err_value e = (case e of None \<Rightarrow> VNil | Some er \<Rightarrow> VStruct ''error'' [VString (Error er)])"

fun slice_items :: "anyv \<Rightarrow> anyv list option" where
  "slice_items (VStrings ss) = Some (map VString ss)"
| "slice_items (VList vs) = Some vs"
| "slice_items (ParallelResults rs) = Some (map (\<lambda>(i, v, e). VStruct ''api.ParallelResult'' [VInt i, v, err_value e]) rs)"
| "slice_items _ = None"

definition ParallelMapStep_join :: "pstate \<Rightarrow> goerr + anyv" where
  "ParallelMapStep_join s =
     (case ps_firstErr s of Some e \<Rightarrow> Inl e | None \<Rightarrow> Inr (VList (map slot (ps_results s))))"

text \<open>
  \<open>fn\<close> relates an item to what the mapped step may return for it; \<open>None\<close> is a nil function. Every item has its
  goroutine.
\<close>

inductive ParallelMapStep :: "(anyv \<Rightarrow> (goerr + anyv) res \<Rightarrow> bool) option \<Rightarrow> goerr set \<Rightarrow> anyv \<Rightarrow> goerr + anyv \<Rightarrow> bool"
  for fn parent input where
  map_nil: "fn = None \<Longrightarrow> ParallelMapStep fn parent input (Inr input)"
| map_kind: "fn = Some f \<Longrightarrow> slice_items input = None \<Longrightarrow>
     ParallelMapStep fn parent input (Inl (ErrMsg (''ParallelMapStep expects slice or array input, got '' @ type_name input)))"
| map_empty: "fn = Some f \<Longrightarrow> slice_items input = Some [] \<Longrightarrow> ParallelMapStep fn parent input (Inr (VList []))"
| map_join: "fn = Some f \<Longrightarrow> slice_items input = Some items \<Longrightarrow> items \<noteq> [] \<Longrightarrow> steps = replicate (length items) True \<Longrightarrow>
     par_reach ''ParallelMapStep'' steps input (\<lambda>i. f (items ! i)) parent (par_start (length items)) s \<Longrightarrow> wg_Wait steps s \<Longrightarrow>
     ParallelMapStep fn parent input (ParallelMapStep_join s)"

inductive_cases ParallelMapStep_elim: "ParallelMapStep fn parent input r"

section \<open>Invariant\<close>

text \<open>
  \<open>par_inv\<close>: the loop has started exactly the goroutines of the children before its index that are not nil; every
  goroutine that ended without an error being recorded has written a result its step returned; a
  recorded error is one a child returned, the report of a panic, or a context error; and the counter of
  the wait group is the number of goroutines that have not run \<^verbatim>\<open>wg.Done()\<close>.
\<close>

definition error_source :: "string \<Rightarrow> (nat \<Rightarrow> (goerr + anyv) res \<Rightarrow> bool) \<Rightarrow> goerr set \<Rightarrow> nat \<Rightarrow> goerr \<Rightarrow> bool" where
  "error_source helper outcome parent n e \<longleftrightarrow>
     (\<exists>i < n. outcome i (Done (Inl e)) \<or> (\<exists>m. outcome i (Panicked m) \<and> e = panic_error helper i m)) \<or> e \<in> parent"

fun running :: "gostate \<Rightarrow> bool" where
  "running Unspawned = False"
| "running Finished = False"
| "running _ = True"

definition loop_inv :: "bool list \<Rightarrow> anyv \<Rightarrow> pstate \<Rightarrow> bool" where
  "loop_inv steps input s \<longleftrightarrow> length (ps_go s) = length steps \<and> length (ps_results s) = length steps \<and> ps_next s \<le> length steps \<and>
     (\<forall>i < length steps. ps_go s ! i \<noteq> Unspawned \<longleftrightarrow> i < ps_next s \<and> steps ! i) \<and>
     (\<forall>i < ps_next s. \<not> steps ! i \<longrightarrow> ps_results s ! i = Some input) \<and>
     ps_wg s = int (length (filter running (ps_go s)))"

definition par_inv :: "string \<Rightarrow> bool list \<Rightarrow> anyv \<Rightarrow> (nat \<Rightarrow> (goerr + anyv) res \<Rightarrow> bool) \<Rightarrow> goerr set \<Rightarrow> pstate \<Rightarrow> bool" where
  "par_inv helper steps input outcome parent s \<longleftrightarrow> loop_inv steps input s \<and>
     (\<forall>i < length steps. ps_go s ! i \<in> {Returning, Finished} \<longrightarrow> ps_firstErr s = None \<longrightarrow>
        (\<exists>v. ps_results s ! i = Some v \<and> outcome i (Done (Inr v)))) \<and>
     (\<forall>e. ps_firstErr s = Some e \<longrightarrow> error_source helper outcome parent (length steps) e) \<and>
     (\<forall>e. ps_ctxErr s = Some e \<longrightarrow> ps_firstErr s \<noteq> None \<or> e \<in> parent) \<and>
     (\<forall>i < length steps. ps_go s ! i = Cancelling \<longrightarrow> ps_firstErr s \<noteq> None)"

lemma set_go_sel [simp]:
  "ps_go (set_go i g s) = (ps_go s)[i := g]" "ps_results (set_go i g s) = ps_results s"
  "ps_firstErr (set_go i g s) = ps_firstErr s" "ps_ctxErr (set_go i g s) = ps_ctxErr s"
  "ps_next (set_go i g s) = ps_next s" "ps_wg (set_go i g s) = ps_wg s"
  by (simp_all add: set_go_def)

lemma errOnce_sel [simp]:
  "ps_go (errOnce e s) = ps_go s" "ps_results (errOnce e s) = ps_results s" "ps_ctxErr (errOnce e s) = ps_ctxErr s"
  "ps_next (errOnce e s) = ps_next s" "ps_wg (errOnce e s) = ps_wg s"
  "ps_firstErr (errOnce e s) = (case ps_firstErr s of None \<Rightarrow> Some e | Some e' \<Rightarrow> Some e')"
  by (simp_all add: errOnce_def split: option.splits)

lemma filter_update:
  "i < length xs \<Longrightarrow> int (length (filter P (xs[i := x]))) =
     int (length (filter P xs)) + (if P x then 1 else 0) - (if P (xs ! i) then 1 else 0)"
proof (induction xs arbitrary: i)
  case (Cons a xs)
  show ?case
  proof (cases i)
    case (Suc j)
    then show ?thesis using Cons.IH [of j] Cons.prems by auto
  qed simp
qed simp

lemma loop_inv_step:
  assumes "par_step helper steps input outcome parent s s'" "loop_inv steps input s"
  shows "loop_inv steps input s'"
  using assms
proof cases
  case par_go
  then show ?thesis using assms(2) by (auto simp: loop_inv_def nth_list_update filter_update less_Suc_eq)
next
  case (par_ok i v)
  then show ?thesis using assms(2) by (auto simp: loop_inv_def nth_list_update filter_update)
qed (use assms(2) in \<open>auto simp: loop_inv_def nth_list_update filter_update less_Suc_eq\<close>)

lemma par_inv_step:
  assumes "par_step helper steps input outcome parent s s'" "par_inv helper steps input outcome parent s"
  shows "par_inv helper steps input outcome parent s'"
proof -
  have l: "loop_inv steps input s'" using loop_inv_step [OF assms(1)] assms(2) by (simp add: par_inv_def)
  have len: "length (ps_go s) = length steps" "length (ps_results s) = length steps" "ps_go s ! ps_next s = Unspawned"
    if "ps_next s < length steps" using assms(2) that by (auto simp: par_inv_def loop_inv_def)
  have len': "length (ps_go s) = length steps" "length (ps_results s) = length steps"
    using assms(2) by (auto simp: par_inv_def loop_inv_def)
  from assms show ?thesis
    by cases (use l len len' in \<open>auto simp: par_inv_def nth_list_update error_source_def split: option.splits\<close>)
qed

lemma par_inv_start: "par_inv helper steps input outcome parent (par_start (length steps))"
  by (simp add: par_inv_def loop_inv_def par_start_def)

lemma par_inv_reach:
  assumes "par_reach helper steps input outcome parent (par_start (length steps)) s"
  shows "par_inv helper steps input outcome parent s"
  using assms unfolding par_reach_def
  by (induction rule: rtranclp_induct) (use par_inv_start par_inv_step in blast)+

text \<open>When \<^verbatim>\<open>wg.Wait()\<close> returns, every goroutine has ended.\<close>

lemma wg_Wait_finished:
  assumes "loop_inv steps input s" "wg_Wait steps s" "i < length steps"
  shows "if steps ! i then ps_go s ! i = Finished else ps_results s ! i = Some input"
proof -
  have "filter running (ps_go s) = []" using assms(1,2) by (simp add: loop_inv_def wg_Wait_def)
  then have "\<not> running (ps_go s ! i)" using assms(1,3) by (auto simp: loop_inv_def filter_empty_conv)
  with assms show ?thesis by (cases "ps_go s ! i") (auto simp: loop_inv_def wg_Wait_def)
qed

section \<open>Termination\<close>

fun go_weight :: "gostate \<Rightarrow> nat" where
  "go_weight Spawned = 4"
| "go_weight InStep = 3"
| "go_weight Cancelling = 2"
| "go_weight Returning = 1"
| "go_weight _ = 0"

definition par_measure :: "bool list \<Rightarrow> pstate \<Rightarrow> nat" where
  "par_measure steps s = 5 * (length steps - ps_next s) + sum_list (map go_weight (ps_go s)) + (if ps_ctxErr s = None then 1 else 0)"

lemma weight_update:
  "i < length gs \<Longrightarrow> sum_list (map go_weight (gs[i := g])) + go_weight (gs ! i) = sum_list (map go_weight gs) + go_weight g"
  by (induction gs arbitrary: i) (auto simp: nth_Cons split: nat.splits)

lemma par_step_measure:
  assumes "par_step helper steps input outcome parent s s'" "loop_inv steps input s"
  shows "par_measure steps s' < par_measure steps s"
proof -
  have len: "length (ps_go s) = length steps" "ps_next s < length steps \<Longrightarrow> ps_go s ! ps_next s = Unspawned"
    using assms(2) by (auto simp: loop_inv_def)
  have w: "i < length steps \<Longrightarrow> sum_list (map go_weight ((ps_go s)[i := g])) + go_weight (ps_go s ! i) =
      sum_list (map go_weight (ps_go s)) + go_weight g" for i g using weight_update [of i "ps_go s" g] len(1) by simp
  from assms(1) show ?thesis
  proof cases
    case par_go
    then show ?thesis using w [of "ps_next s" Spawned] len(2) by (simp add: par_measure_def)
  next
    case (par_abort i e)
    then show ?thesis using w [of i Returning] by (simp add: par_measure_def)
  next
    case (par_enter i)
    then show ?thesis using w [of i InStep] by (simp add: par_measure_def)
  next
    case (par_ok i v)
    then show ?thesis using w [of i Returning] by (simp add: par_measure_def)
  next
    case (par_err i e)
    then show ?thesis using w [of i Cancelling] by (simp add: par_measure_def)
  next
    case (par_panic i m)
    then show ?thesis using w [of i Cancelling] by (simp add: par_measure_def)
  next
    case (par_cancel i)
    then show ?thesis using w [of i Returning] by (simp add: par_measure_def)
  next
    case (par_done i)
    then show ?thesis using w [of i Finished] by (simp add: par_measure_def)
  qed (simp_all add: par_measure_def)
qed

lemma par_progress:
  assumes "loop_inv steps input s" "\<not> wg_Wait steps s" "\<forall>i < length steps. \<exists>r. r \<noteq> NoFuel \<and> outcome i r"
  shows "\<exists>s'. par_step helper steps input outcome parent s s'"
proof (cases "ps_next s < length steps")
  case True
  then show ?thesis by (cases "steps ! ps_next s") (blast intro: par_go par_nil)+
next
  case False
  with assms(1,2) have "filter running (ps_go s) \<noteq> []" by (auto simp: loop_inv_def wg_Wait_def)
  then obtain i where i: "i < length steps" "running (ps_go s ! i)"
    using assms(1) by (auto simp: loop_inv_def filter_empty_conv in_set_conv_nth)
  from assms(3) i(1) obtain r where r: "r \<noteq> NoFuel" "outcome i r" by blast
  show ?thesis
  proof (cases "ps_go s ! i")
    case Spawned
    with i show ?thesis by (cases "ps_ctxErr s") (blast intro: par_abort par_enter)+
  next
    case InStep
    with i r show ?thesis
      by (cases r) (metis par_ok par_err sum.exhaust, blast intro: par_panic, simp)
  next
    case Cancelling
    with i show ?thesis by (blast intro: par_cancel)
  next
    case Returning
    with i show ?thesis by (blast intro: par_done)
  qed (use i in simp_all)
qed

lemma par_ends:
  assumes "loop_inv steps input s" "\<forall>i < length steps. \<exists>r. r \<noteq> NoFuel \<and> outcome i r"
  shows "\<exists>s'. par_reach helper steps input outcome parent s s' \<and> wg_Wait steps s'"
  using assms
proof (induction "par_measure steps s" arbitrary: s rule: less_induct)
  case less
  show ?case
  proof (cases "wg_Wait steps s")
    case True
    then show ?thesis by (auto simp: par_reach_def)
  next
    case False
    with par_progress less.prems obtain s1 where s1: "par_step helper steps input outcome parent s s1" by blast
    with less.hyps [OF par_step_measure [OF s1 less.prems(1)] loop_inv_step [OF s1 less.prems(1)] less.prems(2)] obtain s' where
      "par_reach helper steps input outcome parent s1 s'" "wg_Wait steps s'" by auto
    with s1 show ?thesis unfolding par_reach_def by (meson converse_rtranclp_into_rtranclp)
  qed
qed

lemma loop_inv_start: "loop_inv steps input (par_start (length steps))"
  using par_inv_start [of "''''" steps input "\<lambda>i r. False" "{}"] by (simp add: par_inv_def)

section \<open>What the calls return\<close>

text \<open>
  C13: Parallel steps. Whatever the interleaving: if the step returns without an error, the results are those of
  the children in the order of the children (the input for a nil child), each a value that child returned;
  if it returns an error, that is an error some child returned, the report of a child's panic, or the error
  of the caller's context.
\<close>

theorem parallel_step_results:
  assumes "ParallelStep steps outcome parent input r"
  shows "case r of
      Inl e \<Rightarrow> error_source ''ParallelStep'' outcome parent (length steps) e
    | Inr v \<Rightarrow> steps = [] \<and> v = input \<or>
        (\<exists>vs. length vs = length steps \<and> v = ParallelResults (map (\<lambda>i. (int i, vs ! i, None)) [0..<length steps]) \<and>
          (\<forall>i < length steps. if steps ! i then outcome i (Done (Inr (vs ! i))) else vs ! i = input))"
  using assms
proof (cases rule: ParallelStep.cases)
  case (par_join s)
  have inv: "par_inv ''ParallelStep'' steps input outcome parent s" by (rule par_inv_reach [OF par_join(3)])
  then have loop: "loop_inv steps input s" by (simp add: par_inv_def)
  then have len: "length (ps_results s) = length steps" by (simp add: loop_inv_def)
  show ?thesis
  proof (cases "ps_firstErr s")
    case (Some e)
    with inv par_join(1) show ?thesis by (simp add: ParallelStep_join_def par_inv_def)
  next
    case None
    define vs where "vs = map slot (ps_results s)"
    have "if steps ! i then outcome i (Done (Inr (vs ! i))) else vs ! i = input" if i: "i < length steps" for i
      using wg_Wait_finished [OF loop par_join(4) i] inv None i len
      by (cases "steps ! i") (auto simp: par_inv_def vs_def slot_def dest!: spec [of _ i])
    moreover have "r = Inr (ParallelResults (map (\<lambda>i. (int i, vs ! i, None)) [0..<length steps]))"
      using par_join(1) None len by (simp add: ParallelStep_join_def vs_def)
    moreover have "length vs = length steps" by (simp add: vs_def len)
    ultimately show ?thesis by auto
  qed
qed simp

lemma parallel_step_run:
  assumes "steps \<noteq> []" "\<forall>i < length steps. \<exists>r. r \<noteq> NoFuel \<and> outcome i r"
  shows "\<exists>r. ParallelStep steps outcome parent input r"
  using par_ends [OF loop_inv_start assms(2)] assms(1) by (blast intro: ParallelStep.par_join)

theorem parallel_step_results_witness:
  "\<exists>r. ParallelStep [True, False] (\<lambda>i r. r = Done (Inr (VInt 7))) {} (VInt 1) r \<and>
     r = Inr (ParallelResults [(0, VInt 7, None), (1, VInt 1, None)])"
proof -
  let ?o = "\<lambda>(i::nat) (r::(goerr + anyv) res). r = Done (Inr (VInt 7))"
  obtain r where r: "ParallelStep [True, False] ?o {} (VInt 1) r"
    using parallel_step_run [of "[True, False]" ?o] by auto
  from parallel_step_results [OF r] have "r = Inr (ParallelResults [(0, VInt 7, None), (1, VInt 1, None)])"
    by (auto simp: error_source_def less_Suc_eq upt_rec split: sum.splits)
  with r show ?thesis by blast
qed

text \<open>
  C24: A parallel map is a map. If the mapped step returns \<open>g x\<close> for every item \<open>x\<close> and the caller's context
  does not end, then \<^verbatim>\<open>ParallelMapStep\<close> on a slice of type \<^verbatim>\<open>[]any\<close> returns the slice of the \<open>g x\<close> in order: it always
  returns, and no interleaving gives anything else.
\<close>

theorem parallel_map_is_map:
  "ParallelMapStep (Some (\<lambda>x r. r = Done (Inr (g x)))) {} (VList xs) r \<longleftrightarrow> r = Inr (VList (map g xs))"
proof (cases "xs = []")
  case True
  then show ?thesis by (auto elim!: ParallelMapStep_elim intro: map_empty)
next
  case False
  let ?o = "\<lambda>i r. r = Done (Inr (g (xs ! i)))" and ?n = "length xs" and ?steps = "replicate (length xs) True"
  let ?reach = "par_reach ''ParallelMapStep'' ?steps (VList xs) ?o {} (par_start ?n)"
  have join: "ParallelMapStep_join s = Inr (VList (map g xs))" if reach: "?reach s" and wait: "wg_Wait ?steps s" for s
  proof -
    have inv: "par_inv ''ParallelMapStep'' ?steps (VList xs) ?o {} s"
      by (rule par_inv_reach) (simp add: reach)
    then have none: "ps_firstErr s = None" by (cases "ps_firstErr s") (auto simp: par_inv_def error_source_def)
    have loop: "loop_inv ?steps (VList xs) s" using inv by (simp add: par_inv_def)
    have "ps_results s ! i = Some (g (xs ! i))" if "i < ?n" for i
      using wg_Wait_finished [OF loop wait, of i] inv none that by (auto simp: par_inv_def)
    then have "map slot (ps_results s) = map g xs"
      using loop by (intro nth_equalityI) (simp_all add: slot_def loop_inv_def)
    with none show ?thesis by (simp add: ParallelMapStep_join_def)
  qed
  have "\<exists>s. ?reach s \<and> wg_Wait ?steps s" using par_ends [OF loop_inv_start [of ?steps], of ?o] by auto
  then obtain s where s: "?reach s" "wg_Wait ?steps s" by blast
  have "ParallelMapStep (Some (\<lambda>x r. r = Done (Inr (g x)))) {} (VList xs) (ParallelMapStep_join s)"
    by (rule map_join [where items = xs]) (use s False in simp_all)
  then have "ParallelMapStep (Some (\<lambda>x r. r = Done (Inr (g x)))) {} (VList xs) (Inr (VList (map g xs)))"
    unfolding join [OF s] .
  moreover have "r = Inr (VList (map g xs))" if "ParallelMapStep (Some (\<lambda>x r. r = Done (Inr (g x)))) {} (VList xs) r"
    using that False join by (auto elim!: ParallelMapStep_elim)
  ultimately show ?thesis by blast
qed

text \<open>
  C23: Parallel steps end. Every run of the loop and the goroutines of \<open>n\<close> parallel children makes at most \<open>5 n + 1\<close>
  actions, the counter of the wait group is never negative, and as long as \<^verbatim>\<open>wg.Wait()\<close> does not return (and
  every child call returns) another action is possible: there is no deadlock, nil children or not.
\<close>

theorem parallel_step_ends:
  assumes "(par_step ''ParallelStep'' steps input outcome parent ^^ k) (par_start (length steps)) s"
  shows "k \<le> 5 * length steps + 1 \<and> 0 \<le> ps_wg s \<and>
    ((\<forall>i < length steps. \<exists>r. r \<noteq> NoFuel \<and> outcome i r) \<longrightarrow>
      wg_Wait steps s \<or> (\<exists>s'. par_step ''ParallelStep'' steps input outcome parent s s'))"
proof -
  have "k + par_measure steps s \<le> par_measure steps (par_start (length steps)) \<and> loop_inv steps input s"
    using assms
  proof (induction k arbitrary: s)
    case 0
    then show ?case using loop_inv_start [of steps input] by auto
  next
    case (Suc k)
    then obtain s1 where s1: "(par_step ''ParallelStep'' steps input outcome parent ^^ k) (par_start (length steps)) s1"
      "par_step ''ParallelStep'' steps input outcome parent s1 s" by auto
    with Suc.IH [OF s1(1)] par_step_measure [OF s1(2)] loop_inv_step [OF s1(2)] show ?case by fastforce
  qed
  moreover have "par_measure steps (par_start (length steps)) = 5 * length steps + 1"
    by (simp add: par_measure_def par_start_def sum_list_replicate)
  ultimately show ?thesis using par_progress [of steps input s outcome "''ParallelStep''" parent] by (auto simp: loop_inv_def)
qed

theorem parallel_step_ends_witness:
  "\<exists>s'. par_step ''ParallelStep'' [True, False] VNil (\<lambda>i r. r = Done (Inr (VInt 7))) {} (par_start 2) s'"
  using parallel_step_ends [of 0 "[True, False]" VNil "\<lambda>i r. r = Done (Inr (VInt 7))" "{}" "par_start 2"]
  by (auto simp: wg_Wait_def par_start_def numeral_2_eq_2)

end
