(* ===== verification/Spec2Isabelle.thy ===== *)
theory Spec2Isabelle
  imports Durability Typed_Flow Flow_Builder Parallel_Steps
begin

text \<open>
  A verification of fluxo, a workflow engine in Go (paths below are relative to \<^verbatim>\<open>src/\<close>).

  \<^bold>\<open>The program.\<close> An application registers workflow definitions, lists of step functions, with an
  engine (\<^verbatim>\<open>internal/engine/engine_impl.go\<close>). The engine creates workflow instances, executes their
  steps in order with retries and backoff, stores the result of every step in the instance, parks
  an instance that waits for a signal or for child workflows, and resumes parked and failed
  instances without executing a step again that has a result. Instances, their leases and their
  event histories are kept in a store (in memory or SQLite, \<^verbatim>\<open>internal/persistence/\<close>; PostgreSQL, MongoDB or Redis, in
  modules of their own). Workers
  (\<^verbatim>\<open>pkg/worker/worker.go\<close>) take tasks from a queue with leases (in memory or SQLite,
  \<^verbatim>\<open>internal/taskqueue/\<close>) and call the engine; while a handler runs, a heartbeat renews the lease of
  its task. Observers (\<^verbatim>\<open>pkg/api/observer.go\<close>) are told what the engine does. A fluent builder, a
  retry builder, a SQLite bundle and a local runner (\<^verbatim>\<open>builder.go\<close>, \<^verbatim>\<open>retry.go\<close>, \<^verbatim>\<open>bundle.go\<close>,
  \<^verbatim>\<open>local_runner.go\<close>) put the pieces together.

  \<^bold>\<open>The library.\<close>

  \<^item> \<open>Fluxo_Prelude\<close>: the theorem collections, lemmas on lists and maps, decimal numbers as
    \<^verbatim>\<open>fmt\<close> and \<^verbatim>\<open>strconv\<close> print and parse them, time and durations.
  \<^item> \<open>Api_Types\<close>: dynamic values, errors with their unwrap chain, contexts, instances, events and
    payloads of \<^verbatim>\<open>pkg/api/\<close>. Instances live in a heap (\<open>heap\<close>, \<open>addr\<close>): the in-memory store and the
    engine share pointers to them, and the model keeps this aliasing.
  \<^item> \<open>Step_Progs\<close>: the step combinators of \<^verbatim>\<open>pkg/api/workflow.go\<close> as programs over an interface of
    effects (sleep, the outside world, calls into the engine); \<open>Parallel_Steps\<close>: \<^verbatim>\<open>ParallelStep\<close> and
    \<^verbatim>\<open>ParallelMapStep\<close> as a step relation on the loop that starts the goroutines, their states and the counter of the
    wait group.
  \<^item> \<open>Task_Queue\<close>: tasks, the \<^verbatim>\<open>Queue\<close> interface as a record, the polling loop of \<^verbatim>\<open>Dequeue\<close> and the contracts of a
    back end over an abstract table of tasks and leases: \<open>leased_queue\<close>, whose times may be rounded
    and whose attempts may be overwritten (Redis), \<open>exact_queue\<close> (MongoDB) and \<open>task_queue\<close> (memory and
    SQLite), each the one before and more. Leases exclude other workers, tasks are kept until
    acknowledged and runnable tasks are delivered: these are proved once in the locales, for sequences of calls in
    which every enqueued task is \<open>fresh\<close>, that is, stored under an identifier that is not in use. SQLite issues its own
    identifiers and MongoDB refuses one in use; the in-memory and the Redis queue take the one they are given, so there
    freshness is a condition of the properties, and what goes wrong without it is stated as well.
    \<open>Memory_Queue\<close> and \<open>Sqlite_Queue\<close> interpret the locales; \<open>Queue_Props\<close> has the resulting properties.
  \<^item> \<open>Instance_Store\<close>: the \<^verbatim>\<open>InstanceStore\<close> and \<^verbatim>\<open>EventStore\<close> interfaces and the locales of their
    contracts: \<open>instance_leases\<close> and \<open>lease_store\<close> for the leases, \<open>lease_neutral_store\<close> for stores whose updates
    leave leases alone; \<open>Memory_Store\<close> and \<open>Sqlite_Store\<close> interpret them. \<open>Gob_Codec\<close>: the codecs between values
    and the blobs of the SQLite tables. \<open>Sqlite_Props\<close>: runs and replay on the in-memory and on the SQLite store, round
    trips, histories and leases.
  \<^item> \<open>Retry_Backoff\<close>: retry policies, the retry builder and the growth of the backoff in \<^verbatim>\<open>float64\<close>.
  \<^item> \<open>Engine_Core\<close>: \<^verbatim>\<open>engineImpl\<close>, the world it acts on and \<^verbatim>\<open>executeSteps\<close>, one definition per branch;
    \<open>Engine\<close>: every operation of the engine, and the runner of step programs that calls back into
    it. \<open>Engine_Frame\<close>, \<open>Engine_Exec\<close>, \<open>Engine_Spec\<close>, \<open>Engine_Ops\<close>: what operations leave alone,
    the invariant of an execution, the abstract fold of the step functions and the contracts of the
    operations; \<open>Engine_Props\<close>: the properties of the engine on the in-memory store.
  \<^item> \<open>Engine_Durable\<close>: the locale \<open>durable_store\<close>, what a store has to promise for the last write of a run to be
    what the store holds when the run returns, although the engine ignores the errors of updates. The
    SQLite, MongoDB and Redis stores interpret it; \<open>Durability\<close> has what follows for \<^verbatim>\<open>Run\<close>, \<^verbatim>\<open>RunVersion\<close>,
    \<^verbatim>\<open>RunInstance\<close>, \<^verbatim>\<open>ResumeNow\<close> and \<^verbatim>\<open>SignalNow\<close>, what is lost when a result cannot be encoded, and, with worker
    and queue, that a task is done only when its COMPLETED instance is in the database.
  \<^item> \<open>Typed_Flow\<close>: a typing of workflows made of \<^verbatim>\<open>TypedStep\<close> and \<^verbatim>\<open>TypedLoop\<close>, and its soundness.
  \<^item> \<open>Worker\<close>, \<open>Worker_Props\<close>: the worker over an arbitrary engine and queue, the fate of a task, the
    heartbeat, automatic signal timeouts, and what the fallback after a refused \<^verbatim>\<open>Nack\<close> does to another worker's lease.
  \<^item> \<open>Observers\<close>: the four observers as functions of the callbacks in the log of the engine.
  \<^item> \<open>Flow_Builder\<close>: the builder, and that a built workflow runs as the fold of its steps.
  \<^item> \<open>Local_Runner\<close>: the constructors of engines, the SQLite bundle and the local runner with its
    worker loop, and what they do together.
  \<^item> \<open>Postgres_Store\<close>, \<open>Postgres_Queue\<close>: the PostgreSQL back end (\<^verbatim>\<open>postgres/\<close>). Its store, with a table, statements and scans
    of its own, refines the SQLite store for the parameters that the server accepts; its queue is first in, first out and has no leases, and what this means for a
    worker is stated.
  \<^item> \<open>Mongo_Queue\<close>, \<open>Mongo_Store\<close>: the MongoDB back end (\<^verbatim>\<open>mongo/\<close>) on collections of documents. Its leases exclude
    other workers and outlive updates; a poll can return a task to the worker that already holds it,
    and an update does not change the version and fingerprint that are read.
  \<^item> \<open>Redis_Scores\<close>, \<open>Redis_Queue\<close>, \<open>Redis_Store\<close>: the Redis back end (\<^verbatim>\<open>redis/\<close>): sorted sets whose scores are
    times rounded to \<^verbatim>\<open>float64\<close>, the Lua scripts of the queue and of the leases, hashes, keys and
    indexes. Rounding and the limit of a script's loop hold no task up; from an empty database, the operations keep
    the indexes complete, but stale entries stay.

  \<^bold>\<open>State and operations.\<close> A Go method that changes state is a function on an explicit state (record
  \<open>world\<close>: heap, clock, registered workflows, instance store, event store, queue, observer log, identifier
  counter and the world outside). Errors are values of \<open>goerr\<close>; a result is \<open>goerr + 'a\<close>, or \<open>'a res\<close> where
  code may panic or not return. The clock is a field of the world that only grows; a sleep advances
  it. A context is the time and the error with which it ends, if ever. Locked sections of one method are atomic; the
  properties on leases of tasks quantify over all sequences of calls of all workers that have a name and ask for
  leases of a positive duration, with the condition on identifiers above.

  \<^bold>\<open>Bounds.\<close> \<open>n\<close> bounds the iterations of a loop step and the polls of a \<^verbatim>\<open>Dequeue\<close>, \<open>d\<close> the nesting of child
  workflows; with too little of either the outcome is \<open>NoFuel\<close>, which no property confuses with a
  return: properties that say an operation returns prove \<open>Done\<close> for the bounds they name, and those
  about results hold for all bounds. \<open>Dequeue_returns\<close> computes a sufficient number of polls from the
  deadline of the context. All other recursions are structural on the steps, the attempts left, the
  rows or the tasks. The counters of the engine and of the in-memory queue, the
  metrics and times in nanoseconds wrap at 64 bits as the code's \<^verbatim>\<open>int64\<close> do (row identifiers of SQLite end there with an
  error), the step column of PostgreSQL has 32 bits, and the backoff is rounded as \<^verbatim>\<open>float64\<close>.

  \<^bold>\<open>Parameters.\<close> The digest of fingerprints (SHA-256 of JSON), the build information, random identifiers,
  the conversion of \<^verbatim>\<open>float64\<close> values out of range, what PostgreSQL, MongoDB and Redis leave open (the order of unordered results, the choice among equals, the texts of
  their errors, the strings that PostgreSQL refuses) and \<^verbatim>\<open>encoding/gob\<close> (which type names are registered,
  and what it rebuilds of a value) are arguments of the definitions that use them.

  \<^bold>\<open>Not modelled.\<close> The functions of \<^verbatim>\<open>fluxo.go\<close> and \<^verbatim>\<open>steps.go\<close> that only forward, \<^verbatim>\<open>FlowBuilder.Parallel\<close> (a step of
  the builder is a sequential program, \<^verbatim>\<open>ParallelStep\<close> a relation over interleavings), the examples and
  the test containers. A step function is a program that may sleep, act on the outside world and call \<^verbatim>\<open>Run\<close> and
  \<^verbatim>\<open>GetInstance\<close> of the engine, which is what the combinators of \<^verbatim>\<open>pkg/api\<close> do; in Go it can get the whole engine
  from its context, and with the in-memory store pointers to instances: steps that register workflows, signal, resume or
  recover instances or write to them are not covered. Slices are \<^verbatim>\<open>[]any\<close>, \<^verbatim>\<open>[]string\<close> and \<^verbatim>\<open>[]ParallelResult\<close>; other
  element types are missing. The heartbeat renews the lease of a task exactly at its ticks, and its renewals are
  applied when the handler returns, with no other calls on the queue in between. A Lua script, a transaction and a
  single command of Redis are atomic, and so is \<^verbatim>\<open>Nack\<close>, which
  uses three commands; Redis and the engines share one clock. Of the databases, the errors other than a context that has ended, a duplicate primary
  key, an exhausted row identifier and a parameter that PostgreSQL refuses are left out, and a statement is atomic; in particular the error of the
  transaction with which the Redis store writes its indexes, and which it ignores, does not occur. The iteration order of
  Go maps is the order of the list that represents the map. Real interleavings of engine operations
  on one instance are not explored; leases are what the program relies on there.
\<close>

end
